(* ===== verification/Usmp_Prelude.thy ===== *)
theory Usmp_Prelude
  imports Complex_Main "HOL-Library.Word"
begin

text \<open>
  Shared ground of the development: the byte type and Python's slicing, the theorem
  collections the component theories fill, and the lemmas on lists, slices and bit
  operations that several components use.

  Python's \<open>bytes\<close> and \<open>bytearray\<close> are lists of 8-bit words, its unbounded integers
  are \<open>int\<close>, and its floating-point clock readings and durations are rationals (the
  comparisons, minima and maxima the code takes of them are exact; rounding of sums is
  not modelled).
\<close>

unbundle bit_operations_syntax

type_synonym byte = "8 word"
type_synonym bytes = "byte list"
type_synonym seconds = rat

named_theorems wire_simps \<open>lengths and layouts of packed fields, headers and frames\<close>
named_theorems io_simps \<open>unfolding of the result and coroutine combinators\<close>
named_theorems dict_simps \<open>laws of the insertion-ordered dictionary\<close>

subsection \<open>Slices\<close>

text \<open>\<open>data[a:b]\<close> for non-negative bounds: out-of-range bounds are clipped, never an error.\<close>

definition py_slice :: "nat \<Rightarrow> nat \<Rightarrow> 'a list \<Rightarrow> 'a list" where
  "py_slice a b xs = take (b - a) (drop a xs)"

lemma length_py_slice [wire_simps]: "length (py_slice a b xs) = min (b - a) (length xs - a)"
  by (simp add: py_slice_def)

lemma py_slice_append_left:
  "b \<le> length xs \<Longrightarrow> py_slice a b (xs @ ys) = py_slice a b xs"
  by (auto simp: py_slice_def)

lemma py_slice_append_right:
  "length xs \<le> a \<Longrightarrow> py_slice a b (xs @ ys) = py_slice (a - length xs) (b - length xs) ys"
  by (simp add: py_slice_def)

lemma py_slice_Cons: "0 < a \<Longrightarrow> py_slice a b (x # xs) = py_slice (a - 1) (b - 1) xs"
  by (simp add: py_slice_def drop_Cons')

lemma py_slice_whole [simp]: "length xs \<le> b \<Longrightarrow> py_slice 0 b xs = xs"
  by (simp add: py_slice_def)

lemma py_slice_take: "b \<le> n \<Longrightarrow> py_slice a b (take n xs) = py_slice a b xs"
  by (simp add: py_slice_def drop_take min_def)

lemma py_slice_0: "py_slice 0 b xs = take b xs"
  by (simp add: py_slice_def)

lemma take_py_slice: "b \<le> c \<Longrightarrow> take b xs @ py_slice b c xs = take c xs"
  by (metis add_diff_inverse_nat not_less py_slice_def take_add)

lemma py_slice_eq_nth2: "Suc i < length xs \<Longrightarrow> py_slice i (i + 2) xs = [xs ! i, xs ! Suc i]"
  by (simp add: py_slice_def numeral_2_eq_2 Cons_nth_drop_Suc [symmetric] take_Suc_Cons)

lemma py_slice_eq_nth4:
  "i + 3 < length xs \<Longrightarrow>
    py_slice i (i + 4) xs = [xs ! i, xs ! (i + 1), xs ! (i + 2), xs ! (i + 3)]"
  by (simp add: py_slice_def numeral_eq_Suc Cons_nth_drop_Suc [symmetric])

subsection \<open>Lists\<close>

lemma append_eq_same_length:
  "length a = length b \<Longrightarrow> a @ c = b @ d \<longleftrightarrow> a = b \<and> c = d"
  by (rule append_eq_append_conv) simp

lemma foldl_inj:
  assumes "\<And>b. inj (\<lambda>s. f s b)"
  shows "inj (\<lambda>s. foldl f s bs)"
proof (induction bs)
  case Nil
  show ?case by simp
next
  case (Cons b bs)
  have "inj ((\<lambda>s. foldl f s bs) \<circ> (\<lambda>s. f s b))"
    using Cons assms by (rule inj_compose)
  then show ?case by (simp add: comp_def)
qed

lemma list_split_at2:
  "Suc i < length xs \<Longrightarrow> xs = take i xs @ [xs ! i, xs ! Suc i] @ drop (i + 2) xs"
  by (metis Cons_nth_drop_Suc Suc_lessD add_2_eq_Suc' append.simps append_take_drop_id)

lemma list_split_at:
  "i < length xs \<Longrightarrow> xs = take i xs @ [xs ! i] @ drop (Suc i) xs"
  by (simp add: Cons_nth_drop_Suc)

subsection \<open>Bytes as integers\<close>

lemma uint_byte_bounds [simp]: "0 \<le> uint (b :: byte)" "uint (b :: byte) < 256" "uint (b :: byte) \<le> 255"
  using uint_bounded [of b] by simp_all

lemma uint_byte_of_int [simp]: "uint (word_of_int x :: byte) = x mod 256"
  by (simp add: uint_word_of_int)

lemma xor_right_cancel [simp]: "a XOR c = b XOR c \<longleftrightarrow> a = (b :: 'a::len word)"
  by (auto simp: bit_eq_iff bit_xor_iff)

lemma xor_left_cancel [simp]: "c XOR a = c XOR b \<longleftrightarrow> a = (b :: 'a::len word)"
  by (auto simp: bit_eq_iff bit_xor_iff)

lemma xor_cancel_head: "(a XOR b) XOR c = (a XOR d) XOR e \<longleftrightarrow> b XOR c = d XOR (e :: 'a::len word)"
  by (auto simp: bit_eq_iff bit_xor_iff)

lemma xor_swap_sides: "a XOR b = c XOR d \<longleftrightarrow> a XOR c = b XOR (d :: 'a::len word)"
  by (auto simp: bit_eq_iff bit_xor_iff)

lemma odd_uint_iff [simp]: "odd (uint (w :: 'a::len word)) = odd w"
  by (simp flip: bit_0 add: bit_unsigned_iff)

lemma byte_of_uint_mod: "(word_of_int (x mod 256) :: byte) = word_of_int x"
  by (simp add: word_uint_eq_iff)

end
