(* ===== verification/Errors.thy ===== *)
theory Errors
  imports Usmp_Prelude
begin

text \<open>
  The exceptions of \<open>src/src/usmp/errors.py\<close> with the built-in and standard-library
  exceptions the package raises, catches or lets through, their class hierarchy, and the
  two result shapes the models use: \<open>exn + 'a\<close> for code that returns or raises, and
  \<open>'a io\<close> for coroutines, which may also be left waiting for input. Message texts are
  not modelled.
\<close>

datatype exn =
    USMPError | FrameError | CRCError | MagicError | VersionError | PayloadError
  | HandshakeError | AuthError | CryptoError | SequenceError | USMPTimeoutError
  | ConnectionClosedError | NotConnectedError
  | ValueError | TypeError | RuntimeError | NotImplementedError | AttributeError | OverflowError | KeyError
  | StructError | InvalidTag
  | EOFError | IncompleteReadError
  | OSError | ConnectionResetError | ConnectionAbortedError | TimeoutError
  | CancelledError | OtherException

text \<open>
  The classes an exception is an instance of, itself first, as far as the package's
  \<open>except\<close> clauses can tell them apart. \<open>TimeoutError\<close> is the built-in one, a
  subclass of \<open>OSError\<close>; the package's own is \<open>USMPTimeoutError\<close>.
\<close>

fun mro :: "exn \<Rightarrow> exn list" where
  "mro FrameError = [FrameError, USMPError]"
| "mro CRCError = [CRCError, FrameError, USMPError]"
| "mro MagicError = [MagicError, FrameError, USMPError]"
| "mro VersionError = [VersionError, FrameError, USMPError]"
| "mro PayloadError = [PayloadError, FrameError, USMPError]"
| "mro HandshakeError = [HandshakeError, USMPError]"
| "mro AuthError = [AuthError, HandshakeError, USMPError]"
| "mro CryptoError = [CryptoError, USMPError]"
| "mro SequenceError = [SequenceError, USMPError]"
| "mro USMPTimeoutError = [USMPTimeoutError, USMPError]"
| "mro ConnectionClosedError = [ConnectionClosedError, USMPError]"
| "mro NotConnectedError = [NotConnectedError, USMPError, RuntimeError]"
| "mro NotImplementedError = [NotImplementedError, RuntimeError]"
| "mro IncompleteReadError = [IncompleteReadError, EOFError]"
| "mro ConnectionResetError = [ConnectionResetError, OSError]"
| "mro ConnectionAbortedError = [ConnectionAbortedError, OSError]"
| "mro TimeoutError = [TimeoutError, OSError]"
| "mro e = [e]"

definition catches :: "exn list \<Rightarrow> exn \<Rightarrow> bool" where
  "catches classes e \<longleftrightarrow> list_ex (\<lambda>c. List.member classes c) (mro e)"

datatype usmp_error_code =
    OK | INVALID_ARG | TRANSPORT_FAILED | AUTH_FAILED | TIMEOUT | REPLAY_DETECTED
  | BUFFER_OVERFLOW | SEQ_EXHAUSTED | CRYPTO_FAILED | NOT_CONNECTED

text \<open>The class attribute \<open>code\<close>; \<open>None\<close> for an exception that is not the package's.\<close>

fun exn_code :: "exn \<Rightarrow> usmp_error_code option" where
  "exn_code USMPError = Some INVALID_ARG"
| "exn_code FrameError = Some INVALID_ARG"
| "exn_code CRCError = Some TRANSPORT_FAILED"
| "exn_code MagicError = Some INVALID_ARG"
| "exn_code VersionError = Some INVALID_ARG"
| "exn_code PayloadError = Some BUFFER_OVERFLOW"
| "exn_code HandshakeError = Some AUTH_FAILED"
| "exn_code AuthError = Some AUTH_FAILED"
| "exn_code CryptoError = Some CRYPTO_FAILED"
| "exn_code SequenceError = Some REPLAY_DETECTED"
| "exn_code USMPTimeoutError = Some TIMEOUT"
| "exn_code ConnectionClosedError = Some TRANSPORT_FAILED"
| "exn_code NotConnectedError = Some NOT_CONNECTED"
| "exn_code _ = None"

subsection \<open>Returning or raising\<close>

type_synonym 'a result = "exn + 'a"

fun bind_result :: "'a result \<Rightarrow> ('a \<Rightarrow> 'b result) \<Rightarrow> 'b result" where
  "bind_result (Inl e) f = Inl e"
| "bind_result (Inr a) f = f a"

lemma bind_result_eq_Inr [io_simps]:
  "bind_result m f = Inr b \<longleftrightarrow> (\<exists>a. m = Inr a \<and> f a = Inr b)"
  by (cases m) auto

lemma bind_result_eq_Inl [io_simps]:
  "bind_result m f = Inl e \<longleftrightarrow> m = Inl e \<or> (\<exists>a. m = Inr a \<and> f a = Inl e)"
  by (cases m) auto

text \<open>\<open>except Exception as x: raise e from x\<close>.\<close>

lemma case_reraise [io_simps]:
  "(case r of Inl x \<Rightarrow> Inl e | Inr a \<Rightarrow> Inr a) = Inr b \<longleftrightarrow> r = Inr b"
  "(case r of Inl x \<Rightarrow> Inl e | Inr a \<Rightarrow> Inr a) = Inl e' \<longleftrightarrow> (\<exists>x. r = Inl x) \<and> e' = e"
  by (auto split: sum.splits)

lemma bind_result_cong [fundef_cong]:
  "m = m' \<Longrightarrow> (\<And>a. m' = Inr a \<Longrightarrow> f a = g a) \<Longrightarrow> bind_result m f = bind_result m' g"
  by (cases m') auto

subsection \<open>Coroutines\<close>

text \<open>
  A coroutine run on a state \<open>'s\<close> returns, raises, or is left suspended at an \<open>await\<close>
  because the input it needs has not arrived (\<open>Waiting\<close>). The state it leaves is
  returned in every case: nothing is rolled back.
\<close>

datatype 'a io = Done 'a | Raise exn | Waiting

type_synonym ('s, 'a) coro = "'s \<Rightarrow> 'a io \<times> 's"

definition coro_return :: "'a \<Rightarrow> ('s, 'a) coro" where
  "coro_return a s = (Done a, s)"

definition coro_raise :: "exn \<Rightarrow> ('s, 'a) coro" where
  "coro_raise e s = (Raise e, s)"

definition coro_bind :: "('s, 'a) coro \<Rightarrow> ('a \<Rightarrow> ('s, 'b) coro) \<Rightarrow> ('s, 'b) coro" where
  "coro_bind m f s =
     (case m s of
        (Done a, s') \<Rightarrow> f a s'
      | (Raise e, s') \<Rightarrow> (Raise e, s')
      | (Waiting, s') \<Rightarrow> (Waiting, s'))"

text \<open>\<open>try: m except classes as e: h e\<close>.\<close>

definition coro_catch :: "('s, 'a) coro \<Rightarrow> exn list \<Rightarrow> (exn \<Rightarrow> ('s, 'a) coro) \<Rightarrow> ('s, 'a) coro" where
  "coro_catch m classes h s =
     (case m s of
        (Raise e, s') \<Rightarrow> (if catches classes e then h e s' else (Raise e, s'))
      | r \<Rightarrow> r)"

definition coro_lift :: "'a result \<Rightarrow> ('s, 'a) coro" where
  "coro_lift r s = (case r of Inl e \<Rightarrow> (Raise e, s) | Inr a \<Rightarrow> (Done a, s))"

lemma coro_bind_eq_Done [io_simps]:
  "coro_bind m f s = (Done b, t) \<longleftrightarrow> (\<exists>a s'. m s = (Done a, s') \<and> f a s' = (Done b, t))"
  by (auto simp: coro_bind_def split: io.splits prod.splits)

lemma coro_lift_eq_Done [io_simps]:
  "coro_lift r s = (Done a, t) \<longleftrightarrow> r = Inr a \<and> t = s"
  by (auto simp: coro_lift_def split: sum.splits)

lemma coro_return_eq [io_simps]: "coro_return a s = (Done b, t) \<longleftrightarrow> a = b \<and> t = s"
  by (auto simp: coro_return_def)

lemma coro_raise_not_Done [io_simps]: "coro_raise e s \<noteq> (Done b, t)"
  by (simp add: coro_raise_def)

text \<open>A coroutine that never changes what \<open>f\<close> reads of the state.\<close>

definition coro_keeps :: "('s \<Rightarrow> 'x) \<Rightarrow> ('s, 'a) coro \<Rightarrow> bool" where
  "coro_keeps f m \<longleftrightarrow> (\<forall>s. f (snd (m s)) = f s)"

named_theorems keeps_intros \<open>coroutine combinators keep what their parts keep\<close>

lemma keeps_bind [keeps_intros]: "coro_keeps f m \<Longrightarrow> (\<And>a. coro_keeps f (g a)) \<Longrightarrow> coro_keeps f (coro_bind m g)"
  by (auto simp: coro_keeps_def coro_bind_def split: io.splits prod.splits) (metis snd_conv)+

lemma keeps_catch [keeps_intros]: "coro_keeps f m \<Longrightarrow> (\<And>e. coro_keeps f (h e)) \<Longrightarrow> coro_keeps f (coro_catch m cs h)"
  by (auto simp: coro_keeps_def coro_catch_def split: io.splits prod.splits) (metis snd_conv)+

lemma keeps_basic [keeps_intros]:
  "coro_keeps f (coro_return a)" "coro_keeps f (coro_raise e)" "coro_keeps f (coro_lift r)"
  by (auto simp: coro_keeps_def coro_return_def coro_raise_def coro_lift_def split: sum.splits)

lemma keeps_if [keeps_intros]: "coro_keeps f m \<Longrightarrow> coro_keeps f n \<Longrightarrow> coro_keeps f (if b then m else n)"
  by simp

lemma coro_keepsD: "coro_keeps f m \<Longrightarrow> m s = (r, s') \<Longrightarrow> f s' = f s"
  by (metis coro_keeps_def snd_conv)

subsection \<open>The hierarchy\<close>

text \<open>Every package exception has a code, and only package exceptions have one.\<close>

lemma exn_code_iff_usmp: "exn_code e \<noteq> None \<longleftrightarrow> catches [USMPError] e"
  by (cases e) (simp_all add: catches_def)

lemma catches_simps [simp]:
  "catches (c # cs) e \<longleftrightarrow> c \<in> set (mro e) \<or> catches cs e" "\<not> catches [] e"
  by (auto simp: catches_def list_ex_iff)

end
