(* ===== verification/Types.thy ===== *)
theory Types
  imports Errors
begin

text \<open>
  \<open>src/src/usmp/types.py\<close>: packet types and their wire values, protocol constants,
  frames, cipher suites and the per-session record with its validating constructor.
\<close>

datatype packet_type =
    HELLO | CHALLENGE | HELLO_ACK | SESSION_OK | DATA | PING | PONG | BYE | DATA_FRAG
  | HELLO_RETRY | REKEY | ERROR

text \<open>\<open>int(type_)\<close> of the \<open>IntEnum\<close>.\<close>

fun packet_type_value :: "packet_type \<Rightarrow> int" where
  "packet_type_value HELLO = 0x01"
| "packet_type_value CHALLENGE = 0x02"
| "packet_type_value HELLO_ACK = 0x03"
| "packet_type_value SESSION_OK = 0x04"
| "packet_type_value DATA = 0x05"
| "packet_type_value PING = 0x06"
| "packet_type_value PONG = 0x07"
| "packet_type_value BYE = 0x08"
| "packet_type_value DATA_FRAG = 0x09"
| "packet_type_value HELLO_RETRY = 0x0A"
| "packet_type_value REKEY = 0x0B"
| "packet_type_value ERROR = 0xFF"

definition all_packet_types :: "packet_type list" where
  "all_packet_types =
     [HELLO, CHALLENGE, HELLO_ACK, SESSION_OK, DATA, PING, PONG, BYE, DATA_FRAG,
      HELLO_RETRY, REKEY, ERROR]"

text \<open>\<open>PacketType(value)\<close>: \<open>ValueError\<close> when no member has the value.\<close>

definition PacketType :: "int \<Rightarrow> packet_type result" where
  "PacketType v =
     (case find (\<lambda>t. packet_type_value t = v) all_packet_types of
        None \<Rightarrow> Inl ValueError
      | Some t \<Rightarrow> Inr t)"

definition USMP_MAGIC :: int where "USMP_MAGIC = 0xABCD"
definition USMP_VERSION :: int where "USMP_VERSION = 0x02"
definition USMP_HEADER_SIZE :: nat where "USMP_HEADER_SIZE = 12"
definition USMP_MAX_PAYLOAD :: nat where "USMP_MAX_PAYLOAD = 480"
definition USMP_MAX_FRAMES :: nat where "USMP_MAX_FRAMES = 4"
definition USMP_TAG_LEN :: nat where "USMP_TAG_LEN = 16"
definition USMP_NONCE_LEN :: nat where "USMP_NONCE_LEN = 32"
definition USMP_DEVICE_ID_LEN :: nat where "USMP_DEVICE_ID_LEN = 6"
definition USMP_PUB_KEY_LEN :: nat where "USMP_PUB_KEY_LEN = 32"
definition USMP_HMAC_LEN :: nat where "USMP_HMAC_LEN = 32"
definition USMP_SESSION_ID_LEN :: nat where "USMP_SESSION_ID_LEN = 16"
definition USMP_SESSION_KEY_LEN :: nat where "USMP_SESSION_KEY_LEN = 32"
definition USMP_GCM_NONCE_LEN :: nat where "USMP_GCM_NONCE_LEN = 12"
definition USMP_MAX_DATA_LEN :: nat where
  "USMP_MAX_DATA_LEN = USMP_MAX_PAYLOAD - USMP_TAG_LEN - USMP_GCM_NONCE_LEN"

lemmas usmp_consts =
  USMP_MAGIC_def USMP_VERSION_def USMP_HEADER_SIZE_def USMP_MAX_PAYLOAD_def USMP_MAX_FRAMES_def
  USMP_TAG_LEN_def USMP_NONCE_LEN_def USMP_DEVICE_ID_LEN_def USMP_PUB_KEY_LEN_def
  USMP_HMAC_LEN_def USMP_SESSION_ID_LEN_def USMP_SESSION_KEY_LEN_def USMP_GCM_NONCE_LEN_def
  USMP_MAX_DATA_LEN_def

record usmp_frame =
  f_magic :: int
  f_version :: int
  f_type :: packet_type
  f_seq :: int
  f_length :: int
  f_crc :: int
  f_payload :: bytes

datatype cipher_suite = AES256_GCM | CHACHA20_POLY1305

record session_info =
  device_id :: bytes
  session_id :: bytes
  tx_key :: bytes
  rx_key :: bytes
  tx_seq :: int
  rx_seq :: int
  rx_window_bitmap :: int
  cipher_suite :: cipher_suite

text \<open>The dataclass constructor with its defaults and \<open>__post_init__\<close>.\<close>

definition SessionInfo :: "bytes \<Rightarrow> bytes \<Rightarrow> bytes \<Rightarrow> bytes \<Rightarrow> session_info result" where
  "SessionInfo dev sid txk rxk =
     (if length dev \<noteq> USMP_DEVICE_ID_LEN then Inl ValueError
      else if length sid \<noteq> USMP_SESSION_ID_LEN then Inl ValueError
      else if length txk \<noteq> USMP_SESSION_KEY_LEN then Inl ValueError
      else if length rxk \<noteq> USMP_SESSION_KEY_LEN then Inl ValueError
      else Inr \<lparr>device_id = dev, session_id = sid, tx_key = txk, rx_key = rxk,
                tx_seq = 0, rx_seq = 0, rx_window_bitmap = 0, cipher_suite = AES256_GCM\<rparr>)"

subsection \<open>Wire values of packet types\<close>

lemma packet_type_value_range: "0 < packet_type_value t" "packet_type_value t < 256"
  by (cases t; simp)+

lemma packet_type_value_inj [simp]: "packet_type_value s = packet_type_value t \<longleftrightarrow> s = t"
  by (cases s; cases t) simp_all

lemma PacketType_value [simp]: "PacketType (packet_type_value t) = Inr t"
  by (cases t) (simp_all add: PacketType_def all_packet_types_def)

lemma PacketType_InrD: "PacketType v = Inr t \<Longrightarrow> v = packet_type_value t"
  by (auto simp: PacketType_def find_Some_iff split: option.splits)

lemma PacketType_Inl: "PacketType v = Inl e \<Longrightarrow> e = ValueError"
  by (auto simp: PacketType_def split: option.splits)

lemma SessionInfo_Inr:
  "SessionInfo dev sid txk rxk = Inr i \<longleftrightarrow>
     length dev = 6 \<and> length sid = 16 \<and> length txk = 32 \<and> length rxk = 32 \<and>
     i = \<lparr>device_id = dev, session_id = sid, tx_key = txk, rx_key = rxk,
          tx_seq = 0, rx_seq = 0, rx_window_bitmap = 0, cipher_suite = AES256_GCM\<rparr>"
  by (auto simp: SessionInfo_def usmp_consts)

end
