(* ===== verification/Struct_Pack.thy ===== *)
theory Struct_Pack
  imports Types
begin

text \<open>
  The part of Python's \<open>struct\<close> the package uses: the little-endian formats \<open><B\<close>,
  \<open><H\<close> and \<open><I\<close>, with \<open>struct.error\<close> for a value out of range or a buffer too short,
  and \<open>bytes([..])\<close>. The locale \<open>le_codec\<close> states what the frame and cryptography layers
  rely on of a fixed-width field; the three formats interpret it.
\<close>

fun le_bytes :: "nat \<Rightarrow> int \<Rightarrow> bytes" where
  "le_bytes 0 x = []"
| "le_bytes (Suc n) x = word_of_int x # le_bytes n (x div 256)"

fun le_value :: "bytes \<Rightarrow> int" where
  "le_value [] = 0"
| "le_value (b # bs) = uint b + 256 * le_value bs"

definition pack_le :: "nat \<Rightarrow> int \<Rightarrow> bytes result" where
  "pack_le w x = (if 0 \<le> x \<and> x < 256 ^ w then Inr (le_bytes w x) else Inl StructError)"

definition unpack_le :: "nat \<Rightarrow> bytes \<Rightarrow> nat \<Rightarrow> int result" where
  "unpack_le w data off =
     (if off + w \<le> length data then Inr (le_value (py_slice off (off + w) data))
      else Inl StructError)"

definition pack_B :: "int \<Rightarrow> bytes result" where "pack_B = pack_le 1"
definition pack_H :: "int \<Rightarrow> bytes result" where "pack_H = pack_le 2"
definition pack_I :: "int \<Rightarrow> bytes result" where "pack_I = pack_le 4"
definition unpack_B :: "bytes \<Rightarrow> nat \<Rightarrow> int result" where "unpack_B = unpack_le 1"
definition unpack_H :: "bytes \<Rightarrow> nat \<Rightarrow> int result" where "unpack_H = unpack_le 2"
definition unpack_I :: "bytes \<Rightarrow> nat \<Rightarrow> int result" where "unpack_I = unpack_le 4"

text \<open>\<open>bytes([x, ...])\<close>: \<open>ValueError\<close> unless every item is in \<open>range(256)\<close>.\<close>

definition bytes_of :: "int list \<Rightarrow> bytes result" where
  "bytes_of xs =
     (if list_all (\<lambda>x. 0 \<le> x \<and> x < 256) xs then Inr (map word_of_int xs) else Inl ValueError)"

subsection \<open>Little-endian digits\<close>

lemma length_le_bytes [wire_simps, simp]: "length (le_bytes w x) = w"
  by (induction w arbitrary: x) auto

lemma le_value_bounds: "0 \<le> le_value bs" "le_value bs < 256 ^ length bs"
proof -
  have "0 \<le> le_value bs \<and> le_value bs + 1 \<le> 256 ^ length bs"
  proof (induction bs)
    case Nil
    show ?case by simp
  next
    case (Cons b bs)
    have "0 \<le> uint b" and "uint b < 256" by simp_all
    then have "uint b + 256 * le_value bs + 1 \<le> 256 * (le_value bs + 1)" by simp
    also have "\<dots> \<le> 256 * 256 ^ length bs" using Cons by simp
    finally show ?case using Cons by simp
  qed
  then show "0 \<le> le_value bs" "le_value bs < 256 ^ length bs" by simp_all
qed

lemma le_value_le_bytes: "0 \<le> x \<Longrightarrow> x < 256 ^ w \<Longrightarrow> le_value (le_bytes w x) = x"
proof (induction w arbitrary: x)
  case 0
  then show ?case by simp
next
  case (Suc w)
  have "x div 256 < 256 ^ w" using Suc.prems by (simp add: div_less_iff_less_mult mult.commute)
  with Suc show ?case by (simp add: pos_imp_zdiv_nonneg_iff)
qed

lemma le_bytes_le_value: "le_bytes (length bs) (le_value bs) = bs"
proof (induction bs)
  case Nil
  show ?case by simp
next
  case (Cons b bs)
  have "(uint b + 256 * le_value bs) div 256 = le_value bs" by (simp add: div_add1_eq)
  moreover have "uint (word_of_int (uint b + 256 * le_value bs) :: byte) = uint b"
    by (simp only: uint_byte_of_int) simp
  ultimately show ?case using Cons by (simp add: word_uint_eq_iff)
qed

lemma le_bytes_inj:
  "0 \<le> x \<Longrightarrow> x < 256 ^ w \<Longrightarrow> 0 \<le> y \<Longrightarrow> y < 256 ^ w \<Longrightarrow>
    le_bytes w x = le_bytes w y \<longleftrightarrow> x = y"
  by (metis le_value_le_bytes)

lemma le_value_inj: "length a = length b \<Longrightarrow> le_value a = le_value b \<longleftrightarrow> a = b"
  by (metis le_bytes_le_value)

lemma pack_le_Inr: "pack_le w x = Inr bs \<longleftrightarrow> 0 \<le> x \<and> x < 256 ^ w \<and> bs = le_bytes w x"
  by (auto simp: pack_le_def)

lemma pack_le_Inl: "pack_le w x = Inl e \<longleftrightarrow> \<not> (0 \<le> x \<and> x < 256 ^ w) \<and> e = StructError"
  by (auto simp: pack_le_def)

subsection \<open>The contract of a fixed-width field\<close>

locale le_codec =
  fixes width :: nat
    and pack :: "int \<Rightarrow> bytes result"
    and unpack :: "bytes \<Rightarrow> nat \<Rightarrow> int result"
  assumes pack_ok: "pack x = Inr bs \<longleftrightarrow> 0 \<le> x \<and> x < 256 ^ width \<and> bs = le_bytes width x"
    and pack_err: "pack x = Inl e \<longleftrightarrow> \<not> (0 \<le> x \<and> x < 256 ^ width) \<and> e = StructError"
    and unpack_ok: "off + width \<le> length data \<Longrightarrow>
          unpack data off = Inr (le_value (py_slice off (off + width) data))"
    and unpack_err: "length data < off + width \<Longrightarrow> unpack data off = Inl StructError"
begin

lemma pack_length: "pack x = Inr bs \<Longrightarrow> length bs = width"
  by (simp add: pack_ok)

lemma pack_in_range: "0 \<le> x \<Longrightarrow> x < 256 ^ width \<Longrightarrow> pack x = Inr (le_bytes width x)"
  by (simp add: pack_ok)

lemma unpack_pack: "pack x = Inr bs \<Longrightarrow> unpack (pre @ bs @ post) (length pre) = Inr x"
  by (auto simp: pack_ok unpack_ok py_slice_append_right py_slice_append_left
      le_value_le_bytes)

lemma unpack_range: "unpack data off = Inr x \<Longrightarrow> 0 \<le> x \<and> x < 256 ^ width"
proof -
  assume u: "unpack data off = Inr x"
  then have "off + width \<le> length data" using unpack_err by (cases "length data < off + width") auto
  then show ?thesis
    using u le_value_bounds [of "py_slice off (off + width) data"]
    by (simp add: unpack_ok length_py_slice)
qed

lemma pack_unpack:
  "unpack data off = Inr x \<Longrightarrow> pack x = Inr (py_slice off (off + width) data)"
proof -
  assume u: "unpack data off = Inr x"
  then have len: "off + width \<le> length data" using unpack_err by (cases "length data < off + width") auto
  then have "x = le_value (py_slice off (off + width) data)" using u by (simp add: unpack_ok)
  moreover have "length (py_slice off (off + width) data) = width" using len by (simp add: length_py_slice)
  ultimately show ?thesis using unpack_range [OF u] by (metis pack_in_range le_bytes_le_value)
qed

lemma pack_injective: "pack x = Inr bs \<Longrightarrow> pack y = Inr bs \<Longrightarrow> x = y"
  by (metis le_value_le_bytes pack_ok)

end

interpretation B: le_codec 1 pack_B unpack_B
  by unfold_locales (auto simp: pack_B_def unpack_B_def pack_le_def unpack_le_def)

interpretation H: le_codec 2 pack_H unpack_H
  by unfold_locales (auto simp: pack_H_def unpack_H_def pack_le_def unpack_le_def)

interpretation I: le_codec 4 pack_I unpack_I
  by unfold_locales (auto simp: pack_I_def unpack_I_def pack_le_def unpack_le_def)

end
