(* ===== verification/Crc.thy ===== *)
theory Crc
  imports Struct_Pack
begin

text \<open>
  \<open>crc16\<close> of \<open>src/src/usmp/_frame.py\<close> on Python integers, its equivalence with a 16-bit
  shift register, and what the checksum detects. The register is a bijection of its state
  for every input byte, so a change confined to one byte, or to two adjacent bytes, of a
  message always changes the checksum.
\<close>

definition crc16_shift :: "int \<Rightarrow> int" where
  "crc16_shift crc =
     (if crc AND 1 \<noteq> 0 then drop_bit 1 crc XOR 0xA001 else drop_bit 1 crc)"

definition crc16_byte :: "int \<Rightarrow> byte \<Rightarrow> int" where
  "crc16_byte crc b = (crc16_shift ^^ 8) (crc XOR uint b)"

definition crc16 :: "bytes \<Rightarrow> int" where
  "crc16 data = foldl crc16_byte 0xFFFF data"

subsection \<open>The 16-bit register\<close>

type_synonym reg = "16 word"

definition reg_shift :: "reg \<Rightarrow> reg" where
  "reg_shift w = (if odd w then drop_bit 1 w XOR 0xA001 else drop_bit 1 w)"

definition reg_byte :: "reg \<Rightarrow> byte \<Rightarrow> reg" where
  "reg_byte w b = (reg_shift ^^ 8) (w XOR ucast b)"

definition reg_crc :: "bytes \<Rightarrow> reg" where
  "reg_crc data = foldl reg_byte 0xFFFF data"

lemma crc16_shift_reg: "crc16_shift (uint w) = uint (reg_shift w)"
proof -
  have "(uint w AND 1 \<noteq> 0) = odd (uint w)" by (auto simp: and_one_eq odd_iff_mod_2_eq_one)
  then have "(uint w AND 1 \<noteq> 0) = odd w" by (simp only: odd_uint_iff)
  then show ?thesis
    by (simp add: crc16_shift_def reg_shift_def unsigned_xor_eq unsigned_drop_bit_eq
        take_bit_int_eq_self uint_bounded [where ?'a = 16, simplified])
qed

lemma crc16_shifts_reg: "(crc16_shift ^^ n) (uint w) = uint ((reg_shift ^^ n) w)"
  by (induction n) (simp_all add: crc16_shift_reg)

lemma crc16_byte_reg: "crc16_byte (uint w) b = uint (reg_byte w b)"
proof -
  have "uint w XOR uint b = uint (w XOR ucast b)"
    by (simp add: unsigned_xor_eq uint_up_ucast is_up)
  then show ?thesis by (simp add: crc16_byte_def reg_byte_def crc16_shifts_reg)
qed

lemma crc16_foldl_reg: "foldl crc16_byte (uint w) data = uint (foldl reg_byte w data)"
  by (induction data arbitrary: w) (simp_all add: crc16_byte_reg)

lemma crc16_reg: "crc16 data = uint (reg_crc data)"
  using crc16_foldl_reg [of "0xFFFF" data] by (simp add: crc16_def reg_crc_def)

lemma crc16_range [simp]: "0 \<le> crc16 data" "crc16 data < 65536"
  using uint_bounded [of "reg_crc data"] by (simp_all add: crc16_reg)

subsection \<open>The register is reversible\<close>

lemma bit_reg_shift_top: "bit (reg_shift w) 15 = odd w"
  by (auto simp: reg_shift_def bit_simps dest: bit_imp_le_length)

lemma inj_reg_shift: "inj reg_shift"
proof (rule injI)
  fix x y :: reg
  assume eq: "reg_shift x = reg_shift y"
  then have parity: "odd x = odd y" by (metis bit_reg_shift_top)
  then have "drop_bit 1 x = drop_bit 1 y"
    using eq by (auto simp: reg_shift_def split: if_splits)
  then have "x div 2 = y div 2" by (simp add: drop_bit_eq_div)
  with parity show "x = y" by (metis bit_eq_rec)
qed

lemma inj_reg_shifts: "inj (reg_shift ^^ n)"
  by (rule inj_fn [OF inj_reg_shift])

lemma reg_byte_eq_iff:
  "reg_byte w b = reg_byte w' b' \<longleftrightarrow> w XOR ucast b = w' XOR ucast b'"
  by (simp add: reg_byte_def inj_eq [OF inj_reg_shifts])

lemma inj_reg_byte: "inj (\<lambda>w. reg_byte w b)"
  by (rule injI) (simp add: reg_byte_eq_iff)

lemma inj_reg_foldl: "inj (\<lambda>w. foldl reg_byte w data)"
  by (rule foldl_inj) (rule inj_reg_byte)

lemma ucast_byte_inj [simp]: "(ucast b :: reg) = ucast b' \<longleftrightarrow> b = (b' :: byte)"
  by (simp add: word_uint_eq_iff uint_up_ucast is_up)

subsection \<open>The register is linear\<close>

lemma reg_shift_xor: "reg_shift (x XOR y) = reg_shift x XOR reg_shift y"
  by (rule bit_word_eqI) (auto simp: reg_shift_def bit_simps even_xor_iff)

lemma reg_shifts_xor: "(reg_shift ^^ n) (x XOR y) = (reg_shift ^^ n) x XOR (reg_shift ^^ n) y"
  by (induction n) (simp_all add: reg_shift_xor)

lemma reg_shift_push:
  "n < 8 \<Longrightarrow> reg_shift (push_bit (Suc n) (ucast (b :: byte))) = push_bit n (ucast b)"
  by (rule bit_word_eqI)
    (auto simp: reg_shift_def bit_simps simp del: push_bit_Suc dest: bit_imp_le_length)

lemma reg_shifts_push: "n \<le> 8 \<Longrightarrow> (reg_shift ^^ n) (push_bit n (ucast (b :: byte))) = ucast b"
  by (induction n)
    (simp_all add: funpow_Suc_right reg_shift_push del: funpow.simps(2) push_bit_Suc)

lemma reg_shifts_byte:
  assumes "(reg_shift ^^ 8) (ucast (d :: byte)) = ucast (e :: byte)"
  shows "d = 0 \<and> e = 0"
proof -
  have "(reg_shift ^^ 8) (ucast d) = (reg_shift ^^ 8) (push_bit 8 (ucast e))"
    using assms by (simp add: reg_shifts_push del: funpow.simps(2))
  then have "(ucast d :: reg) = push_bit 8 (ucast e)"
    by (rule injD [OF inj_reg_shifts])
  then have bits: "bit d n = (8 \<le> n \<and> bit e (n - 8))" if "n < 16" for n
    using that by (auto simp: bit_eq_iff bit_simps dest: bit_imp_le_length)
  have "d = 0" by (rule bit_word_eqI) (simp add: bits)
  moreover have "\<not> bit e n" if "n < 8" for n
    using bits [of "n + 8"] that by (auto dest: bit_imp_le_length)
  then have "e = 0" by (intro bit_word_eqI) simp
  ultimately show ?thesis by simp
qed

subsection \<open>Detection\<close>

lemma ucast_xor_byte: "(ucast b :: reg) XOR ucast c = ucast (b XOR c :: byte)"
  by (simp add: unsigned_xor_eq)

lemma reg_byte2_eq_iff:
  "reg_byte (reg_byte w b1) b2 = reg_byte (reg_byte w c1) c2 \<longleftrightarrow> b1 = c1 \<and> b2 = c2"
proof
  let ?L = "reg_shift ^^ 8"
  assume "reg_byte (reg_byte w b1) b2 = reg_byte (reg_byte w c1) c2"
  then have "(?L w XOR ?L (ucast b1)) XOR ucast b2 = (?L w XOR ?L (ucast c1)) XOR ucast c2"
    by (simp add: reg_byte_eq_iff) (simp add: reg_byte_def reg_shifts_xor)
  then have "?L (ucast b1) XOR ucast b2 = ?L (ucast c1) XOR ucast c2"
    by (simp only: xor_cancel_head)
  then have "?L (ucast b1) XOR ?L (ucast c1) = ucast b2 XOR ucast c2"
    by (simp only: xor_swap_sides)
  then have "?L (ucast (b1 XOR c1)) = ucast (b2 XOR c2)"
    by (simp add: reg_shifts_xor flip: ucast_xor_byte)
  then have "b1 XOR c1 = 0 \<and> b2 XOR c2 = 0" by (rule reg_shifts_byte)
  then show "b1 = c1 \<and> b2 = c2" by (metis xor_left_cancel xor_self_eq)
qed simp

text \<open>Messages that differ in at most two adjacent bytes, and do differ, have different CRCs.\<close>

lemma crc16_burst:
  "crc16 (pre @ [b1, b2] @ post) = crc16 (pre @ [c1, c2] @ post) \<longleftrightarrow> b1 = c1 \<and> b2 = c2"
  by (simp add: crc16_reg reg_crc_def inj_eq [OF inj_reg_foldl] reg_byte2_eq_iff
      flip: word_uint_eq_iff)

lemma crc16_single:
  "crc16 (pre @ [b] @ post) = crc16 (pre @ [c] @ post) \<longleftrightarrow> b = c"
  by (simp add: crc16_reg reg_crc_def inj_eq [OF inj_reg_foldl] reg_byte_eq_iff
      flip: word_uint_eq_iff)

lemma crc16_update: "i < length xs \<Longrightarrow> crc16 (xs[i := c]) = crc16 xs \<longleftrightarrow> c = xs ! i"
  using crc16_single [of "take i xs" c "drop (Suc i) xs" "xs ! i"] list_split_at [of i xs]
  by (simp add: upd_conv_take_nth_drop)

end
