(* ===== verification/Frame.thy ===== *)
theory Frame
  imports Crc
begin

text \<open>
  \<open>src/src/usmp/_frame.py\<close>: the frame codec and the stream reader and writer of frames.
  A reader is any object with \<open>readexactly\<close>, a writer any object with \<open>write\<close> and
  \<open>drain\<close>; the operations take these as arguments, as the duck-typed Python does. What
  \<open>read_frame\<close> relies on of a reader is the locale \<open>byte_reader\<close>, interpreted by the TCP
  reader and by the UDP stream in their theories.
\<close>

definition pack_HBBI :: "int \<Rightarrow> int \<Rightarrow> int \<Rightarrow> int \<Rightarrow> bytes result" where
  "pack_HBBI magic version ptype seq =
     bind_result (pack_H magic) (\<lambda>m.
     bind_result (pack_B version) (\<lambda>v.
     bind_result (pack_B ptype) (\<lambda>t.
     bind_result (pack_I seq) (\<lambda>s. Inr (m @ v @ t @ s)))))"

definition compute_frame_crc :: "int \<Rightarrow> int \<Rightarrow> int \<Rightarrow> int \<Rightarrow> int \<Rightarrow> bytes \<Rightarrow> int result" where
  "compute_frame_crc magic version ptype seq len payload =
     bind_result (pack_HBBI magic version ptype seq) (\<lambda>header.
     bind_result (pack_H len) (\<lambda>l.
     Inr (crc16 ((header @ l) @ payload))))"

definition encode_frame :: "packet_type \<Rightarrow> bytes \<Rightarrow> int \<Rightarrow> int \<Rightarrow> bytes result" where
  "encode_frame ptype payload seq version =
     (if length payload > USMP_MAX_PAYLOAD then Inl PayloadError
      else
        let len = int (length payload) in
        bind_result (compute_frame_crc USMP_MAGIC version (packet_type_value ptype) seq len payload)
          (\<lambda>crc.
        bind_result (pack_HBBI USMP_MAGIC version (packet_type_value ptype) seq) (\<lambda>header.
        bind_result (pack_H len) (\<lambda>l.
        bind_result (pack_H crc) (\<lambda>c.
        Inr ((header @ (l @ c)) @ payload))))))"

definition decode_frame :: "bytes \<Rightarrow> bool \<Rightarrow> usmp_frame result" where
  "decode_frame data verify_crc =
     (if length data < USMP_HEADER_SIZE then Inl FrameError
      else
        bind_result (unpack_H data 0) (\<lambda>magic.
        let version = uint (data ! 2); ptype = uint (data ! 3) in
        bind_result (unpack_I data 4) (\<lambda>seq.
        bind_result (unpack_H data 8) (\<lambda>len.
        bind_result (unpack_H data 10) (\<lambda>crc.
        if magic \<noteq> USMP_MAGIC then Inl MagicError
        else if version \<noteq> USMP_VERSION then Inl VersionError
        else if len > int USMP_MAX_PAYLOAD then Inl PayloadError
        else if int (length data) < int USMP_HEADER_SIZE + len then Inl PayloadError
        else
          let payload = py_slice USMP_HEADER_SIZE (USMP_HEADER_SIZE + nat len) data in
          bind_result
            (if verify_crc
             then bind_result (compute_frame_crc magic version ptype seq len payload)
                    (\<lambda>expected_crc. if crc \<noteq> expected_crc then Inl CRCError else Inr ())
             else Inr ()) (\<lambda>_.
          case PacketType ptype of
            Inl _ \<Rightarrow> Inl FrameError
          | Inr packet_type \<Rightarrow>
              Inr \<lparr>f_magic = magic, f_version = version, f_type = packet_type, f_seq = seq,
                   f_length = len, f_crc = crc, f_payload = payload\<rparr>))))))"

definition read_frame :: "(nat \<Rightarrow> ('r, bytes) coro) \<Rightarrow> bool \<Rightarrow> ('r, usmp_frame) coro" where
  "read_frame readexactly verify_crc =
     coro_bind (readexactly USMP_HEADER_SIZE) (\<lambda>header.
     coro_bind (coro_lift (unpack_H header 0)) (\<lambda>magic.
     if magic \<noteq> USMP_MAGIC then coro_raise MagicError
     else
       coro_bind (coro_lift (unpack_H header 8)) (\<lambda>len.
       if len > int USMP_MAX_PAYLOAD then coro_raise PayloadError
       else
         coro_bind (if len > 0 then readexactly (nat len) else coro_return []) (\<lambda>payload.
         coro_lift (decode_frame (header @ payload) verify_crc)))))"

definition write_frame ::
  "(bytes \<Rightarrow> ('w, unit) coro) \<Rightarrow> ('w, unit) coro \<Rightarrow> packet_type \<Rightarrow> bytes \<Rightarrow> int \<Rightarrow> ('w, unit) coro"
where
  "write_frame wr dr ptype payload seq =
     coro_bind (coro_lift (encode_frame ptype payload seq USMP_VERSION)) (\<lambda>data.
     coro_bind (wr data) (\<lambda>_. dr))"

subsection \<open>The layout of a frame\<close>

text \<open>The bytes covered by the CRC before the payload, and a whole frame, written out.\<close>

definition header10 :: "int \<Rightarrow> int \<Rightarrow> int \<Rightarrow> int \<Rightarrow> int \<Rightarrow> bytes" where
  "header10 magic version ptype seq len =
     le_bytes 2 magic @ le_bytes 1 version @ le_bytes 1 ptype @ le_bytes 4 seq @ le_bytes 2 len"

definition raw_frame :: "int \<Rightarrow> int \<Rightarrow> int \<Rightarrow> int \<Rightarrow> int \<Rightarrow> int \<Rightarrow> bytes \<Rightarrow> bytes" where
  "raw_frame magic version ptype seq len crc rest =
     header10 magic version ptype seq len @ le_bytes 2 crc @ rest"

definition frame_crc :: "int \<Rightarrow> packet_type \<Rightarrow> int \<Rightarrow> bytes \<Rightarrow> int" where
  "frame_crc version ptype seq payload =
     crc16 (header10 USMP_MAGIC version (packet_type_value ptype) seq (int (length payload)) @ payload)"

definition frame_bytes :: "int \<Rightarrow> packet_type \<Rightarrow> int \<Rightarrow> bytes \<Rightarrow> bytes" where
  "frame_bytes version ptype seq payload =
     raw_frame USMP_MAGIC version (packet_type_value ptype) seq (int (length payload))
       (frame_crc version ptype seq payload) payload"

definition mk_frame :: "packet_type \<Rightarrow> bytes \<Rightarrow> int \<Rightarrow> usmp_frame" where
  "mk_frame ptype payload seq =
     \<lparr>f_magic = USMP_MAGIC, f_version = USMP_VERSION, f_type = ptype, f_seq = seq,
      f_length = int (length payload), f_crc = frame_crc USMP_VERSION ptype seq payload,
      f_payload = payload\<rparr>"

text \<open>What every decoded frame satisfies; the session layer relies on nothing else.\<close>

definition wf_frame :: "usmp_frame \<Rightarrow> bool" where
  "wf_frame f \<longleftrightarrow>
     f_magic f = USMP_MAGIC \<and> f_version f = USMP_VERSION \<and> 0 \<le> f_seq f \<and> f_seq f < 2 ^ 32 \<and>
     f_length f = int (length (f_payload f)) \<and> length (f_payload f) \<le> USMP_MAX_PAYLOAD \<and>
     0 \<le> f_crc f \<and> f_crc f < 2 ^ 16"

lemma length_header10 [wire_simps, simp]: "length (header10 m v t s l) = 10"
  by (simp add: header10_def)

lemma length_frame_bytes [wire_simps, simp]:
  "length (frame_bytes v t s p) = USMP_HEADER_SIZE + length p"
  by (simp add: frame_bytes_def raw_frame_def usmp_consts)

lemma pack_HBBI_Inr:
  "pack_HBBI m v t s = Inr h \<longleftrightarrow>
     0 \<le> m \<and> m < 256 ^ 2 \<and> 0 \<le> v \<and> v < 256 ^ 1 \<and> 0 \<le> t \<and> t < 256 ^ 1 \<and> 0 \<le> s \<and> s < 256 ^ 4 \<and>
     h = le_bytes 2 m @ le_bytes 1 v @ le_bytes 1 t @ le_bytes 4 s"
  unfolding pack_HBBI_def by (auto simp add: io_simps B.pack_ok H.pack_ok I.pack_ok)

lemma compute_frame_crc_Inr:
  assumes "0 \<le> m" "m < 256 ^ 2" "0 \<le> v" "v < 256" "0 \<le> t" "t < 256" "0 \<le> s" "s < 2 ^ 32"
    and "0 \<le> l" "l < 256 ^ 2"
  shows "compute_frame_crc m v t s l p = Inr (crc16 (header10 m v t s l @ p))"
  using assms by (simp add: compute_frame_crc_def io_simps pack_HBBI_Inr H.pack_ok header10_def)

lemma encode_frame_Inr:
  "encode_frame t p s v = Inr data \<longleftrightarrow>
     length p \<le> USMP_MAX_PAYLOAD \<and> 0 \<le> s \<and> s < 2 ^ 32 \<and> 0 \<le> v \<and> v < 256 \<and> data = frame_bytes v t s p"
  using packet_type_value_range [of t]
  by (auto simp: encode_frame_def Let_def io_simps pack_HBBI_Inr H.pack_ok compute_frame_crc_def
      frame_bytes_def raw_frame_def frame_crc_def header10_def USMP_MAGIC_def USMP_MAX_PAYLOAD_def)

lemma encode_frame_ok:
  "length p \<le> USMP_MAX_PAYLOAD \<Longrightarrow> 0 \<le> s \<Longrightarrow> s < 2 ^ 32 \<Longrightarrow>
     encode_frame t p s USMP_VERSION = Inr (frame_bytes USMP_VERSION t s p)"
  by (simp add: encode_frame_Inr USMP_VERSION_def)

subsection \<open>Decoding, field by field\<close>

text \<open>Any twelve bytes and what follows them are a raw frame of fields in range.\<close>

definition field_ranges :: "int \<Rightarrow> int \<Rightarrow> int \<Rightarrow> int \<Rightarrow> int \<Rightarrow> int \<Rightarrow> bool" where
  "field_ranges m v t s l c \<longleftrightarrow>
     0 \<le> m \<and> m < 256 ^ 2 \<and> 0 \<le> v \<and> v < 256 \<and> 0 \<le> t \<and> t < 256 \<and> 0 \<le> s \<and> s < 2 ^ 32 \<and>
     0 \<le> l \<and> l < 256 ^ 2 \<and> 0 \<le> c \<and> c < 256 ^ 2"

lemma raw_frame_nth:
  "field_ranges m v t s l c \<Longrightarrow> uint (raw_frame m v t s l c rest ! 2) = v"
  "field_ranges m v t s l c \<Longrightarrow> uint (raw_frame m v t s l c rest ! 3) = t"
  by (simp_all add: field_ranges_def raw_frame_def header10_def nth_append)

lemma raw_frame_unpack:
  assumes "field_ranges m v t s l c"
  shows "unpack_H (raw_frame m v t s l c rest) 0 = Inr m"
    and "unpack_I (raw_frame m v t s l c rest) 4 = Inr s"
    and "unpack_H (raw_frame m v t s l c rest) 8 = Inr l"
    and "unpack_H (raw_frame m v t s l c rest) 10 = Inr c"
  using assms
  by (simp_all add: field_ranges_def raw_frame_def header10_def H.unpack_ok I.unpack_ok
      py_slice_append_right py_slice_append_left py_slice_Cons le_value_le_bytes)

lemma py_slice_raw_frame: "py_slice 12 (12 + n) (raw_frame m v t s l c rest) = take n rest"
  by (simp add: raw_frame_def header10_def py_slice_append_right py_slice_Cons py_slice_0)

lemma length_raw_frame [simp]: "length (raw_frame m v t s l c rest) = 12 + length rest"
  by (simp add: raw_frame_def)

lemma decode_raw_frame:
  assumes "field_ranges m v t s l c"
  shows "decode_frame (raw_frame m v t s l c rest) vc =
     (if m \<noteq> USMP_MAGIC then Inl MagicError
      else if v \<noteq> USMP_VERSION then Inl VersionError
      else if l > 480 \<or> length rest < nat l then Inl PayloadError
      else if vc \<and> c \<noteq> crc16 (header10 m v t s l @ take (nat l) rest) then Inl CRCError
      else case PacketType t of Inl _ \<Rightarrow> Inl FrameError
           | Inr pt \<Rightarrow> Inr \<lparr>f_magic = m, f_version = v, f_type = pt, f_seq = s, f_length = l,
                            f_crc = c, f_payload = take (nat l) rest\<rparr>)"
proof -
  have "compute_frame_crc m v t s l p = Inr (crc16 (header10 m v t s l @ p))" for p
    using assms by (intro compute_frame_crc_Inr) (simp_all add: field_ranges_def)
  then show ?thesis
    using assms
    by (auto simp: decode_frame_def Let_def raw_frame_nth raw_frame_unpack py_slice_raw_frame
        USMP_HEADER_SIZE_def USMP_MAX_PAYLOAD_def field_ranges_def)
qed

lemma raw_frame_cases:
  assumes "12 \<le> length data"
  obtains m v t s l c rest where "field_ranges m v t s l c" "data = raw_frame m v t s l c rest"
proof -
  obtain a0 a1 a2 a3 a4 a5 a6 a7 a8 a9 a10 a11 rest where data:
    "data = [a0, a1] @ [a2] @ [a3] @ [a4, a5, a6, a7] @ [a8, a9] @ [a10, a11] @ rest"
    using assms by (auto simp: numeral_eq_Suc Suc_le_length_iff)
  have field: "le_bytes (length bs) (le_value bs) = bs" for bs by (rule le_bytes_le_value)
  have "data = raw_frame (le_value [a0, a1]) (le_value [a2]) (le_value [a3])
          (le_value [a4, a5, a6, a7]) (le_value [a8, a9]) (le_value [a10, a11]) rest"
    using field [of "[a0, a1]"] field [of "[a2]"] field [of "[a3]"] field [of "[a4, a5, a6, a7]"]
      field [of "[a8, a9]"] field [of "[a10, a11]"]
    by (simp add: data raw_frame_def header10_def numeral_eq_Suc del: le_value.simps)
  moreover have "field_ranges (le_value [a0, a1]) (le_value [a2]) (le_value [a3])
          (le_value [a4, a5, a6, a7]) (le_value [a8, a9]) (le_value [a10, a11])"
    using le_value_bounds [of "[a0, a1]"] le_value_bounds [of "[a2]"] le_value_bounds [of "[a3]"]
      le_value_bounds [of "[a4, a5, a6, a7]"] le_value_bounds [of "[a8, a9]"]
      le_value_bounds [of "[a10, a11]"]
    by (simp add: field_ranges_def del: le_value.simps)
  ultimately show ?thesis by (rule that [rotated])
qed

lemma decode_short: "length data < 12 \<Longrightarrow> decode_frame data vc = Inl FrameError"
  by (simp add: decode_frame_def USMP_HEADER_SIZE_def)

lemma frame_bytes_ranges:
  "length p \<le> USMP_MAX_PAYLOAD \<Longrightarrow> 0 \<le> s \<Longrightarrow> s < 2 ^ 32 \<Longrightarrow>
     field_ranges USMP_MAGIC USMP_VERSION (packet_type_value t) s (int (length p))
       (frame_crc USMP_VERSION t s p)"
  using packet_type_value_range [of t]
  by (simp add: field_ranges_def frame_crc_def usmp_consts)

lemma decode_frame_bytes:
  assumes "length p \<le> USMP_MAX_PAYLOAD" "0 \<le> s" "s < 2 ^ 32"
  shows "decode_frame (frame_bytes USMP_VERSION t s p @ rest) vc = Inr (mk_frame t p s)"
proof -
  have "frame_bytes USMP_VERSION t s p @ rest =
      raw_frame USMP_MAGIC USMP_VERSION (packet_type_value t) s (int (length p))
        (frame_crc USMP_VERSION t s p) (p @ rest)"
    by (simp add: frame_bytes_def raw_frame_def)
  moreover note decode_raw_frame [OF frame_bytes_ranges [OF assms], of t "p @ rest" vc]
  ultimately show ?thesis
    using assms(1) by (simp add: mk_frame_def USMP_MAX_PAYLOAD_def) (simp add: frame_crc_def)
qed

lemma wf_mk_frame:
  "length p \<le> USMP_MAX_PAYLOAD \<Longrightarrow> 0 \<le> s \<Longrightarrow> s < 2 ^ 32 \<Longrightarrow> wf_frame (mk_frame t p s)"
  by (simp add: wf_frame_def mk_frame_def frame_crc_def)

lemma decode_frame_InrD:
  assumes "decode_frame data vc = Inr f"
  obtains rest where
    "field_ranges USMP_MAGIC USMP_VERSION (packet_type_value (f_type f)) (f_seq f) (f_length f) (f_crc f)"
    "data = raw_frame USMP_MAGIC USMP_VERSION (packet_type_value (f_type f)) (f_seq f) (f_length f)
              (f_crc f) rest"
    "f_magic f = USMP_MAGIC" "f_version f = USMP_VERSION" "f_length f \<le> 480"
    "nat (f_length f) \<le> length rest" "f_payload f = take (nat (f_length f)) rest"
    "vc \<longrightarrow> f_crc f = frame_crc USMP_VERSION (f_type f) (f_seq f) (f_payload f)"
proof -
  have "12 \<le> length data" using assms decode_short by (cases "length data < 12") auto
  then obtain m v t s l c rest where r: "field_ranges m v t s l c"
    and d: "data = raw_frame m v t s l c rest" by (rule raw_frame_cases)
  obtain pt where pt: "PacketType t = Inr pt"
    using assms by (auto simp: d decode_raw_frame [OF r] split: if_splits sum.splits)
  then have t: "t = packet_type_value pt" by (rule PacketType_InrD)
  have dec: "decode_frame (raw_frame m v (packet_type_value pt) s l c rest) vc = Inr f"
    using assms d t by simp
  have f: "f = \<lparr>f_magic = m, f_version = v, f_type = pt, f_seq = s, f_length = l, f_crc = c,
            f_payload = take (nat l) rest\<rparr>"
    and h: "m = USMP_MAGIC" "v = USMP_VERSION" "l \<le> 480" "nat l \<le> length rest"
      "vc \<longrightarrow> c = crc16 (header10 m v (packet_type_value pt) s l @ take (nat l) rest)"
    using dec [unfolded decode_raw_frame [OF r [unfolded t]]] by (auto split: if_splits)
  show ?thesis
    by (rule that [of rest])
      (use f h r d t in \<open>auto simp: frame_crc_def field_ranges_def\<close>)
qed

lemma decode_frame_wf: "decode_frame data vc = Inr f \<Longrightarrow> wf_frame f"
  by (erule decode_frame_InrD) (simp add: wf_frame_def field_ranges_def USMP_MAX_PAYLOAD_def)

subsection \<open>Corruption\<close>

lemma take10_raw_frame: "take 10 (raw_frame m v t s l c rest) = header10 m v t s l"
  by (simp add: raw_frame_def)

lemma drop12_raw_frame: "drop 12 (raw_frame m v t s l c rest) = rest"
  by (simp add: raw_frame_def)

lemma take_raw_frame: "take (12 + n) (raw_frame m v t s l c rest) = raw_frame m v t s l c (take n rest)"
  by (simp add: raw_frame_def)

lemma py_slice_crc_raw_frame: "py_slice 10 12 (raw_frame m v t s l c rest) = le_bytes 2 c"
  by (simp add: raw_frame_def py_slice_append_right py_slice_append_left)

lemma py_slice_len_raw_frame: "py_slice 8 10 (raw_frame m v t s l c rest) = le_bytes 2 l"
  by (simp add: raw_frame_def header10_def py_slice_append_right py_slice_append_left py_slice_Cons)

lemma take3_raw_frame: "take 3 (raw_frame m v t s l c rest) = le_bytes 2 m @ le_bytes 1 v"
  by (simp add: raw_frame_def header10_def)

text \<open>
  A datagram-sized input (header and exactly the payload it declares) whose CRC field is not
  the CRC of the other bytes is rejected with \<open>CRCError\<close>, whatever its packet type byte.
\<close>

lemma decode_crc_mismatch:
  assumes "12 \<le> length data" and "take 3 data = le_bytes 2 USMP_MAGIC @ le_bytes 1 USMP_VERSION"
    and "py_slice 8 10 data = le_bytes 2 (int (length data) - 12)" and "length data \<le> 492"
    and "le_value (py_slice 10 12 data) \<noteq> crc16 (take 10 data @ drop 12 data)"
  shows "decode_frame data True = Inl CRCError"
proof -
  obtain m v t s l c rest where r: "field_ranges m v t s l c"
    and d: "data = raw_frame m v t s l c rest" using assms(1) by (rule raw_frame_cases)
  have "le_bytes 2 m = le_bytes 2 USMP_MAGIC" "le_bytes 1 v = le_bytes 1 USMP_VERSION"
    using assms(2) by (simp_all add: d take3_raw_frame append_eq_same_length)
  then have "m = USMP_MAGIC" "v = USMP_VERSION"
    using r by (simp_all add: le_bytes_inj field_ranges_def USMP_MAGIC_def USMP_VERSION_def
        del: le_bytes.simps One_nat_def)
  moreover have "l = int (length rest)"
    using assms(3,4) r by (simp add: d py_slice_len_raw_frame le_bytes_inj field_ranges_def)
  moreover have "c \<noteq> crc16 (header10 m v t s l @ rest)"
    using assms(5) r
    by (simp add: d take10_raw_frame drop12_raw_frame py_slice_crc_raw_frame le_value_le_bytes
        field_ranges_def)
  ultimately show ?thesis
    using assms(4) decode_raw_frame [OF r, of rest True] by (simp add: d)
qed

lemma frame_bytes_intact:
  assumes "length p \<le> USMP_MAX_PAYLOAD" "data = frame_bytes USMP_VERSION t s p"
  shows "take 3 data = le_bytes 2 USMP_MAGIC @ le_bytes 1 USMP_VERSION"
    and "py_slice 8 10 data = le_bytes 2 (int (length data) - 12)"
    and "le_value (py_slice 10 12 data) = crc16 (take 10 data @ drop 12 data)"
    and "12 \<le> length data" "length data \<le> 492"
  using assms
  by (simp_all add: frame_bytes_def take3_raw_frame py_slice_len_raw_frame py_slice_crc_raw_frame
      take10_raw_frame drop12_raw_frame le_value_le_bytes frame_crc_def USMP_MAX_PAYLOAD_def)

lemma decode_bad_magic:
  assumes "12 \<le> length data" and "take 2 data \<noteq> le_bytes 2 USMP_MAGIC"
  shows "decode_frame data vc = Inl MagicError"
proof -
  obtain m v t s l c rest where r: "field_ranges m v t s l c"
    and d: "data = raw_frame m v t s l c rest" using assms(1) by (rule raw_frame_cases)
  have "m \<noteq> USMP_MAGIC" using assms(2) by (auto simp: d raw_frame_def header10_def)
  then show ?thesis by (simp add: d decode_raw_frame [OF r])
qed

lemma decode_bad_version:
  assumes "12 \<le> length data" and "take 2 data = le_bytes 2 USMP_MAGIC"
    and "data ! 2 \<noteq> word_of_int USMP_VERSION"
  shows "decode_frame data vc = Inl VersionError"
proof -
  obtain m v t s l c rest where r: "field_ranges m v t s l c"
    and d: "data = raw_frame m v t s l c rest" using assms(1) by (rule raw_frame_cases)
  have "le_bytes 2 m = le_bytes 2 USMP_MAGIC" using assms(2) by (simp add: d raw_frame_def header10_def)
  then have "m = USMP_MAGIC" using r by (simp add: le_bytes_inj field_ranges_def USMP_MAGIC_def)
  moreover have "v \<noteq> USMP_VERSION"
    using assms(3) by (auto simp: d raw_frame_def header10_def nth_append)
  ultimately show ?thesis using decode_raw_frame [OF r, of rest vc] by (simp add: d)
qed

lemma decode_corrupted_crc_region:
  assumes p: "length p \<le> USMP_MAX_PAYLOAD" and data: "data = frame_bytes USMP_VERSION t s p"
    and len: "length data' = length data"
    and same: "take 3 data' = take 3 data" "py_slice 8 10 data' = py_slice 8 10 data"
    and diff: "le_value (py_slice 10 12 data') \<noteq> crc16 (take 10 data' @ drop 12 data')"
  shows "decode_frame data' True = Inl CRCError"
  using frame_bytes_intact [OF p data] len same diff by (intro decode_crc_mismatch) simp_all

lemma py_slice_update_other:
  "i < a \<or> b \<le> i \<Longrightarrow> py_slice a b (xs[i := x]) = py_slice a b xs"
  by (metis drop_take drop_update_cancel py_slice_def take_update_cancel)

text \<open>The bytes the CRC covers are all but the CRC field.\<close>

lemma crc_region_diff:
  assumes len: "12 \<le> length data" "i < length data" and i: "i < 10 \<or> 12 \<le> i" and b: "b \<noteq> data ! i"
  shows "crc16 (take 10 (data[i := b]) @ drop 12 (data[i := b])) \<noteq> crc16 (take 10 data @ drop 12 data)"
  using i
proof
  assume "i < 10"
  then show ?thesis
    using len b crc16_update [of i "take 10 data @ drop 12 data" b]
    by (simp add: list_update_append take_update_swap drop_update_cancel nth_append)
next
  assume "12 \<le> i"
  then obtain k where "i = 12 + k" using le_Suc_ex by blast
  then show ?thesis
    using len b crc16_update [of "10 + k" "take 10 data @ drop 12 data" b]
    by (simp add: list_update_append take_update_cancel drop_update_swap nth_append)
qed

subsection \<open>Reading frames from a byte stream\<close>

text \<open>
  What \<open>read_frame\<close> relies on of a reader: \<open>buf\<close> is what has arrived and is not yet
  consumed, \<open>advance n\<close> consumes \<open>n\<close> bytes. With enough bytes \<open>readexactly\<close> returns
  them; with fewer it waits, leaving them in place, or reports the end of the stream.
\<close>

locale byte_reader =
  fixes readexactly :: "nat \<Rightarrow> ('r, bytes) coro"
    and buf :: "'r \<Rightarrow> bytes"
    and advance :: "nat \<Rightarrow> 'r \<Rightarrow> 'r"
  assumes read_enough: "n \<le> length (buf r) \<Longrightarrow> readexactly n r = (Done (take n (buf r)), advance n r)"
    and read_short: "length (buf r) < n \<Longrightarrow>
          readexactly n r = (Waiting, r) \<or> (\<exists>r'. readexactly n r = (Raise IncompleteReadError, r'))"
    and buf_advance: "n \<le> length (buf r) \<Longrightarrow> buf (advance n r) = drop n (buf r)"
    and advance_advance: "m + n \<le> length (buf r) \<Longrightarrow> advance n (advance m r) = advance (m + n) r"
begin

lemma read_frame_complete:
  assumes r: "field_ranges m v t s l c" and b: "buf r = raw_frame m v t s l c rest"
    and m: "m = USMP_MAGIC" and l: "l \<le> 480" "nat l \<le> length rest"
  shows "read_frame readexactly vc r =
    (case decode_frame (raw_frame m v t s l c (take (nat l) rest)) vc of Inl e \<Rightarrow> Raise e | Inr f \<Rightarrow> Done f,
     advance (12 + nat l) r)"
proof -
  let ?h = "raw_frame m v t s l c []"
  have h: "readexactly 12 r = (Done ?h, advance 12 r)"
    using b by (simp add: read_enough) (simp add: raw_frame_def)
  have "buf (advance 12 r) = rest" using b by (simp add: buf_advance drop12_raw_frame)
  then have p: "readexactly (nat l) (advance 12 r) = (Done (take (nat l) rest), advance (12 + nat l) r)"
    using l b by (simp add: read_enough advance_advance)
  have whole: "?h @ take (nat l) rest = raw_frame m v t s l c (take (nat l) rest)"
    by (simp add: raw_frame_def)
  show ?thesis
    using m l r raw_frame_unpack [OF r, of "[]"] whole
    by (auto simp: read_frame_def coro_bind_def coro_lift_def coro_return_def usmp_consts h p
        field_ranges_def split: sum.splits)
qed

text \<open>A frame at the head of the stream is read whole, and exactly its bytes are consumed.\<close>

lemma read_frame_frame:
  assumes p: "length p \<le> USMP_MAX_PAYLOAD" "0 \<le> s" "s < 2 ^ 32"
    and b: "buf r = frame_bytes USMP_VERSION t s p @ rest"
  shows "read_frame readexactly vc r = (Done (mk_frame t p s), advance (12 + length p) r)"
proof -
  let ?raw = "raw_frame USMP_MAGIC USMP_VERSION (packet_type_value t) s (int (length p))
    (frame_crc USMP_VERSION t s p)"
  have "buf r = ?raw (p @ rest)" using b by (simp add: frame_bytes_def raw_frame_def)
  moreover have "?raw p = frame_bytes USMP_VERSION t s p" by (simp add: frame_bytes_def)
  then have "decode_frame (?raw p) vc = Inr (mk_frame t p s)"
    using decode_frame_bytes [OF p, of t "[]" vc] by simp
  ultimately show ?thesis
    using read_frame_complete [OF frame_bytes_ranges [OF p], of r t "p @ rest" vc] p(1)
    by (simp add: USMP_MAX_PAYLOAD_def)
qed

text \<open>Every outcome but waiting or end of stream consumes at least a header.\<close>

lemma read_frame_consumes:
  assumes "read_frame readexactly vc r = (res, r')" "res \<noteq> Waiting" "res \<noteq> Raise IncompleteReadError"
  shows "\<exists>n\<ge>12. n \<le> length (buf r) \<and> r' = advance n r"
proof -
  have len: "12 \<le> length (buf r)"
    using assms read_short [of r 12]
    by (cases "length (buf r) < 12") (auto simp: read_frame_def coro_bind_def USMP_HEADER_SIZE_def)
  let ?h = "take 12 (buf r)"
  have h: "readexactly 12 r = (Done ?h, advance 12 r)" using len by (rule read_enough)
  obtain m l where m: "unpack_H ?h 0 = Inr m" and l: "unpack_H ?h 8 = Inr l"
    using len by (simp add: H.unpack_ok)
  show ?thesis
  proof (cases "m = USMP_MAGIC \<and> 0 < l \<and> l \<le> 480")
    case False
    then have "r' = advance 12 r"
      using assms(1) l m h
      by (auto simp: read_frame_def coro_bind_def coro_lift_def coro_return_def coro_raise_def
          usmp_consts split: if_splits sum.splits)
    then show ?thesis using len by auto
  next
    case True
    then have step: "read_frame readexactly vc r =
        coro_bind (readexactly (nat l)) (\<lambda>payload. coro_lift (decode_frame (?h @ payload) vc)) (advance 12 r)"
      using l m h by (simp add: read_frame_def coro_bind_def coro_lift_def usmp_consts)
    have enough: "nat l \<le> length (buf (advance 12 r))"
      using assms step read_short [of "advance 12 r" "nat l"]
      by (cases "length (buf (advance 12 r)) < nat l") (auto simp: coro_bind_def)
    then have "12 + nat l \<le> length (buf r)" using len by (simp add: buf_advance)
    moreover have "r' = advance (12 + nat l) r"
      using assms(1) step enough calculation
      by (simp add: coro_bind_def coro_lift_def read_enough advance_advance split: sum.splits)
    ultimately show ?thesis by (intro exI [of _ "12 + nat l"]) simp
  qed
qed

lemma read_frame_Done_wf: "read_frame readexactly vc r = (Done f, r') \<Longrightarrow> wf_frame f"
  by (auto simp: read_frame_def io_simps dest: decode_frame_wf split: if_splits)

end

subsection \<open>Properties of the codec\<close>

text \<open>
  C29. Encoding then decoding returns the frame that was encoded, whatever follows it in the
  buffer and whether or not the CRC is verified.
\<close>

theorem encode_decode_roundtrip:
  assumes "encode_frame t p s USMP_VERSION = Inr data"
  shows "decode_frame (data @ rest) vc = Inr (mk_frame t p s)"
  using assms by (simp add: encode_frame_Inr decode_frame_bytes)

theorem encode_decode_roundtrip_witness:
  "\<exists>data. encode_frame DATA [1, 2, 3] 7 USMP_VERSION = Inr data \<and>
     decode_frame (data @ [9]) True = Inr (mk_frame DATA [1, 2, 3] 7)"
proof -
  have e: "encode_frame DATA [1, 2, 3] 7 USMP_VERSION =
      Inr (frame_bytes USMP_VERSION DATA 7 [1, 2, 3])"
    by (rule encode_frame_ok) (simp_all add: USMP_MAX_PAYLOAD_def)
  show ?thesis using e encode_decode_roundtrip [OF e, of "[9]" True] by blast
qed

text \<open>
  C30. A frame the decoder accepts with CRC verification is well formed and canonical: its
  fields are in range, its declared length is its payload's length, and encoding its type,
  payload, sequence number and version gives back exactly the bytes it was decoded from.
\<close>

theorem decode_frame_canonical:
  assumes "decode_frame data True = Inr f"
  shows "wf_frame f \<and>
    encode_frame (f_type f) (f_payload f) (f_seq f) (f_version f) =
      Inr (take (USMP_HEADER_SIZE + length (f_payload f)) data)"
proof -
  obtain rest where
    r: "field_ranges USMP_MAGIC USMP_VERSION (packet_type_value (f_type f)) (f_seq f) (f_length f) (f_crc f)"
    and d: "data = raw_frame USMP_MAGIC USMP_VERSION (packet_type_value (f_type f)) (f_seq f)
              (f_length f) (f_crc f) rest"
    and v: "f_version f = USMP_VERSION" "f_length f \<le> 480" "nat (f_length f) \<le> length rest"
    and p: "f_payload f = take (nat (f_length f)) rest"
    and c: "f_crc f = frame_crc USMP_VERSION (f_type f) (f_seq f) (f_payload f)"
    using assms by (rule decode_frame_InrD) blast
  have len: "int (length (f_payload f)) = f_length f" using p v r by (simp add: field_ranges_def)
  then have "take (12 + length (f_payload f)) data = take (12 + nat (f_length f)) data" by (metis nat_int)
  also have "\<dots> = frame_bytes USMP_VERSION (f_type f) (f_seq f) (f_payload f)"
    unfolding frame_bytes_def len c [symmetric] by (simp add: d take_raw_frame p)
  finally have "take (12 + length (f_payload f)) data =
    frame_bytes USMP_VERSION (f_type f) (f_seq f) (f_payload f)" .
  then show ?thesis
    using decode_frame_wf [OF assms] r v p
    by (simp add: encode_frame_Inr field_ranges_def USMP_MAX_PAYLOAD_def USMP_HEADER_SIZE_def)
qed

theorem decode_frame_canonical_witness:
  "wf_frame (mk_frame PING [] 0) \<and>
    encode_frame PING [] 0 USMP_VERSION =
      Inr (take 12 (frame_bytes USMP_VERSION PING 0 [] @ [1]))"
proof -
  have d: "decode_frame (frame_bytes USMP_VERSION PING 0 [] @ [1]) True = Inr (mk_frame PING [] 0)"
    by (rule decode_frame_bytes) simp_all
  show ?thesis
    using decode_frame_canonical [OF d] by (simp add: mk_frame_def USMP_HEADER_SIZE_def)
qed



text \<open>
  A burst confined to two adjacent payload bytes never goes unnoticed: unless both bytes
  keep their value, the decoder answers \<open>CRCError\<close>.
\<close>

lemma payload_burst_rejected:
  assumes enc: "encode_frame t (pre @ [b1, b2] @ post) s USMP_VERSION = Inr data"
    and diff: "(c1, c2) \<noteq> (b1, b2)"
  shows "decode_frame (take (USMP_HEADER_SIZE + length pre) data @ [c1, c2] @ post) True = Inl CRCError"
proof -
  let ?p = "pre @ [b1, b2] @ post"
  let ?data' = "take (USMP_HEADER_SIZE + length pre) data @ [c1, c2] @ post"
  have p: "length ?p \<le> USMP_MAX_PAYLOAD" and d: "data = frame_bytes USMP_VERSION t s ?p"
    using enc by (simp_all add: encode_frame_Inr)
  have d': "?data' = raw_frame USMP_MAGIC USMP_VERSION (packet_type_value t) s
      (int (length ?p)) (frame_crc USMP_VERSION t s ?p) (pre @ [c1, c2] @ post)"
    by (simp add: d frame_bytes_def USMP_HEADER_SIZE_def take_raw_frame) (simp add: raw_frame_def)
  have "crc16 (header10 m v t' s' l @ pre @ [c1, c2] @ post) \<noteq> crc16 (header10 m v t' s' l @ ?p)"
    for m v t' s' l
    using diff crc16_burst [of "header10 m v t' s' l @ pre" c1 c2 post b1 b2] by auto
  then have "le_value (py_slice 10 12 ?data') \<noteq> crc16 (take 10 ?data' @ drop 12 ?data')"
    unfolding d' by (simp add: py_slice_crc_raw_frame take10_raw_frame drop12_raw_frame
        le_value_le_bytes frame_crc_def) metis
  then show ?thesis
    by (intro decode_corrupted_crc_region [OF p d])
      (simp_all only: d', simp_all add: d frame_bytes_def take3_raw_frame py_slice_len_raw_frame)
qed

end
