(* ===== verification/Crypto.thy ===== *)
theory Crypto
  imports Frame Sha256
begin

text \<open>
  \<open>src/src/usmp/_crypto.py\<close>. X25519, HKDF and the AEAD ciphers come from the third-party
  package \<open>cryptography\<close>: they are the fields of the record \<open>crypto\<close>, an argument of every
  operation that uses them. What that package documents of them and a theorem needs is a
  named predicate on the record (\<open>dh_commutes\<close>, \<open>hkdf_sized\<close>, \<open>aead_correct\<close>, ...).
  \<open>toy_crypto\<close> is a concrete record that satisfies all of them, used in witnesses.
\<close>

record crypto =
  x25519_public :: "bytes \<Rightarrow> bytes"
  x25519_from_public_bytes :: "bytes \<Rightarrow> bytes result"
  x25519_exchange :: "bytes \<Rightarrow> bytes \<Rightarrow> bytes result"
  hkdf :: "nat \<Rightarrow> bytes \<Rightarrow> bytes \<Rightarrow> bytes \<Rightarrow> bytes"
  aead_encrypt :: "cipher_suite \<Rightarrow> bytes \<Rightarrow> bytes \<Rightarrow> bytes \<Rightarrow> bytes \<Rightarrow> bytes result"
  aead_decrypt :: "cipher_suite \<Rightarrow> bytes \<Rightarrow> bytes \<Rightarrow> bytes \<Rightarrow> bytes \<Rightarrow> bytes result"

text \<open>
  \<open>hkdf len salt info ikm\<close>; \<open>aead_encrypt suite key nonce plaintext aad\<close> and
  \<open>aead_decrypt suite key nonce ct_tag aad\<close> include the construction of the cipher object.
  A private key is the bytes it was generated from.
\<close>

definition generate_keypair :: "crypto \<Rightarrow> bytes \<Rightarrow> bytes \<times> bytes" where
  "generate_keypair c priv = (priv, x25519_public c priv)"

definition usmp_v2 :: bytes where
  "usmp_v2 = [0x75, 0x73, 0x6D, 0x70, 0x2D, 0x76, 0x32]"

definition usmp_rekey :: bytes where
  "usmp_rekey = [0x75, 0x73, 0x6D, 0x70, 0x2D, 0x72, 0x65, 0x6B, 0x65, 0x79]"

definition derive_session_keys ::
  "crypto \<Rightarrow> bytes \<Rightarrow> bytes \<Rightarrow> bytes \<Rightarrow> bytes \<Rightarrow> bytes \<Rightarrow> (bytes \<times> bytes) result"
where
  "derive_session_keys c priv_key peer_pub nonce pub_c pub_s =
     bind_result (x25519_from_public_bytes c peer_pub) (\<lambda>peer_key.
     bind_result (x25519_exchange c priv_key peer_key) (\<lambda>shared_secret.
     if shared_secret = replicate (length shared_secret) 0 then Inl CryptoError
     else
       let info = usmp_v2 @ pub_c @ pub_s;
           key_material = hkdf c (USMP_SESSION_KEY_LEN * 2) nonce info shared_secret
       in Inr (take USMP_SESSION_KEY_LEN key_material, drop USMP_SESSION_KEY_LEN key_material)))"

definition derive_rekey_keys ::
  "crypto \<Rightarrow> bool \<Rightarrow> bytes \<Rightarrow> bytes \<Rightarrow> bytes \<Rightarrow> bytes \<Rightarrow> bytes \<times> bytes"
where
  "derive_rekey_keys c is_initiator txk rxk sid salt =
     (let secret = (if is_initiator then txk @ rxk else rxk @ txk);
          info = usmp_rekey @ sid;
          key_material = hkdf c (USMP_SESSION_KEY_LEN * 2) salt info secret
      in if is_initiator
         then (take USMP_SESSION_KEY_LEN key_material, drop USMP_SESSION_KEY_LEN key_material)
         else (drop USMP_SESSION_KEY_LEN key_material, take USMP_SESSION_KEY_LEN key_material))"

definition build_aad :: "int \<Rightarrow> int \<Rightarrow> int \<Rightarrow> int \<Rightarrow> int \<Rightarrow> bytes result" where
  "build_aad magic version ptype seq len =
     bind_result (pack_H magic) (\<lambda>m.
     bind_result (pack_B version) (\<lambda>v.
     bind_result (pack_B ptype) (\<lambda>t.
     bind_result (pack_I seq) (\<lambda>s.
     bind_result (pack_H len) (\<lambda>l. Inr (m @ v @ t @ s @ l))))))"

definition encrypt ::
  "crypto \<Rightarrow> bytes \<Rightarrow> bytes \<Rightarrow> int \<Rightarrow> int \<Rightarrow> int \<Rightarrow> int \<Rightarrow> bytes \<Rightarrow> cipher_suite \<Rightarrow> bytes result"
where
  "encrypt c key nonce seq ptype version magic plaintext suite =
     (let enc_length = int (12 + length plaintext + USMP_TAG_LEN) in
      bind_result (build_aad magic version ptype seq enc_length) (\<lambda>aad.
      bind_result (aead_encrypt c suite key nonce plaintext aad) (\<lambda>ciphertext_and_tag.
      Inr (nonce @ ciphertext_and_tag))))"

definition decrypt ::
  "crypto \<Rightarrow> bytes \<Rightarrow> bytes \<Rightarrow> int \<Rightarrow> int \<Rightarrow> int \<Rightarrow> int \<Rightarrow> int \<Rightarrow> bytes \<Rightarrow> cipher_suite \<Rightarrow> bytes result"
where
  "decrypt c key nonce seq ptype version magic len nonce_ct_tag suite =
     (if length nonce_ct_tag < 12 + USMP_TAG_LEN then Inl CryptoError
      else if take 12 nonce_ct_tag \<noteq> nonce then Inl CryptoError
      else
        bind_result (build_aad magic version ptype seq len) (\<lambda>aad.
        case aead_decrypt c suite key nonce (drop 12 nonce_ct_tag) aad of
          Inl _ \<Rightarrow> Inl CryptoError
        | Inr plaintext \<Rightarrow> Inr plaintext))"

subsection \<open>What the cryptography package documents\<close>

text \<open>Public keys are 32 bytes; \<open>from_public_bytes\<close> accepts exactly those.\<close>

definition x25519_sized :: "crypto \<Rightarrow> bool" where
  "x25519_sized c \<longleftrightarrow>
     (\<forall>a. length (x25519_public c a) = 32) \<and>
     (\<forall>b. x25519_from_public_bytes c b = (if length b = 32 then Inr b else Inl ValueError))"

text \<open>Diffie--Hellman: both sides compute the same shared secret.\<close>

definition dh_commutes :: "crypto \<Rightarrow> bool" where
  "dh_commutes c \<longleftrightarrow>
     (\<forall>a b. x25519_exchange c a (x25519_public c b) = x25519_exchange c b (x25519_public c a))"

definition hkdf_sized :: "crypto \<Rightarrow> bool" where
  "hkdf_sized c \<longleftrightarrow> (\<forall>n salt info ikm. length (hkdf c n salt info ikm) = n)"

text \<open>With a 32-byte key and a 12-byte nonce, encryption succeeds and appends a 16-byte tag.\<close>

definition aead_sized :: "crypto \<Rightarrow> bool" where
  "aead_sized c \<longleftrightarrow>
     (\<forall>suite key nonce pt aad. length key = 32 \<longrightarrow> length nonce = 12 \<longrightarrow>
        (\<exists>ct. aead_encrypt c suite key nonce pt aad = Inr ct \<and> length ct = length pt + 16))"

text \<open>Decrypting with the key, nonce and associated data of the encryption gives the plaintext.\<close>

definition aead_correct :: "crypto \<Rightarrow> bool" where
  "aead_correct c \<longleftrightarrow>
     (\<forall>suite key nonce pt aad ct. aead_encrypt c suite key nonce pt aad = Inr ct \<longrightarrow>
        aead_decrypt c suite key nonce ct aad = Inr pt)"

text \<open>A plaintext is the ciphertext without its 16-byte tag.\<close>

definition aead_plain_sized :: "crypto \<Rightarrow> bool" where
  "aead_plain_sized c \<longleftrightarrow>
     (\<forall>suite key nonce ct aad pt. aead_decrypt c suite key nonce ct aad = Inr pt \<longrightarrow>
        length ct = length pt + 16)"

subsection \<open>A concrete instance of the parameter\<close>

definition toy_pad32 :: "bytes \<Rightarrow> bytes" where
  "toy_pad32 b = take 32 (b @ replicate 32 0)"

definition toy_tag :: "bytes \<Rightarrow> bytes \<Rightarrow> bytes \<Rightarrow> bytes \<Rightarrow> bytes" where
  "toy_tag key nonce aad pt =
     replicate 16 (sum_list key + sum_list nonce + sum_list aad + sum_list pt)"

definition toy_seal :: "cipher_suite \<Rightarrow> bytes \<Rightarrow> bytes \<Rightarrow> bytes \<Rightarrow> bytes \<Rightarrow> bytes result" where
  "toy_seal suite key nonce pt aad =
     (if length key = 32 \<and> length nonce = 12
      then Inr (map (\<lambda>b. b XOR hd key) pt @ toy_tag key nonce aad pt) else Inl ValueError)"

definition toy_open :: "cipher_suite \<Rightarrow> bytes \<Rightarrow> bytes \<Rightarrow> bytes \<Rightarrow> bytes \<Rightarrow> bytes result" where
  "toy_open suite key nonce ct aad =
     (if length key \<noteq> 32 \<or> length nonce \<noteq> 12 then Inl ValueError
      else if length ct < 16 then Inl InvalidTag
      else
        let pt = map (\<lambda>b. b XOR hd key) (take (length ct - 16) ct)
        in if drop (length ct - 16) ct = toy_tag key nonce aad pt then Inr pt else Inl InvalidTag)"

definition toy_crypto :: crypto where
  "toy_crypto =
     \<lparr>x25519_public = toy_pad32,
      x25519_from_public_bytes = (\<lambda>b. if length b = 32 then Inr b else Inl ValueError),
      x25519_exchange = (\<lambda>a p. Inr (map2 (XOR) (toy_pad32 a) p)),
      hkdf = (\<lambda>n salt info ikm. map (\<lambda>i. of_nat i + sum_list salt + sum_list ikm) [0..<n]),
      aead_encrypt = toy_seal, aead_decrypt = toy_open\<rparr>"

lemma xor_xor_cancel [simp]: "(b XOR k) XOR k = (b :: 'a::len word)"
  by (auto simp: bit_eq_iff bit_xor_iff)

lemma length_toy_tag [simp]: "length (toy_tag key nonce aad pt) = 16"
  by (simp add: toy_tag_def)

lemma toy_open_seal: "toy_seal suite key nonce pt aad = Inr ct \<Longrightarrow> toy_open suite key nonce ct aad = Inr pt"
  by (auto simp: toy_seal_def toy_open_def Let_def comp_def split: if_splits)

lemma map2_xor_commute: "map2 (XOR) xs ys = map2 (XOR) ys (xs :: bytes)"
  by (induction xs ys rule: list_induct2') (simp_all add: xor.commute)

lemma toy_crypto_laws:
  "x25519_sized toy_crypto" "dh_commutes toy_crypto" "hkdf_sized toy_crypto"
  "aead_sized toy_crypto" "aead_correct toy_crypto" "aead_plain_sized toy_crypto"
proof -
  show "x25519_sized toy_crypto" by (auto simp: x25519_sized_def toy_crypto_def toy_pad32_def min_def)
  show "dh_commutes toy_crypto"
    unfolding dh_commutes_def toy_crypto_def by (simp add: map2_xor_commute)
  show "hkdf_sized toy_crypto" by (simp add: hkdf_sized_def toy_crypto_def)
  show "aead_sized toy_crypto" by (simp add: aead_sized_def toy_crypto_def toy_seal_def)
  show "aead_correct toy_crypto" by (simp add: aead_correct_def toy_crypto_def toy_open_seal)
  show "aead_plain_sized toy_crypto"
    by (auto simp: aead_plain_sized_def toy_crypto_def toy_open_def Let_def split: if_splits)
qed

subsection \<open>Associated data\<close>

lemma build_aad_Inr:
  "build_aad m v t s l = Inr aad \<longleftrightarrow>
     0 \<le> m \<and> m < 256 ^ 2 \<and> 0 \<le> v \<and> v < 256 ^ 1 \<and> 0 \<le> t \<and> t < 256 ^ 1 \<and> 0 \<le> s \<and> s < 256 ^ 4 \<and>
     0 \<le> l \<and> l < 256 ^ 2 \<and> aad = header10 m v t s l"
  unfolding build_aad_def by (auto simp add: io_simps B.pack_ok H.pack_ok I.pack_ok header10_def)

lemma build_aad_Inl: "build_aad m v t s l = Inl e \<Longrightarrow> e = StructError"
  by (auto simp: build_aad_def io_simps B.pack_err H.pack_err I.pack_err)

lemma header10_inj:
  assumes "field_ranges m v t s l 0" "field_ranges m' v' t' s' l' 0"
    and "header10 m v t s l = header10 m' v' t' s' l'"
  shows "m = m' \<and> v = v' \<and> t = t' \<and> s = s' \<and> l = l'"
  using assms
  by (simp add: header10_def append_eq_same_length le_bytes_inj field_ranges_def
      del: le_bytes.simps One_nat_def)

subsection \<open>Sealing and opening\<close>

lemma encrypt_ok:
  assumes "aead_sized c" "length key = 32" "length nonce = 12" "0 \<le> seq" "seq < 2 ^ 32"
    and "length pt \<le> USMP_MAX_DATA_LEN"
  shows "\<exists>ct. encrypt c key nonce seq (packet_type_value t) USMP_VERSION USMP_MAGIC pt suite = Inr (nonce @ ct) \<and>
    length ct = length pt + 16"
proof -
  obtain aad where aad:
    "build_aad USMP_MAGIC USMP_VERSION (packet_type_value t) seq (int (12 + length pt + 16)) = Inr aad"
    using assms packet_type_value_range [of t] by (simp add: build_aad_Inr usmp_consts)
  obtain ct where "aead_encrypt c suite key nonce pt aad = Inr ct" "length ct = length pt + 16"
    using assms(1-3) unfolding aead_sized_def by blast
  then show ?thesis using aad by (simp add: encrypt_def USMP_TAG_LEN_def)
qed

lemma encrypt_Inr_nonce: "encrypt c key nonce seq t v m pt suite = Inr out \<Longrightarrow> \<exists>ct. out = nonce @ ct"
  by (auto simp: encrypt_def Let_def io_simps)

lemma decrypt_plain_length:
  assumes "aead_plain_sized c" and "decrypt c key nonce seq t v m l out suite = Inr pt"
  shows "length out = length pt + 28"
proof -
  obtain aad where "aead_decrypt c suite key nonce (drop 12 out) aad = Inr pt" "28 \<le> length out"
    using assms(2) by (auto simp: decrypt_def io_simps USMP_TAG_LEN_def split: if_splits)
  then show ?thesis using assms(1) by (fastforce simp: aead_plain_sized_def)
qed

lemma decrypt_encrypt:
  assumes c: "aead_correct c" "aead_plain_sized c" and n: "length nonce = 12"
    and e: "encrypt c key nonce seq t v m pt suite = Inr out"
  shows "decrypt c key nonce seq t v m (int (length out)) out suite = Inr pt"
proof -
  obtain aad ct where aad: "build_aad m v t seq (int (28 + length pt)) = Inr aad"
    and ct: "aead_encrypt c suite key nonce pt aad = Inr ct" and out: "out = nonce @ ct"
    using e by (auto simp: encrypt_def Let_def io_simps USMP_TAG_LEN_def algebra_simps)
  have d: "aead_decrypt c suite key nonce ct aad = Inr pt" using c(1) ct by (simp add: aead_correct_def)
  then have "length ct = length pt + 16" using c(2) unfolding aead_plain_sized_def by blast
  then have "int (length out) = int (28 + length pt)" using n by (simp add: out)
  then show ?thesis using d n aad \<open>length ct = length pt + 16\<close> by (simp add: decrypt_def out USMP_TAG_LEN_def)
qed

lemma decrypt_Inl: "decrypt c key nonce seq t v m l out suite = Inl e \<Longrightarrow> e = CryptoError \<or> e = StructError"
  by (auto simp: decrypt_def io_simps dest: build_aad_Inl split: if_splits)

lemma session_keys_agree:
  "x25519_sized c \<Longrightarrow> dh_commutes c \<Longrightarrow>
    derive_session_keys c a (x25519_public c b) nonce pc ps = derive_session_keys c b (x25519_public c a) nonce pc ps"
  by (simp add: derive_session_keys_def x25519_sized_def dh_commutes_def)

lemma rekey_keys_mirror:
  "hkdf_sized c \<Longrightarrow> derive_rekey_keys c True txk rxk sid salt = (new_tx, new_rx) \<Longrightarrow>
    derive_rekey_keys c False rxk txk sid salt = (new_rx, new_tx) \<and> length new_tx = 32 \<and> length new_rx = 32"
  by (auto simp: derive_rekey_keys_def Let_def hkdf_sized_def USMP_SESSION_KEY_LEN_def)

subsection \<open>Properties of the key schedule and the sealing format\<close>

text \<open>
  C37. The associated data binds the header: for a frame on the wire it is exactly the frame's
  first ten bytes, and no two different headers have the same associated data.
\<close>

theorem aad_is_wire_header:
  assumes "encode_frame t payload seq USMP_VERSION = Inr data"
  shows "build_aad USMP_MAGIC USMP_VERSION (packet_type_value t) seq (int (length payload)) =
      Inr (take 10 data) \<and>
    (\<forall>m v t' s l. build_aad m v t' s l = Inr (take 10 data) \<longrightarrow>
       m = USMP_MAGIC \<and> v = USMP_VERSION \<and> t' = packet_type_value t \<and> s = seq \<and>
       l = int (length payload))"
proof -
  have d: "data = frame_bytes USMP_VERSION t seq payload" and r: "length payload \<le> 480" "0 \<le> seq" "seq < 2 ^ 32"
    using assms by (simp_all add: encode_frame_Inr USMP_MAX_PAYLOAD_def)
  have h: "take 10 data = header10 USMP_MAGIC USMP_VERSION (packet_type_value t) seq (int (length payload))"
    by (simp add: d frame_bytes_def take10_raw_frame)
  have fr: "field_ranges USMP_MAGIC USMP_VERSION (packet_type_value t) seq (int (length payload)) 0"
    using r packet_type_value_range [of t] by (simp add: field_ranges_def USMP_MAGIC_def USMP_VERSION_def)
  have "m = USMP_MAGIC \<and> v = USMP_VERSION \<and> t' = packet_type_value t \<and> s = seq \<and> l = int (length payload)"
    if "build_aad m v t' s l = Inr (take 10 data)" for m v t' s l
    using that h by (intro header10_inj [OF _ fr]) (simp_all add: build_aad_Inr field_ranges_def)
  moreover have "build_aad USMP_MAGIC USMP_VERSION (packet_type_value t) seq (int (length payload)) = Inr (take 10 data)"
    using fr h by (simp add: build_aad_Inr field_ranges_def)
  ultimately show ?thesis by blast
qed

theorem aad_is_wire_header_witness:
  "build_aad USMP_MAGIC USMP_VERSION 5 3 2 = Inr (take 10 (frame_bytes USMP_VERSION DATA 3 [8, 9]))"
proof -
  have e: "encode_frame DATA [8, 9] 3 USMP_VERSION = Inr (frame_bytes USMP_VERSION DATA 3 [8, 9])"
    by (rule encode_frame_ok) (simp_all add: USMP_MAX_PAYLOAD_def)
  show ?thesis using aad_is_wire_header [OF e] by simp
qed

end
