(* ===== verification/Pydict.thy ===== *)
theory Pydict
  imports Errors
begin

text \<open>
  Python dictionaries where insertion order is observable (\<open>min\<close> over the keys, stable
  \<open>sorted\<close>, comprehension order): association lists with distinct keys. An update of a
  present key keeps its place; a new key goes last. The locale \<open>py_mapping\<close> is the contract
  the rate limiters and connection tables rely on.
\<close>

type_synonym ('k, 'v) dict = "('k \<times> 'v) list"

definition dict_get :: "('k, 'v) dict \<Rightarrow> 'k \<Rightarrow> 'v option" where
  "dict_get d k = map_of d k"

fun dict_set :: "('k, 'v) dict \<Rightarrow> 'k \<Rightarrow> 'v \<Rightarrow> ('k, 'v) dict" where
  "dict_set [] k v = [(k, v)]"
| "dict_set (kv # d) k v = (if fst kv = k then (k, v) # d else kv # dict_set d k v)"

text \<open>\<open>d.pop(k, None)\<close>, and \<open>del d[k]\<close> for a present key.\<close>

definition dict_pop :: "('k, 'v) dict \<Rightarrow> 'k \<Rightarrow> ('k, 'v) dict" where
  "dict_pop d k = filter (\<lambda>kv. fst kv \<noteq> k) d"

definition dict_keys :: "('k, 'v) dict \<Rightarrow> 'k list" where
  "dict_keys d = map fst d"

definition dict_contains :: "('k, 'v) dict \<Rightarrow> 'k \<Rightarrow> bool" where
  "dict_contains d k = List.member (map fst d) k"

definition dict_ok :: "('k, 'v) dict \<Rightarrow> bool" where
  "dict_ok d \<longleftrightarrow> distinct (map fst d)"

text \<open>\<open>{k: v for k, v in d.items() if p(k, v)}\<close>.\<close>

definition dict_filter :: "('k \<Rightarrow> 'v \<Rightarrow> bool) \<Rightarrow> ('k, 'v) dict \<Rightarrow> ('k, 'v) dict" where
  "dict_filter p d = filter (\<lambda>kv. p (fst kv) (snd kv)) d"

subsection \<open>The contract\<close>

locale py_mapping =
  fixes get :: "'d \<Rightarrow> 'k \<Rightarrow> 'v option"
    and put :: "'d \<Rightarrow> 'k \<Rightarrow> 'v \<Rightarrow> 'd"
    and pop :: "'d \<Rightarrow> 'k \<Rightarrow> 'd"
    and card_of :: "'d \<Rightarrow> nat"
    and ok :: "'d \<Rightarrow> bool"
  assumes get_put: "ok d \<Longrightarrow> get (put d k v) = (get d)(k \<mapsto> v)"
    and get_pop: "ok d \<Longrightarrow> get (pop d k) = (get d)(k := None)"
    and ok_put: "ok d \<Longrightarrow> ok (put d k v)"
    and ok_pop: "ok d \<Longrightarrow> ok (pop d k)"
    and card_dom: "ok d \<Longrightarrow> card_of d = card (dom (get d))"
    and finite_dom: "ok d \<Longrightarrow> finite (dom (get d))"
begin

lemma card_put: "ok d \<Longrightarrow> card_of (put d k v) = (if get d k = None then Suc (card_of d) else card_of d)"
  by (auto simp: card_dom ok_put get_put finite_dom insert_absorb domIff)

lemma card_pop: "ok d \<Longrightarrow> card_of (pop d k) = (if get d k = None then card_of d else card_of d - 1)"
proof -
  assume d: "ok d"
  then have "dom (get (pop d k)) = dom (get d) - {k}" by (auto simp: get_pop)
  with d show ?thesis by (auto simp: card_dom ok_pop finite_dom card_Diff_singleton_if domIff)
qed

text \<open>Evicting a present key before inserting an absent one keeps the size.\<close>

lemma card_replace:
  "ok d \<Longrightarrow> get d j \<noteq> None \<Longrightarrow> get d k = None \<Longrightarrow> card_of (put (pop d j) k v) = card_of d"
proof -
  assume d: "ok d" and j: "get d j \<noteq> None" and k: "get d k = None"
  have "0 < card_of d" using d j by (metis card_dom card_gt_0_iff domIff emptyE finite_dom)
  then show ?thesis using d j k by (auto simp: card_put card_pop ok_pop get_pop)
qed

end

lemma dict_get_Nil [simp]: "dict_get [] k = None"
  by (simp add: dict_get_def)

lemma dict_get_set [dict_simps]: "dict_get (dict_set d k v) = (dict_get d)(k \<mapsto> v)"
  by (induction d k v rule: dict_set.induct) (auto simp: dict_get_def fun_eq_iff)

lemma dict_get_pop [dict_simps]: "dict_get (dict_pop d k) = (dict_get d)(k := None)"
  by (induction d) (auto simp: dict_get_def dict_pop_def fun_eq_iff)

lemma set_keys_dict_set: "set (map fst (dict_set d k v)) = insert k (set (map fst d))"
  by (induction d k v rule: dict_set.induct) auto

lemma dict_ok_set [dict_simps]: "dict_ok d \<Longrightarrow> dict_ok (dict_set d k v)"
  unfolding dict_ok_def
  by (induction d k v rule: dict_set.induct) (auto simp: set_keys_dict_set [simplified])

lemma dict_ok_filter: "dict_ok d \<Longrightarrow> dict_ok (filter P d)"
  by (simp add: dict_ok_def distinct_map_filter)

lemma dict_ok_pop [dict_simps]: "dict_ok d \<Longrightarrow> dict_ok (dict_pop d k)"
  by (simp add: dict_pop_def dict_ok_filter)

lemma dom_dict_get: "dom (dict_get d) = set (map fst d)"
  by (simp add: dict_get_def [abs_def] dom_map_of_conv_image_fst)

lemma length_dict: "dict_ok d \<Longrightarrow> length d = card (dom (dict_get d))"
  by (metis dict_ok_def distinct_card dom_dict_get length_map)

interpretation pd: py_mapping dict_get dict_set dict_pop length dict_ok
  by unfold_locales (simp_all add: dict_simps length_dict dom_dict_get)

lemma dict_contains_get: "dict_contains d k \<longleftrightarrow> dict_get d k \<noteq> None"
  by (metis List.member_iff dict_contains_def domIff dom_dict_get)

lemma dict_get_mem: "dict_get d k = Some v \<Longrightarrow> (k, v) \<in> set d"
  by (simp add: dict_get_def map_of_SomeD)

lemma dict_mem_get: "dict_ok d \<Longrightarrow> (k, v) \<in> set d \<Longrightarrow> dict_get d k = Some v"
  by (simp add: dict_get_def dict_ok_def)

lemma dict_get_filter:
  "dict_ok d \<Longrightarrow>
    dict_get (dict_filter p d) k = (case dict_get d k of Some v \<Rightarrow> if p k v then Some v else None | None \<Rightarrow> None)"
proof (induction d)
  case Nil
  show ?case by (simp add: dict_filter_def dict_get_def)
next
  case (Cons kv d)
  have "map_of d (fst kv) = None" using Cons.prems by (simp add: dict_ok_def map_of_eq_None_iff)
  with Cons show ?case by (cases kv) (auto simp: dict_filter_def dict_get_def dict_ok_def split: option.splits)
qed

end
