(* ===== verification/Transport.thy ===== *)
theory Transport
  imports Crypto Pydict
begin

text \<open>
  \<open>src/src/usmp/transport/base.py\<close>: the abstract base class \<open>USMPTransport\<close> as a record of
  operations over the state \<open>'t\<close> of an implementation; the handshake and the session take
  the record as an argument and call through it, as the Python calls virtual methods. The
  locale \<open>usmp_transport\<close> is the contract they rely on; \<open>Tcp\<close> and \<open>Udp\<close> interpret it.
\<close>

type_synonym addr = "string \<times> int"

text \<open>What \<open>get_extra_info("peername")\<close> may return: an address tuple, another object, nothing.\<close>

datatype peername = PeerTuple addr | PeerOther string | PeerNone

record 't transport_ops =
  is_reliable :: bool
  t_read_frame :: "bool \<Rightarrow> ('t, usmp_frame) coro"
  t_write_frame :: "packet_type \<Rightarrow> bytes \<Rightarrow> int \<Rightarrow> ('t, unit) coro"
  t_set_session_keys :: "bytes \<Rightarrow> bytes \<Rightarrow> 't \<Rightarrow> 't"
  t_confirm_authenticated :: "int \<Rightarrow> 't \<Rightarrow> 't"
  t_peername :: "'t \<Rightarrow> peername"
  t_close :: "'t \<Rightarrow> 't"

text \<open>
  The contract. \<open>pending t\<close> bounds what can still be read without further input from outside:
  every frame read, and every read that fails with one of the exceptions the session loop
  survives, uses some of it up, and no other operation adds to it.
\<close>

locale usmp_transport =
  fixes T :: "'t transport_ops"
    and pending :: "'t \<Rightarrow> nat"
  assumes read_wf: "t_read_frame T vc t = (Done f, t') \<Longrightarrow> wf_frame f"
    and read_done_progress: "t_read_frame T vc t = (Done f, t') \<Longrightarrow> pending t' < pending t"
    and read_error_progress: "t_read_frame T vc t = (Raise e, t') \<Longrightarrow>
          catches [USMPError, StructError] e \<Longrightarrow> pending t' < pending t"
    and write_pending: "t_write_frame T ptype payload seq t = (r, t') \<Longrightarrow> pending t' \<le> pending t"
    and write_oversized: "length payload > USMP_MAX_PAYLOAD \<Longrightarrow>
          t_write_frame T ptype payload seq t = (Raise PayloadError, t)"
    and set_keys_pending: "pending (t_set_session_keys T txk rxk t) = pending t"
    and confirm_pending: "pending (t_confirm_authenticated T seq t) = pending t"

lemma decode_frame_Inl:
  "decode_frame data vc = Inl e \<Longrightarrow> e \<in> {FrameError, MagicError, VersionError, PayloadError, CRCError}"
proof -
  assume d: "decode_frame data vc = Inl e"
  show ?thesis
  proof (cases "length data < 12")
    case True
    then show ?thesis using d by (simp add: decode_short)
  next
    case False
    then have "12 \<le> length data" by simp
    then obtain m v t s l c rest where r: "field_ranges m v t s l c" and e: "data = raw_frame m v t s l c rest"
      by (rule raw_frame_cases)
    show ?thesis using d by (auto simp: e decode_raw_frame [OF r] split: if_splits sum.splits)
  qed
qed

lemma decode_frame_not_incomplete: "decode_frame data vc \<noteq> Inl IncompleteReadError"
  by (auto dest: decode_frame_Inl)

end
