(* ===== verification/Session.thy ===== *)
theory Session
  imports Transport
begin

unbundle bit_operations_syntax

text \<open>
  \<open>USMPSession\<close> of \<open>src/src/usmp/_session.py\<close> over any transport: sending with
  fragmentation, the receive loop with its replay window, reassembly, control frames and
  in-band rekeying, and closing. Readings of \<open>time.monotonic()\<close> are taken from an argument
  \<open>clk\<close>, the \<open>n\<close>-th reading being \<open>clk n\<close>; \<open>ticks\<close> counts them. An operation runs
  without interleaving with the session's other tasks, except in the section on nonces,
  where every interleaving of the code between two \<open>await\<close>s is considered.
\<close>

record 't session =
  transport :: 't
  info :: session_info
  recv_timeout :: "seconds option"
  last_recv :: seconds
  s_closed :: bool
  ticks :: nat

definition monotonic :: "(nat \<Rightarrow> seconds) \<Rightarrow> ('t session, seconds) coro" where
  "monotonic clk s = (Done (clk (ticks s)), s\<lparr>ticks := Suc (ticks s)\<rparr>)"

definition USMPSession :: "'t \<Rightarrow> session_info \<Rightarrow> seconds option \<Rightarrow> (nat \<Rightarrow> seconds) \<Rightarrow> 't session" where
  "USMPSession t i timeout clk =
     \<lparr>transport = t, info = i, recv_timeout = timeout, last_recv = clk 0, s_closed = False, ticks = 1\<rparr>"

text \<open>A coroutine of the transport, run on the session's transport.\<close>

definition on_transport :: "('t, 'a) coro \<Rightarrow> ('t session, 'a) coro" where
  "on_transport m s = (case m (transport s) of (r, t) \<Rightarrow> (r, s\<lparr>transport := t\<rparr>))"

subsection \<open>Sending\<close>

text \<open>
  \<open>_send_encrypted_locked\<close> up to the write: the frame is sealed and its sequence number
  used up. There is no \<open>await\<close> in this part.
\<close>

definition seal :: "crypto \<Rightarrow> packet_type \<Rightarrow> bytes \<Rightarrow> session_info \<Rightarrow> (bytes \<times> int \<times> session_info) result" where
  "seal c ptype plaintext i =
     (let seq = tx_seq i in
      if seq \<ge> 0xFFFFFFFF \<and> ptype \<noteq> BYE then Inl SequenceError
      else
        bind_result (pack_I seq) (\<lambda>q.
        let nonce = q @ take 8 (session_id i) in
        bind_result (encrypt c (tx_key i) nonce seq (packet_type_value ptype) USMP_VERSION USMP_MAGIC plaintext
            (cipher_suite i)) (\<lambda>ciphertext.
        Inr (ciphertext, seq, i\<lparr>tx_seq := min (seq + 1) 0xFFFFFFFF\<rparr>))))"

definition send_encrypted_locked ::
  "crypto \<Rightarrow> 't transport_ops \<Rightarrow> packet_type \<Rightarrow> bytes \<Rightarrow> ('t session, unit) coro"
where
  "send_encrypted_locked c T ptype plaintext s =
     (case seal c ptype plaintext (info s) of
        Inl e \<Rightarrow> (Raise e, s)
      | Inr (ciphertext, seq, i) \<Rightarrow> on_transport (t_write_frame T ptype ciphertext seq) (s\<lparr>info := i\<rparr>))"

text \<open>\<open>_send_encrypted\<close> adds the lock, which is free when operations do not interleave.\<close>

definition send_encrypted :: "crypto \<Rightarrow> 't transport_ops \<Rightarrow> packet_type \<Rightarrow> bytes \<Rightarrow> ('t session, unit) coro" where
  "send_encrypted c T ptype plaintext = send_encrypted_locked c T ptype plaintext"

definition send_pong :: "crypto \<Rightarrow> 't transport_ops \<Rightarrow> ('t session, unit) coro" where
  "send_pong c T = send_encrypted c T PONG []"

definition ping :: "crypto \<Rightarrow> 't transport_ops \<Rightarrow> ('t session, unit) coro" where
  "ping c T = send_encrypted c T PING []"

text \<open>The \<open>while\<close> loop of \<open>send\<close>.\<close>

function send_loop :: "crypto \<Rightarrow> 't transport_ops \<Rightarrow> bytes \<Rightarrow> nat \<Rightarrow> ('t session, unit) coro" where
  "send_loop c T data offset s =
     (if offset < length data \<or> length data = 0 then
        let chunk = py_slice offset (offset + USMP_MAX_DATA_LEN) data;
            is_frag = offset + length chunk < length data;
            ptype = (if is_frag then DATA_FRAG else DATA) in
        case send_encrypted_locked c T ptype chunk s of
          (Done _, s') \<Rightarrow>
            if length data = 0 then (Done (), s')
            else send_loop c T data (offset + length chunk) s'
        | r \<Rightarrow> r
      else (Done (), s))"
  by pat_completeness auto
termination
  by (relation "measure (\<lambda>(c, T, data, offset, s). length data - offset)")
    (auto simp: length_py_slice usmp_consts)

declare send_loop.simps [simp del]

definition send :: "crypto \<Rightarrow> 't transport_ops \<Rightarrow> bytes \<Rightarrow> ('t session, unit) coro" where
  "send c T data s =
     (if length data > USMP_MAX_DATA_LEN * USMP_MAX_FRAMES then (Raise PayloadError, s)
      else send_loop c T data 0 s)"

subsection \<open>Keys\<close>

definition rotate_keys :: "'t transport_ops \<Rightarrow> bytes \<times> bytes \<Rightarrow> 't session \<Rightarrow> 't session" where
  "rotate_keys T keys s =
     (let (new_tx, new_rx) = keys in
      s\<lparr>info := (info s)\<lparr>tx_key := new_tx, rx_key := new_rx, tx_seq := 0, rx_seq := 0, rx_window_bitmap := 0\<rparr>,
        transport := t_set_session_keys T new_tx new_rx (transport s)\<rparr>)"

text \<open>\<open>rekey\<close>; \<open>salt\<close> is what \<open>os.urandom(32)\<close> returned.\<close>

definition rekey :: "crypto \<Rightarrow> 't transport_ops \<Rightarrow> bytes \<Rightarrow> ('t session, unit) coro" where
  "rekey c T salt =
     coro_bind (send_encrypted_locked c T REKEY salt) (\<lambda>_ s.
       (Done (), rotate_keys T
          (derive_rekey_keys c True (tx_key (info s)) (rx_key (info s)) (session_id (info s)) salt) s))"

definition bye :: "crypto \<Rightarrow> 't transport_ops \<Rightarrow> ('t session, unit) coro" where
  "bye c T s =
     (if s_closed s then (Done (), s)
      else
        let (r, s1) = send_encrypted c T BYE [] (s\<lparr>s_closed := True\<rparr>);
            r' = (case r of Raise e \<Rightarrow> if catches [SequenceError, OSError] e then Done () else Raise e | _ \<Rightarrow> r)
        in case r' of
             Waiting \<Rightarrow> (Waiting, s1)
           | _ \<Rightarrow> (r', s1\<lparr>transport := t_close T (transport s1)\<rparr>))"

subsection \<open>Receiving\<close>

text \<open>The sliding replay window: the check before decryption and the update after it.\<close>

definition replayed :: "int \<Rightarrow> session_info \<Rightarrow> bool" where
  "replayed seq i \<longleftrightarrow>
     seq \<le> rx_seq i - 64 \<or>
     (seq \<le> rx_seq i \<and> (rx_window_bitmap i AND push_bit (nat (rx_seq i - seq)) 1) \<noteq> 0)"

definition window_update :: "int \<Rightarrow> session_info \<Rightarrow> session_info" where
  "window_update seq i =
     (if seq > rx_seq i then
        let shift = seq - rx_seq i;
            bitmap = (if shift < 64
                      then (push_bit (nat shift) (rx_window_bitmap i) AND 0xFFFFFFFFFFFFFFFF) OR 1
                      else 1)
        in i\<lparr>rx_window_bitmap := bitmap, rx_seq := seq\<rparr>
      else i\<lparr>rx_window_bitmap := rx_window_bitmap i OR push_bit (nat (rx_seq i - seq)) 1\<rparr>)"

text \<open>
  The first \<open>try\<close> of the loop: the next frame and its plaintext, or \<open>None\<close> when a
  datagram is dropped.
\<close>

definition receive_frame ::
  "crypto \<Rightarrow> 't transport_ops \<Rightarrow> (nat \<Rightarrow> seconds) \<Rightarrow> ('t session, (usmp_frame \<times> bytes) option) coro"
where
  "receive_frame c T clk =
     coro_catch
       (coro_bind (on_transport (t_read_frame T True)) (\<lambda>frame s.
          if \<not> is_reliable T \<and> replayed (f_seq frame) (info s) then (Done None, s)
          else
            coro_bind (coro_lift (pack_I (f_seq frame))) (\<lambda>q.
            let nonce = q @ take 8 (session_id (info s)) in
            coro_bind (coro_lift (decrypt c (rx_key (info s)) nonce (f_seq frame) (packet_type_value (f_type frame))
                (f_version frame) (f_magic frame) (f_length frame) (f_payload frame) (cipher_suite (info s))))
              (\<lambda>plaintext.
            coro_bind (monotonic clk) (\<lambda>now s. (Done (Some (frame, plaintext)), s\<lparr>last_recv := now\<rparr>)))) s))
       [USMPError, StructError]
       (\<lambda>e s. if \<not> is_reliable T then (Done None, s) else (Raise e, s))"

text \<open>Sequence overflow, then the window update (UDP) or the strict order check (TCP).\<close>

definition accept_seq :: "'t transport_ops \<Rightarrow> int \<Rightarrow> ('t session, unit) coro" where
  "accept_seq T seq s =
     (if seq \<ge> 0xFFFFFFFF then (Raise SequenceError, s)
      else if \<not> is_reliable T then
        (Done (), s\<lparr>info := window_update seq (info s), transport := t_confirm_authenticated T seq (transport s)\<rparr>)
      else if seq \<noteq> rx_seq (info s) then (Raise SequenceError, s)
      else (Done (), s\<lparr>info := (info s)\<lparr>rx_seq := rx_seq (info s) + 1\<rparr>\<rparr>))"

text \<open>The local variables of \<open>_recv_internal\<close>.\<close>

record recv_locals =
  assembled_payload :: bytes
  frame_count :: nat
  ctrl_count :: nat
  ctrl_window_start :: seconds
  expected_frag_seq :: int

datatype recv_ctl = Continue recv_locals | Return bytes

definition handle_control ::
  "crypto \<Rightarrow> 't transport_ops \<Rightarrow> (nat \<Rightarrow> seconds) \<Rightarrow> packet_type \<Rightarrow> recv_locals \<Rightarrow> ('t session, recv_ctl) coro"
where
  "handle_control c T clk ptype l =
     (if length (assembled_payload l) > 0 then coro_raise SequenceError
      else
        coro_bind (if ptype = PING then send_pong c T else coro_return ()) (\<lambda>_.
        coro_bind (monotonic clk) (\<lambda>now.
        let l1 = (if now - ctrl_window_start l > 1 then l\<lparr>ctrl_window_start := now, ctrl_count := 0\<rparr> else l);
            l2 = l1\<lparr>ctrl_count := ctrl_count l1 + 1\<rparr> in
        if ctrl_count l2 > 8 then coro_raise ConnectionClosedError
        else coro_return (Continue l2))))"

definition handle_rekey ::
  "crypto \<Rightarrow> 't transport_ops \<Rightarrow> bytes \<Rightarrow> recv_locals \<Rightarrow> ('t session, recv_ctl) coro"
where
  "handle_rekey c T plaintext l s =
     (if length (assembled_payload l) > 0 then (Raise SequenceError, s)
      else if length plaintext \<noteq> 32 then (Raise PayloadError, s)
      else
        (Done (Continue l), rotate_keys T
           (derive_rekey_keys c False (tx_key (info s)) (rx_key (info s)) (session_id (info s)) plaintext) s))"

definition handle_data :: "packet_type \<Rightarrow> int \<Rightarrow> bytes \<Rightarrow> recv_locals \<Rightarrow> recv_ctl result" where
  "handle_data ptype seq plaintext l =
     bind_result
       (if frame_count l > 0 then
          if seq \<noteq> expected_frag_seq l then Inl SequenceError
          else Inr (l\<lparr>expected_frag_seq := expected_frag_seq l + 1\<rparr>)
        else Inr (l\<lparr>expected_frag_seq := seq + 1\<rparr>)) (\<lambda>l1.
     let l2 = l1\<lparr>assembled_payload := assembled_payload l1 @ plaintext, frame_count := frame_count l1 + 1\<rparr> in
     if ptype = DATA then Inr (Return (assembled_payload l2))
     else if frame_count l2 \<ge> USMP_MAX_FRAMES then Inl PayloadError
     else Inr (Continue l2))"

text \<open>The second \<open>try\<close>: what is done with an accepted frame.\<close>

definition dispatch_frame ::
  "crypto \<Rightarrow> 't transport_ops \<Rightarrow> (nat \<Rightarrow> seconds) \<Rightarrow> usmp_frame \<Rightarrow> bytes \<Rightarrow> recv_locals \<Rightarrow> ('t session, recv_ctl) coro"
where
  "dispatch_frame c T clk frame plaintext l =
     coro_catch
       (if f_type frame = BYE then coro_raise ConnectionClosedError
        else if f_type frame = PING \<or> f_type frame = PONG then handle_control c T clk (f_type frame) l
        else if f_type frame = REKEY then handle_rekey c T plaintext l
        else if f_type frame \<noteq> DATA \<and> f_type frame \<noteq> DATA_FRAG then coro_raise ValueError
        else coro_lift (handle_data (f_type frame) (f_seq frame) plaintext l))
       [FrameError, SequenceError, ValueError]
       (\<lambda>e s. if \<not> is_reliable T
              then (Done (Continue (l\<lparr>assembled_payload := [], frame_count := 0, expected_frag_seq := 0\<rparr>)), s)
              else (Raise e, s))"

text \<open>One turn of the \<open>while True\<close> loop.\<close>

definition recv_turn ::
  "crypto \<Rightarrow> 't transport_ops \<Rightarrow> (nat \<Rightarrow> seconds) \<Rightarrow> recv_locals \<Rightarrow> ('t session, recv_ctl) coro"
where
  "recv_turn c T clk l =
     coro_bind (receive_frame c T clk) (\<lambda>received.
       case received of
         None \<Rightarrow> coro_return (Continue l)
       | Some (frame, plaintext) \<Rightarrow>
           coro_bind (accept_seq T (f_seq frame)) (\<lambda>_. dispatch_frame c T clk frame plaintext l))"

text \<open>\<open>None\<close>: more turns than \<open>fuel\<close>.\<close>

fun recv_loop ::
  "nat \<Rightarrow> crypto \<Rightarrow> 't transport_ops \<Rightarrow> (nat \<Rightarrow> seconds) \<Rightarrow> recv_locals \<Rightarrow> 't session \<Rightarrow> (bytes io \<times> 't session) option"
where
  "recv_loop 0 c T clk l s = None"
| "recv_loop (Suc fuel) c T clk l s =
     (case recv_turn c T clk l s of
        (Done (Return data), s') \<Rightarrow> Some (Done data, s')
      | (Done (Continue l'), s') \<Rightarrow> recv_loop fuel c T clk l' s'
      | (Raise e, s') \<Rightarrow> Some (Raise e, s')
      | (Waiting, s') \<Rightarrow> Some (Waiting, s'))"

definition recv_internal ::
  "nat \<Rightarrow> crypto \<Rightarrow> 't transport_ops \<Rightarrow> (nat \<Rightarrow> seconds) \<Rightarrow> 't session \<Rightarrow> (bytes io \<times> 't session) option"
where
  "recv_internal fuel c T clk s =
     recv_loop fuel c T clk
       \<lparr>assembled_payload = [], frame_count = 0, ctrl_count = 0, ctrl_window_start = clk (ticks s), expected_frag_seq = 0\<rparr>
       (s\<lparr>ticks := Suc (ticks s)\<rparr>)"

text \<open>
  \<open>recv(timeout)\<close>. With a timeout, a receive that is left waiting for input is cancelled by
  \<open>wait_for\<close> and reported as \<open>USMPTimeoutError\<close>; what it consumed is not put back.
\<close>

definition recv ::
  "nat \<Rightarrow> crypto \<Rightarrow> 't transport_ops \<Rightarrow> (nat \<Rightarrow> seconds) \<Rightarrow> seconds option \<Rightarrow> 't session
     \<Rightarrow> (bytes io \<times> 't session) option"
where
  "recv fuel c T clk timeout s =
     (let effective_timeout = (case timeout of None \<Rightarrow> recv_timeout s | Some t \<Rightarrow> Some t) in
      case recv_internal fuel c T clk s of
        None \<Rightarrow> None
      | Some (r, s') \<Rightarrow>
          if effective_timeout = None then Some (r, s')
          else
            Some (case r of
                    Waiting \<Rightarrow> Raise USMPTimeoutError
                  | Raise e \<Rightarrow> if catches [TimeoutError] e then Raise USMPTimeoutError else Raise e
                  | Done data \<Rightarrow> Done data, s'))"

end
