(* ===== verification/Replay.thy ===== *)
theory Replay
  imports Session
begin

unbundle bit_operations_syntax

text \<open>
  Replay protection of the receive path. The locale \<open>anti_replay\<close> is the contract: a filter
  on sequence numbers whose state stands for the set of numbers accepted so far. It is
  interpreted by the 64-entry sliding window used over UDP and by the strict counter used
  over TCP.
\<close>

text \<open>The numbers that pass, in order, and the state left behind.\<close>

fun accepted :: "('w \<Rightarrow> int \<Rightarrow> bool) \<Rightarrow> ('w \<Rightarrow> int \<Rightarrow> 'w) \<Rightarrow> 'w \<Rightarrow> int list \<Rightarrow> int list \<times> 'w" where
  "accepted rejects accept w [] = ([], w)"
| "accepted rejects accept w (q # qs) =
     (if rejects w q then accepted rejects accept w qs
      else let (acc, w') = accepted rejects accept (accept w q) qs in (q # acc, w'))"

locale anti_replay =
  fixes rejects :: "'w \<Rightarrow> int \<Rightarrow> bool"
    and accept :: "'w \<Rightarrow> int \<Rightarrow> 'w"
    and stands_for :: "'w \<Rightarrow> int set \<Rightarrow> bool"
  assumes accept_adds: "stands_for w S \<Longrightarrow> \<not> rejects w q \<Longrightarrow> stands_for (accept w q) (insert q S)"
    and accepted_rejected: "stands_for w S \<Longrightarrow> q \<in> S \<Longrightarrow> rejects w q"
begin

lemma accepted_fresh:
  assumes "stands_for w S" "accepted rejects accept w qs = (acc, w')"
  shows "distinct acc \<and> set acc \<inter> S = {} \<and> set acc \<subseteq> set qs \<and> stands_for w' (S \<union> set acc)"
  using assms
proof (induction qs arbitrary: w S acc)
  case (Cons q qs)
  show ?case
  proof (cases "rejects w q")
    case True
    then show ?thesis using Cons.IH [OF Cons.prems(1)] Cons.prems(2) by auto
  next
    case False
    then obtain acc' where a: "accepted rejects accept (accept w q) qs = (acc', w')" "acc = q # acc'"
      using Cons.prems(2) by (auto split: prod.splits)
    have "stands_for (accept w q) (insert q S)" using Cons.prems(1) False by (rule accept_adds)
    from Cons.IH [OF this a(1)] have "distinct acc' \<and> set acc' \<inter> insert q S = {} \<and> set acc' \<subseteq> set qs \<and>
        stands_for w' (insert q S \<union> set acc')" .
    moreover have "q \<notin> S" using False Cons.prems(1) accepted_rejected by blast
    moreover have "insert q S \<union> set acc' = S \<union> set acc" using a(2) by auto
    ultimately show ?thesis using a(2) by auto
  qed
qed simp

end

subsection \<open>The sliding window\<close>

text \<open>
  Bit \<open>k\<close> of the bitmap says whether \<open>rx_seq - k\<close> was accepted; the bitmap is a 64-bit
  number, and nothing above \<open>rx_seq\<close> was accepted.
\<close>

definition window_stands_for :: "session_info \<Rightarrow> int set \<Rightarrow> bool" where
  "window_stands_for i S \<longleftrightarrow>
     0 \<le> rx_window_bitmap i \<and> rx_window_bitmap i < 2 ^ 64 \<and>
     (\<forall>k<64. bit (rx_window_bitmap i) k \<longleftrightarrow> rx_seq i - int k \<in> S) \<and> (\<forall>q\<in>S. q \<le> rx_seq i)"

lemma push_bit_one_and: "((b :: int) AND push_bit n 1) \<noteq> 0 \<longleftrightarrow> bit b n"
  by (simp add: push_bit_eq_mult and_exp_eq_0_iff_not_bit)

lemma replayed_iff:
  "replayed q i \<longleftrightarrow> q \<le> rx_seq i - 64 \<or> (q \<le> rx_seq i \<and> bit (rx_window_bitmap i) (nat (rx_seq i - q)))"
  by (simp only: replayed_def push_bit_one_and)

lemma mask64: "(0xFFFFFFFFFFFFFFFF :: int) = mask 64"
  by (simp add: mask_eq_exp_minus_1)

lemma int_64_bit: "0 \<le> b \<and> b < 2 ^ 64 \<longleftrightarrow> (\<forall>k\<ge>64. \<not> bit b k)" for b :: int
proof
  assume b: "0 \<le> b \<and> b < 2 ^ 64"
  then have "take_bit 64 b = b" by (simp add: take_bit_int_eq_self_iff)
  then show "\<forall>k\<ge>64. \<not> bit b k" by (metis bit_take_bit_iff leD)
next
  assume k: "\<forall>k\<ge>64. \<not> bit b k"
  have "take_bit 64 b = b" by (rule bit_eqI) (metis k bit_take_bit_iff not_le)
  then show "0 \<le> b \<and> b < 2 ^ 64" by (simp add: take_bit_int_eq_self_iff)
qed

lemma replayed_spec:
  assumes "window_stands_for i S"
  shows "replayed q i \<longleftrightarrow> q \<le> rx_seq i - 64 \<or> q \<in> S"
proof (cases "q \<le> rx_seq i - 64 \<or> rx_seq i < q")
  case True
  then show ?thesis using assms by (auto simp: replayed_iff window_stands_for_def)
next
  case False
  then have "nat (rx_seq i - q) < 64" "rx_seq i - int (nat (rx_seq i - q)) = q" by auto
  then show ?thesis using False assms by (simp add: replayed_iff window_stands_for_def)
qed

lemma window_update_bits:
  assumes "rx_seq i < q"
  shows "bit (rx_window_bitmap (window_update q i)) k \<longleftrightarrow>
    k = 0 \<or> (k < 64 \<and> q - int k \<le> rx_seq i \<and> bit (rx_window_bitmap i) (nat (rx_seq i - (q - int k))))"
proof (cases "q - rx_seq i < 64")
  case True
  have "nat (q - rx_seq i) \<le> k \<longleftrightarrow> q - int k \<le> rx_seq i" by linarith
  moreover have "k - nat (q - rx_seq i) = nat (rx_seq i - (q - int k))" if "q - int k \<le> rx_seq i"
    using that assms by linarith
  ultimately show ?thesis
    using True assms
    by (auto simp: window_update_def Let_def mask64 bit_or_iff bit_and_iff bit_mask_iff bit_push_bit_iff bit_1_iff)
next
  case False
  then show ?thesis using assms by (auto simp: window_update_def Let_def bit_1_iff)
qed

lemma window_update_old_bits:
  "q \<le> rx_seq i \<Longrightarrow>
    bit (rx_window_bitmap (window_update q i)) k \<longleftrightarrow> bit (rx_window_bitmap i) k \<or> k = nat (rx_seq i - q)"
  by (auto simp: window_update_def bit_or_iff bit_push_bit_iff bit_1_iff bit_exp_iff)

lemma window_update_rx_seq [simp]: "rx_seq (window_update q i) = max (rx_seq i) q"
  by (simp add: window_update_def Let_def)

lemma window_update_keeps [simp]:
  "session_id (window_update q i) = session_id i" "tx_seq (window_update q i) = tx_seq i"
  "tx_key (window_update q i) = tx_key i" "rx_key (window_update q i) = rx_key i"
  "cipher_suite (window_update q i) = cipher_suite i" "device_id (window_update q i) = device_id i"
  by (simp_all add: window_update_def Let_def)

lemma window_update_spec:
  assumes w: "window_stands_for i S" and q: "\<not> replayed q i"
  shows "window_stands_for (window_update q i) (insert q S)"
proof -
  let ?b = "rx_window_bitmap (window_update q i)"
  have old: "\<forall>k\<ge>64. \<not> bit (rx_window_bitmap i) k" using w int_64_bit [of "rx_window_bitmap i"] by (auto simp: window_stands_for_def)
  have S: "bit (rx_window_bitmap i) k \<longleftrightarrow> rx_seq i - int k \<in> S" if "k < 64" for k
    using w that by (simp add: window_stands_for_def)
  have top: "p \<le> rx_seq i" if "p \<in> S" for p using w that by (simp add: window_stands_for_def)
  have lo: "rx_seq i - 64 < q" using q by (simp add: replayed_iff)
  have "(\<forall>k\<ge>64. \<not> bit ?b k) \<and> (\<forall>k<64. bit ?b k \<longleftrightarrow> max (rx_seq i) q - int k \<in> insert q S)"
  proof (cases "rx_seq i < q")
    case True
    have "bit ?b k \<longleftrightarrow> q - int k \<in> insert q S" if "k < 64" for k
    proof (cases "q - int k \<le> rx_seq i")
      case le: True
      then have "nat (rx_seq i - (q - int k)) < 64" using that True by linarith
      from S [OF this] le show ?thesis using window_update_bits [OF True, of k] that by auto
    next
      case False
      then show ?thesis using window_update_bits [OF True, of k] top [of "q - int k"] that by auto
    qed
    moreover have "\<not> bit ?b k" if "64 \<le> k" for k using window_update_bits [OF True, of k] that by simp
    ultimately show ?thesis using True by (simp add: max_def)
  next
    case False
    then have n: "nat (rx_seq i - q) < 64" using lo by linarith
    have "bit ?b k \<longleftrightarrow> rx_seq i - int k \<in> insert q S" if "k < 64" for k
      using window_update_old_bits [of q i k] False S [OF that] by auto
    moreover have "\<not> bit ?b k" if "64 \<le> k" for k using window_update_old_bits [of q i k] False old n that by auto
    ultimately show ?thesis using False by (simp add: max_def)
  qed
  then show ?thesis using int_64_bit [of ?b] top by (force simp: window_stands_for_def)
qed

interpretation udp_window: anti_replay "\<lambda>i q. replayed q i" "\<lambda>i q. window_update q i" window_stands_for
  by unfold_locales (simp_all add: window_update_spec replayed_spec)

interpretation tcp_counter: anti_replay "\<lambda>i q. q \<noteq> rx_seq i" "\<lambda>i q. i\<lparr>rx_seq := rx_seq i + 1\<rparr>"
  "\<lambda>i S. \<forall>q\<in>S. q < rx_seq i"
  by unfold_locales auto

lemma window_stands_for_fresh:
  "rx_seq i = 0 \<Longrightarrow> rx_window_bitmap i = 0 \<Longrightarrow> window_stands_for i {}"
  by (simp add: window_stands_for_def)

lemma accepted_rx_seq:
  "accepted (\<lambda>i q. replayed q i) (\<lambda>i q. window_update q i) i qs = (acc, i') \<Longrightarrow>
    rx_seq i' = Max (insert (rx_seq i) (set acc))"
proof (induction qs arbitrary: i acc)
  case (Cons q qs)
  have M: "Max (insert (max a b) A) = Max (insert a (insert b A))" if "finite A" for a b :: int and A
    using that by (cases "A = {}") (simp_all add: max.assoc)
  show ?case
  proof (cases "replayed q i")
    case True
    then show ?thesis using Cons by simp
  next
    case False
    then obtain acc' where "accepted (\<lambda>i q. replayed q i) (\<lambda>i q. window_update q i) (window_update q i) qs = (acc', i')"
        "acc = q # acc'"
      using Cons.prems by (auto split: prod.splits)
    then show ?thesis using Cons.IH M by simp
  qed
qed simp

subsection \<open>Properties\<close>

text \<open>
  C11. The bitmap implements the set of accepted sequence numbers: from a fresh window, over
  any sequence of arrivals, no number is accepted twice; at the end a number is rejected
  exactly when it was accepted before or lies 64 or more below the highest number accepted
  (or below 0, with nothing accepted above it); and the bitmap stays a 64-bit number.
\<close>

theorem replay_window_implements_set:
  assumes "rx_seq i = 0" "rx_window_bitmap i = 0"
    and "accepted (\<lambda>i q. replayed q i) (\<lambda>i q. window_update q i) i qs = (acc, i')"
  shows "distinct acc \<and> set acc \<subseteq> set qs \<and>
    (\<forall>q. replayed q i' \<longleftrightarrow> q \<in> set acc \<or> q \<le> rx_seq i' - 64) \<and>
    rx_seq i' = Max (insert 0 (set acc)) \<and> 0 \<le> rx_window_bitmap i' \<and> rx_window_bitmap i' < 2 ^ 64"
proof -
  have w: "distinct acc \<and> set acc \<inter> {} = {} \<and> set acc \<subseteq> set qs \<and> window_stands_for i' ({} \<union> set acc)"
    using window_stands_for_fresh [OF assms(1,2)] assms(3) by (rule udp_window.accepted_fresh)
  have "rx_seq i' = Max (insert (rx_seq i) (set acc))" using assms(3) by (rule accepted_rx_seq)
  then show ?thesis using w replayed_spec [of i' "set acc"] assms(1) by (auto simp: window_stands_for_def)
qed

theorem replay_window_implements_set_witness:
  "\<exists>i'. accepted (\<lambda>i q. replayed q i) (\<lambda>i q. window_update q i)
      \<lparr>device_id = [], session_id = [], tx_key = [], rx_key = [], tx_seq = 0, rx_seq = 0, rx_window_bitmap = 0,
       cipher_suite = AES256_GCM\<rparr> [3, 1, 3, 70, 2, 1] = ([3, 1, 70], i') \<and> replayed 70 i' \<and> rx_seq i' = 70"
proof -
  let ?i = "\<lparr>device_id = [], session_id = [], tx_key = [], rx_key = [], tx_seq = 0, rx_seq = 0, rx_window_bitmap = 0,
       cipher_suite = AES256_GCM\<rparr>"
  obtain i' where i: "accepted (\<lambda>i q. replayed q i) (\<lambda>i q. window_update q i) ?i [3, 1, 3, 70, 2, 1] = ([3, 1, 70], i')"
    by (simp add: replayed_iff window_update_def Let_def bit_or_iff bit_push_bit_iff bit_and_iff)
  from replay_window_implements_set [OF _ _ this] have "\<forall>q. replayed q i' \<longleftrightarrow> q \<in> set [3, 1, 70] \<or> q \<le> rx_seq i' - 64"
    "rx_seq i' = Max (insert 0 (set [3, 1, 70]))" by simp_all
  then show ?thesis using i by auto
qed

lemma monotonic_info [simp]: "info (snd (monotonic clk s)) = info s"
  by (simp add: monotonic_def)

lemma receive_frame_SomeD:
  assumes "receive_frame c T clk s = (Done (Some (f, pt)), s')"
  shows "\<exists>t nonce. t_read_frame T True (transport s) = (Done f, t) \<and> (is_reliable T \<or> \<not> replayed (f_seq f) (info s)) \<and>
    nonce = le_bytes 4 (f_seq f) @ take 8 (session_id (info s)) \<and> 0 \<le> f_seq f \<and> f_seq f < 2 ^ 32 \<and>
    decrypt c (rx_key (info s)) nonce (f_seq f) (packet_type_value (f_type f)) (f_version f) (f_magic f) (f_length f)
      (f_payload f) (cipher_suite (info s)) = Inr pt \<and>
    s' = s\<lparr>transport := t, ticks := Suc (ticks s), last_recv := clk (ticks s)\<rparr>"
  using assms
  by (auto simp: receive_frame_def coro_catch_def coro_bind_def on_transport_def coro_lift_def monotonic_def Let_def
      I.pack_ok split: io.splits prod.splits if_splits sum.splits)

lemma receive_frame_NoneD:
  assumes "receive_frame c T clk s = (Done None, s')"
  shows "\<not> is_reliable T \<and> (\<exists>r t. t_read_frame T True (transport s) = (r, t) \<and> s' = s\<lparr>transport := t\<rparr> \<and>
    ((\<exists>f. r = Done f) \<or> (\<exists>e. r = Raise e \<and> catches [USMPError, StructError] e)))"
  using assms
  by (auto simp: receive_frame_def coro_catch_def coro_bind_def on_transport_def coro_lift_def monotonic_def Let_def
      split: io.splits prod.splits if_splits sum.splits)

text \<open>
  C13. Over UDP a frame that the session processes was decrypted under the current receive key,
  is not among those processed before in this key epoch and at most 63 behind the newest of
  them, and processing it adds exactly its number to the window. A datagram that is dropped
  instead (replayed, too old, malformed or not authentic) changes nothing but the transport's
  buffer.
\<close>

theorem udp_session_replay_safe:
  assumes "\<not> is_reliable T" "window_stands_for (info s) S" "receive_frame c T clk s = (Done received, s1)"
  shows "case received of
      None \<Rightarrow> s1 = s\<lparr>transport := transport s1\<rparr>
    | Some (f, pt) \<Rightarrow> f_seq f \<notin> S \<and> rx_seq (info s) - 64 < f_seq f \<and>
        decrypt c (rx_key (info s)) (le_bytes 4 (f_seq f) @ take 8 (session_id (info s))) (f_seq f)
          (packet_type_value (f_type f)) (f_version f) (f_magic f) (f_length f) (f_payload f)
          (cipher_suite (info s)) = Inr pt \<and>
        (\<forall>s2. accept_seq T (f_seq f) s1 = (Done (), s2) \<longrightarrow> window_stands_for (info s2) (insert (f_seq f) S))"
proof (cases received)
  case None
  then show ?thesis using receive_frame_NoneD [of c T clk s s1] assms(3) by auto
next
  case (Some fp)
  obtain f pt where fp: "fp = (f, pt)" by (cases fp)
  note r = receive_frame_SomeD [OF assms(3) [unfolded Some fp]]
  have n: "\<not> replayed (f_seq f) (info s)" and i: "info s1 = info s" using r assms(1) by auto
  have "f_seq f \<notin> S" "rx_seq (info s) - 64 < f_seq f" using n replayed_spec [OF assms(2)] by auto
  moreover have "window_stands_for (info s2) (insert (f_seq f) S)" if "accept_seq T (f_seq f) s1 = (Done (), s2)" for s2
    using that assms(1) window_update_spec [OF assms(2) n] i by (auto simp: accept_seq_def split: if_splits)
  ultimately show ?thesis using r by (auto simp: Some fp)
qed

text \<open>
  Over TCP a frame is processed only when its number is the next expected one, and then
  the expected number grows by one; any other number ends the session with
  \<open>SequenceError\<close> and leaves the counters as they were.
\<close>

lemma tcp_session_strict_order:
  assumes "is_reliable T" "receive_frame c T clk s = (Done received, s1)"
  shows "\<exists>f pt. received = Some (f, pt) \<and>
    (if f_seq f < 0xFFFFFFFF \<and> f_seq f = rx_seq (info s)
     then accept_seq T (f_seq f) s1 = (Done (), s1\<lparr>info := (info s)\<lparr>rx_seq := rx_seq (info s) + 1\<rparr>\<rparr>)
     else accept_seq T (f_seq f) s1 = (Raise SequenceError, s1) \<and> info s1 = info s)"
proof (cases received)
  case None
  then show ?thesis using receive_frame_NoneD [of c T clk s s1] assms by simp
next
  case (Some fp)
  obtain f pt where fp: "fp = (f, pt)" by (cases fp)
  have "info s1 = info s" using receive_frame_SomeD [OF assms(2) [unfolded Some fp]] by auto
  then show ?thesis using assms(1) by (auto simp: Some fp accept_seq_def)
qed

end
