(* ===== verification/Session_Steps.thy ===== *)
theory Session_Steps
  imports Session
begin

text \<open>
  What an application can do with a session, as a step relation over any transport, and the
  induction principle for it: a relation on sessions that holds across the few atomic
  sections of \<open>_session.py\<close> holds across every operation.
\<close>

text \<open>Everything the application can do with a session.\<close>

inductive session_step :: "crypto \<Rightarrow> 't transport_ops \<Rightarrow> (nat \<Rightarrow> seconds) \<Rightarrow> 't session \<Rightarrow> 't session \<Rightarrow> bool"
  for c T clk where
  sends: "send c T data s = (r, s') \<Longrightarrow> session_step c T clk s s'"
| pings: "ping c T s = (r, s') \<Longrightarrow> session_step c T clk s s'"
| rekeys: "rekey c T salt s = (r, s') \<Longrightarrow> session_step c T clk s s'"
| receives: "recv fuel c T clk timeout s = Some (r, s') \<Longrightarrow> session_step c T clk s s'"
| closes: "bye c T s = (r, s') \<Longrightarrow> session_step c T clk s s'"
| network: "session_step c T clk s (s\<lparr>transport := t\<rparr>)"

inductive session_reachable :: "crypto \<Rightarrow> 't transport_ops \<Rightarrow> (nat \<Rightarrow> seconds) \<Rightarrow> 't session \<Rightarrow> bool" for c T clk where
  created: "SessionInfo dev sid txk rxk = Inr i \<Longrightarrow> session_reachable c T clk (USMPSession t i timeout clk)"
| stepped: "session_reachable c T clk s \<Longrightarrow> session_step c T clk s s' \<Longrightarrow> session_reachable c T clk s'"

lemma on_transport_keeps:
  "on_transport m s = (r, s') \<Longrightarrow> info s' = info s \<and> s_closed s' = s_closed s \<and> last_recv s' = last_recv s"
  by (auto simp: on_transport_def split: prod.splits)

lemma receive_frame_keeps:
  "receive_frame c T clk s = (r, s') \<Longrightarrow> info s' = info s \<and> s_closed s' = s_closed s"
  by (auto simp: receive_frame_def coro_catch_def coro_bind_def on_transport_def coro_lift_def monotonic_def Let_def
      split: io.splits prod.splits if_splits sum.splits)

subsection \<open>Relations that hold across the atomic sections\<close>

locale session_sections =
  fixes c :: crypto
    and T :: "'t transport_ops"
    and P :: "'t session \<Rightarrow> 't session \<Rightarrow> bool"
  assumes same [simp]: "P s s"
    and chain: "P s s1 \<Longrightarrow> P s1 s2 \<Longrightarrow> P s s2"
    and quiet: "info s' = info s \<Longrightarrow> s_closed s' = s_closed s \<Longrightarrow> P s s'"
    and send_locked: "send_encrypted_locked c T ptype pt s = (r, s') \<Longrightarrow> ptype \<noteq> BYE \<Longrightarrow> P s s'"
    and says_bye: "bye c T s = (r, s') \<Longrightarrow> P s s'"
    and rotate: "P s (rotate_keys T (derive_rekey_keys c b (tx_key (info s)) (rx_key (info s)) (session_id (info s)) salt) s)"
    and accept: "receive_frame c T clk s = (Done (Some (f, pt)), s1) \<Longrightarrow> accept_seq T (f_seq f) s1 = (r, s') \<Longrightarrow> P s1 s'"
begin

lemma path_send_loop: "send_loop c' T' data offset s = (r, s') \<Longrightarrow> c' = c \<Longrightarrow> T' = T \<Longrightarrow> P s s'"
proof (induction c' T' data offset s arbitrary: r s' rule: send_loop.induct)
  case (1 c' T' data offset s)
  note [simp] = 1(3,4)
  show ?case
  proof (cases "offset < length data \<or> length data = 0")
    case False
    then show ?thesis using 1(2) by (simp add: send_loop.simps)
  next
    case True
    let ?chunk = "py_slice offset (offset + USMP_MAX_DATA_LEN) data"
    let ?ty = "if offset + length ?chunk < length data then DATA_FRAG else DATA"
    obtain r1 s1 where s1: "send_encrypted_locked c T ?ty ?chunk s = (r1, s1)" by fastforce
    have p: "P s s1" using s1 by (rule send_locked) simp
    show ?thesis
    proof (cases "\<exists>u. r1 = Done u \<and> length data \<noteq> 0")
      case rec: True
      then have "send_loop c T data (offset + length ?chunk) s1 = (r, s')"
        using 1(2) True s1 by (subst (asm) send_loop.simps) (auto simp: Let_def)
      moreover have "P s1 s'"
        using 1(1) [OF True refl refl refl] s1 rec calculation by auto
      ultimately show ?thesis using p chain by blast
    next
      case False
      then have "s' = s1"
        using 1(2) True s1 by (subst (asm) send_loop.simps) (cases r1; auto simp: Let_def split: if_splits)
      then show ?thesis using p by simp
    qed
  qed
qed

lemma path_rekey: "rekey c T salt s = (r, s') \<Longrightarrow> P s s'"
proof -
  assume r: "rekey c T salt s = (r, s')"
  obtain r1 s1 where s1: "send_encrypted_locked c T REKEY salt s = (r1, s1)" by fastforce
  have "P s s1" using s1 by (rule send_locked) simp
  moreover have "P s1 s'" using r s1 by (cases r1) (auto simp: rekey_def coro_bind_def rotate)
  ultimately show ?thesis by (rule chain)
qed

lemma path_control: "handle_control c T clk ptype l s = (r, s') \<Longrightarrow> P s s'"
proof -
  assume r: "handle_control c T clk ptype l s = (r, s')"
  obtain r1 s1 where s1: "(if ptype = PING then send_pong c T else coro_return ()) s = (r1, s1)" by fastforce
  have "P s s1"
    using s1 send_locked [of PONG "[]" s r1 s1]
    by (auto simp: send_pong_def send_encrypted_def coro_return_def split: if_splits)
  moreover have "info s' = info s1 \<and> s_closed s' = s_closed s1 \<or> s' = s"
    using r s1 by (cases r1) (auto simp: handle_control_def coro_bind_def coro_raise_def coro_return_def monotonic_def
        Let_def split: if_splits)
  then have "P s1 s' \<or> s' = s" using quiet [of s' s1] by auto
  ultimately show ?thesis using chain by auto
qed

lemma path_dispatch: "dispatch_frame c T clk f pt l s = (r, s') \<Longrightarrow> P s s'"
proof -
  assume r: "dispatch_frame c T clk f pt l s = (r, s')"
  let ?body = "if f_type f = BYE then coro_raise ConnectionClosedError
        else if f_type f = PING \<or> f_type f = PONG then handle_control c T clk (f_type f) l
        else if f_type f = REKEY then handle_rekey c T pt l
        else if f_type f \<noteq> DATA \<and> f_type f \<noteq> DATA_FRAG then coro_raise ValueError
        else coro_lift (handle_data (f_type f) (f_seq f) pt l)"
  obtain r1 s1 where s1: "?body s = (r1, s1)" by fastforce
  have "s' = s1" using r s1 unfolding dispatch_frame_def coro_catch_def by (auto split: io.splits if_splits)
  moreover have "P s s1"
    using s1
    by (auto simp: coro_raise_def coro_lift_def handle_rekey_def rotate dest: path_control
        split: if_splits sum.splits)
  ultimately show ?thesis by simp
qed

lemma path_turn: "recv_turn c T clk l s = (r, s') \<Longrightarrow> P s s'"
proof -
  assume r: "recv_turn c T clk l s = (r, s')"
  obtain r1 s1 where s1: "receive_frame c T clk s = (r1, s1)" by fastforce
  have p: "P s s1" using receive_frame_keeps [OF s1] by (intro quiet) simp_all
  show ?thesis
  proof (cases "\<exists>f pt. r1 = Done (Some (f, pt))")
    case False
    then have "s' = s1" using r s1 by (cases r1) (auto simp: recv_turn_def coro_bind_def coro_return_def split: option.splits)
    then show ?thesis using p by simp
  next
    case True
    then obtain f pt where f: "r1 = Done (Some (f, pt))" by blast
    obtain r2 s2 where s2: "accept_seq T (f_seq f) s1 = (r2, s2)" by fastforce
    have p2: "P s1 s2" using s1 [unfolded f] s2 by (rule accept)
    have "s' = s2 \<or> (\<exists>r. dispatch_frame c T clk f pt l s2 = (r, s'))"
      using r s1 f s2 by (cases r2) (auto simp: recv_turn_def coro_bind_def)
    then have "P s2 s'" by (auto dest: path_dispatch)
    then show ?thesis using chain [OF p] chain [OF p2] by blast
  qed
qed

lemma path_loop: "recv_loop fuel c T clk l s = Some (r, s') \<Longrightarrow> P s s'"
proof (induction fuel arbitrary: l s)
  case (Suc fuel)
  obtain r1 s1 where s1: "recv_turn c T clk l s = (r1, s1)" by fastforce
  have p: "P s s1" using s1 by (rule path_turn)
  have "s' = s1 \<or> (\<exists>l'. recv_loop fuel c T clk l' s1 = Some (r, s'))"
    using Suc.prems s1 by (auto split: io.splits recv_ctl.splits)
  then show ?case using p Suc.IH chain by blast
qed simp

lemma recv_path: "recv fuel c T clk timeout s = Some (r, s') \<Longrightarrow> P s s'"
proof -
  assume r: "recv fuel c T clk timeout s = Some (r, s')"
  have "P s (s\<lparr>ticks := Suc (ticks s)\<rparr>)" by (rule quiet) simp_all
  moreover have "P (s\<lparr>ticks := Suc (ticks s)\<rparr>) s'"
    using r by (auto simp: recv_def recv_internal_def Let_def split: option.splits if_splits dest: path_loop)
  ultimately show ?thesis by (rule chain)
qed

lemma path_step: "session_step c T clk s s' \<Longrightarrow> P s s'"
proof (induction rule: session_step.induct)
  case (sends data s r s')
  then show ?case using path_send_loop [OF _ HOL.refl HOL.refl] by (auto simp: send_def split: if_splits)
next
  case (pings s r s')
  then show ?case by (auto simp: ping_def send_encrypted_def dest: send_locked)
next
  case (network s t)
  show ?case by (rule quiet) simp_all
qed (auto dest: path_rekey recv_path says_bye)

end

end
