(* ===== verification/Nonces.thy ===== *)
theory Nonces
  imports Session_Steps
begin

text \<open>
  Nonce uniqueness. The atomic sections of \<open>_session.py\<close> that touch the transmit state are
  the sealing part of \<open>_send_encrypted_locked\<close>, the key rotation of \<open>rekey\<close> and of the
  REKEY branch of \<open>recv\<close>, and the setting of \<open>_closed\<close> in \<open>bye\<close>; tasks interleave
  only between them. \<open>tx_run c i cl pend epoch lg\<close> holds of every state the session info
  can reach: \<open>lg\<close> lists the (epoch, key, nonce) of everything sealed so far, an epoch being
  the life of one key pair; \<open>cl\<close> is \<open>_closed\<close>, and \<open>pend\<close> says that \<open>bye\<close> has set
  it and has not sealed its frame yet.
\<close>

type_synonym seal_log = "(nat \<times> bytes \<times> bytes) list"

inductive tx_run :: "crypto \<Rightarrow> session_info \<Rightarrow> bool \<Rightarrow> bool \<Rightarrow> nat \<Rightarrow> seal_log \<Rightarrow> bool" for c where
  start: "tx_seq i = 0 \<Longrightarrow> length (session_id i) = 16 \<Longrightarrow> tx_run c i False False 0 []"
| seal_frame: "tx_run c i cl pend e lg \<Longrightarrow> ptype \<noteq> BYE \<Longrightarrow> seal c ptype pt i = Inr (ct, q, i') \<Longrightarrow>
    tx_run c i' cl pend e (lg @ [(e, tx_key i, take 12 ct)])"
| bye_begins: "tx_run c i False False e lg \<Longrightarrow> tx_run c i True True e lg"
| bye_sealed: "tx_run c i True True e lg \<Longrightarrow> seal c BYE pt i = Inr (ct, q, i') \<Longrightarrow>
    tx_run c i' True False e (lg @ [(e, tx_key i, take 12 ct)])"
| bye_given_up: "tx_run c i True True e lg \<Longrightarrow> tx_run c i True False e lg"
| rotated: "tx_run c i cl pend e lg \<Longrightarrow> tx_seq i' = 0 \<Longrightarrow> session_id i' = session_id i \<Longrightarrow>
    tx_run c i' cl pend (Suc e) lg"
| received: "tx_run c i cl pend e lg \<Longrightarrow> tx_seq i' = tx_seq i \<Longrightarrow> session_id i' = session_id i \<Longrightarrow>
    tx_key i' = tx_key i \<Longrightarrow> tx_run c i' cl pend e lg"

definition nonce_of :: "session_info \<Rightarrow> int \<Rightarrow> bytes" where
  "nonce_of i q = le_bytes 4 q @ take 8 (session_id i)"

text \<open>The invariant, on the sequence numbers behind the nonces.\<close>

definition tx_inv :: "session_info \<Rightarrow> bool \<Rightarrow> bool \<Rightarrow> nat \<Rightarrow> (nat \<times> bytes \<times> int) list \<Rightarrow> bool" where
  "tx_inv i cl pend e qs \<longleftrightarrow>
     length (session_id i) = 16 \<and> 0 \<le> tx_seq i \<and> tx_seq i \<le> 0xFFFFFFFF \<and> (pend \<longrightarrow> cl) \<and>
     distinct (map (\<lambda>(e, k, q). (e, q)) qs) \<and>
     (\<forall>(e', k, q)\<in>set qs. 0 \<le> q \<and> q \<le> 0xFFFFFFFF \<and>
        (e' < e \<or> (e' = e \<and> k = tx_key i \<and>
           (q < tx_seq i \<or> (q = 0xFFFFFFFF \<and> tx_seq i = 0xFFFFFFFF \<and> cl \<and> \<not> pend))))) \<and>
     (\<forall>(e1, k1, _)\<in>set qs. \<forall>(e2, k2, _)\<in>set qs. e1 = e2 \<longrightarrow> k1 = k2)"

lemma seal_InrD:
  assumes "seal c ptype pt i = Inr (ct, q, i')"
  shows "q = tx_seq i \<and> 0 \<le> q \<and> q < 2 ^ 32 \<and> (ptype \<noteq> BYE \<longrightarrow> q < 0xFFFFFFFF) \<and>
    i' = i\<lparr>tx_seq := min (q + 1) 0xFFFFFFFF\<rparr> \<and>
    encrypt c (tx_key i) (nonce_of i q) q (packet_type_value ptype) USMP_VERSION USMP_MAGIC pt (cipher_suite i) = Inr ct"
  using assms by (auto simp: seal_def Let_def io_simps I.pack_ok nonce_of_def split: if_splits)

lemma nonce_of_inj:
  "0 \<le> p \<Longrightarrow> p \<le> 0xFFFFFFFF \<Longrightarrow> 0 \<le> q \<Longrightarrow> q \<le> 0xFFFFFFFF \<Longrightarrow> nonce_of i p = nonce_of i q \<longleftrightarrow> p = q"
  by (simp add: nonce_of_def le_bytes_inj del: le_bytes.simps)

lemma seal_nonce:
  "seal c ptype pt i = Inr (ct, q, i') \<Longrightarrow> length (session_id i) = 16 \<Longrightarrow> take 12 ct = nonce_of i q"
  using encrypt_Inr_nonce [of c "tx_key i" "nonce_of i q"] seal_InrD [of c ptype pt i ct q i']
  by (fastforce simp: nonce_of_def)

lemma tx_inv_seal:
  assumes i: "tx_inv i cl pend e qs" and s: "seal c ptype pt i = Inr (ct, q, i')"
    and b: "ptype = BYE \<Longrightarrow> cl \<and> pend"
  shows "tx_inv i' cl (pend \<and> ptype \<noteq> BYE) e (qs @ [(e, tx_key i, q)])"
proof -
  have q: "q = tx_seq i" "0 \<le> q" "q \<le> 0xFFFFFFFF" "ptype \<noteq> BYE \<Longrightarrow> q < 0xFFFFFFFF"
    "i' = i\<lparr>tx_seq := min (q + 1) 0xFFFFFFFF\<rparr>"
    using seal_InrD [OF s] by auto
  have fresh: "\<not> (q = 0xFFFFFFFF \<and> cl \<and> \<not> pend)" using q(4) b by auto
  then have new: "(e, q) \<notin> (\<lambda>(e, k, q). (e, q)) ` set qs" using i q(1) by (auto simp: tx_inv_def)
  show ?thesis
    using i new q b unfolding tx_inv_def
    by (cases "ptype = BYE") (auto simp: min_def)
qed

lemma seal_ok:
  assumes "aead_sized c" "length (tx_key i) = 32" "length (session_id i) = 16" "0 \<le> tx_seq i" "tx_seq i < 0xFFFFFFFF"
    and "length pt \<le> USMP_MAX_DATA_LEN"
  shows "\<exists>ct. seal c ptype pt i = Inr (nonce_of i (tx_seq i) @ ct, tx_seq i, i\<lparr>tx_seq := tx_seq i + 1\<rparr>) \<and>
    length ct = length pt + 16"
proof -
  have n: "length (nonce_of i (tx_seq i)) = 12" using assms(3) by (simp add: nonce_of_def)
  obtain ct where "encrypt c (tx_key i) (nonce_of i (tx_seq i)) (tx_seq i) (packet_type_value ptype) USMP_VERSION
      USMP_MAGIC pt (cipher_suite i) = Inr (nonce_of i (tx_seq i) @ ct)" "length ct = length pt + 16"
    using encrypt_ok [OF assms(1,2) n assms(4) _ assms(6)] assms(5) by fastforce
  then show ?thesis
    using assms(4,5) by (auto simp: seal_def Let_def I.pack_in_range nonce_of_def min_def)
qed

definition toy_info :: session_info where
  "toy_info = \<lparr>device_id = replicate 6 5, session_id = replicate 16 8, tx_key = replicate 32 1, rx_key = replicate 32 2,
     tx_seq = 0, rx_seq = 0, rx_window_bitmap = 0, cipher_suite = AES256_GCM\<rparr>"

definition log_of :: "session_info \<Rightarrow> (nat \<times> bytes \<times> int) list \<Rightarrow> seal_log" where
  "log_of i qs = map (\<lambda>(e, k, q). (e, k, nonce_of i q)) qs"

lemma log_of_cong: "session_id i' = session_id i \<Longrightarrow> log_of i' qs = log_of i qs"
  by (simp add: log_of_def nonce_of_def)

lemma tx_run_inv: "tx_run c i cl pend e lg \<Longrightarrow> \<exists>qs. lg = log_of i qs \<and> tx_inv i cl pend e qs"
proof (induction rule: tx_run.induct)
  case (start i)
  then show ?case by (intro exI [of _ "[]"]) (simp add: log_of_def tx_inv_def)
next
  case (seal_frame i cl pend e lg ptype pt ct q i')
  then obtain qs where qs: "lg = log_of i qs" "tx_inv i cl pend e qs" by blast
  have "tx_inv i' cl pend e (qs @ [(e, tx_key i, q)])"
    using tx_inv_seal [OF qs(2) seal_frame.hyps(3)] seal_frame.hyps(2) by simp
  moreover have "session_id i' = session_id i" "take 12 ct = nonce_of i q"
    using seal_InrD [OF seal_frame.hyps(3)] seal_nonce [OF seal_frame.hyps(3)] qs(2) by (auto simp: tx_inv_def)
  ultimately show ?case using qs(1) log_of_cong by (intro exI [of _ "qs @ [(e, tx_key i, q)]"]) (auto simp: log_of_def nonce_of_def)
next
  case (bye_begins i e lg)
  then show ?case by (fastforce simp: tx_inv_def)
next
  case (bye_sealed i e lg pt ct q i')
  then obtain qs where qs: "lg = log_of i qs" "tx_inv i True True e qs" by blast
  have "tx_inv i' True False e (qs @ [(e, tx_key i, q)])"
    using tx_inv_seal [OF qs(2) bye_sealed.hyps(2)] by simp
  moreover have "session_id i' = session_id i" "take 12 ct = nonce_of i q"
    using seal_InrD [OF bye_sealed.hyps(2)] seal_nonce [OF bye_sealed.hyps(2)] qs(2) by (auto simp: tx_inv_def)
  ultimately show ?case using qs(1) log_of_cong by (intro exI [of _ "qs @ [(e, tx_key i, q)]"]) (auto simp: log_of_def nonce_of_def)
next
  case (bye_given_up i e lg)
  then show ?case by (fastforce simp: tx_inv_def)
next
  case (rotated i cl pend e lg i')
  then obtain qs where qs: "lg = log_of i qs" "tx_inv i cl pend e qs" by blast
  have "tx_inv i' cl pend (Suc e) qs" using qs(2) rotated.hyps(2,3) by (fastforce simp: tx_inv_def)
  then show ?case using qs(1) log_of_cong [OF rotated.hyps(3)] by auto
next
  case (received i cl pend e lg i')
  then obtain qs where qs: "lg = log_of i qs" "tx_inv i cl pend e qs" by blast
  have "tx_inv i' cl pend e qs" using qs(2) received.hyps(2-4) by (simp add: tx_inv_def)
  then show ?case using qs(1) log_of_cong [OF received.hyps(3)] by auto
qed

lemma tx_inv_range: "tx_inv i cl pend e qs \<Longrightarrow> (e', k, q) \<in> set qs \<Longrightarrow> 0 \<le> q \<and> q \<le> 0xFFFFFFFF"
  unfolding tx_inv_def by (drule conjunct2, drule conjunct2, drule conjunct2, drule conjunct2, drule conjunct2,
      drule conjunct1, drule (1) bspec) simp

lemma distinct_log_of:
  assumes "tx_inv i cl pend e qs"
  shows "distinct (map (\<lambda>(e, k, n). (e, n)) (log_of i qs))"
proof -
  have "0 \<le> q \<and> q \<le> 0xFFFFFFFF" if "(e', k, q) \<in> set qs" for e' k q
    using tx_inv_range [OF assms that] .
  then have "inj_on (\<lambda>(e, q). (e, nonce_of i q)) (set (map (\<lambda>(e, k, q). (e, q)) qs))"
    by (intro inj_onI) (auto simp: nonce_of_inj)
  then have "distinct (map (\<lambda>(e, q). (e, nonce_of i q)) (map (\<lambda>(e, k, q). (e, q)) qs))"
    using assms by (simp only: distinct_map tx_inv_def)
  then show ?thesis by (simp add: log_of_def comp_def case_prod_unfold)
qed

lemma log_epoch_key:
  assumes "tx_inv i cl pend e qs" "(e1, k1, n1) \<in> set (log_of i qs)" "(e1, k2, n2) \<in> set (log_of i qs)"
  shows "k1 = k2"
  using assms unfolding tx_inv_def log_of_def by fastforce

subsection \<open>The property\<close>

text \<open>
  C5. No nonce is ever used twice with the same key: over every interleaving of sends, pings,
  pongs, closing and key rotations, including sends whose write fails, is cancelled or is
  retried, two frames sealed in the same key epoch have the same key and different nonces.
  So if the key derivation gives a new key in every epoch, no (key, nonce) pair repeats.
\<close>

theorem nonces_never_repeat:
  assumes "tx_run c i cl pend e lg"
  shows "distinct (map (\<lambda>(e, k, n). (e, n)) lg) \<and>
    (\<forall>(e1, k1, n1)\<in>set lg. \<forall>(e2, k2, n2)\<in>set lg. e1 = e2 \<longrightarrow> k1 = k2) \<and>
    ((\<forall>(e1, k1, n1)\<in>set lg. \<forall>(e2, k2, n2)\<in>set lg. e1 \<noteq> e2 \<longrightarrow> k1 \<noteq> k2) \<longrightarrow> distinct (map snd lg))"
proof -
  obtain qs where qs: "lg = log_of i qs" "tx_inv i cl pend e qs" using tx_run_inv [OF assms] by blast
  have d: "distinct (map (\<lambda>(e, k, n). (e, n)) lg)" using distinct_log_of [OF qs(2)] by (simp add: qs(1))
  moreover have "distinct (map snd lg)"
    if k: "\<forall>(e1, k1, n1)\<in>set lg. \<forall>(e2, k2, n2)\<in>set lg. e1 \<noteq> e2 \<longrightarrow> k1 \<noteq> k2"
  proof -
    have "inj_on snd (set lg)" using k by (fastforce simp: inj_on_def)
    moreover have "distinct lg" using d by (simp add: distinct_map)
    ultimately show ?thesis by (simp add: distinct_map)
  qed
  moreover have "\<forall>(e1, k1, n1)\<in>set lg. \<forall>(e2, k2, n2)\<in>set lg. e1 = e2 \<longrightarrow> k1 = k2"
    using log_epoch_key [OF qs(2)] unfolding qs(1) by blast
  ultimately show ?thesis by blast
qed

theorem nonces_never_repeat_witness:
  "\<exists>ct1 ct2 i1 i2 q1 q2.
     seal toy_crypto PING [] toy_info = Inr (ct1, q1, i1) \<and> seal toy_crypto DATA [1] i1 = Inr (ct2, q2, i2) \<and>
     take 12 ct1 \<noteq> take 12 ct2"
proof -
  have l: "length (tx_key toy_info) = 32" "length (session_id toy_info) = 16" "tx_seq toy_info = 0"
    by (simp_all add: toy_info_def)
  obtain ct1 q1 i1 where s1: "seal toy_crypto PING [] toy_info = Inr (ct1, q1, i1)"
    using seal_ok [OF toy_crypto_laws(4), of toy_info "[]" PING] l by (auto simp: USMP_MAX_DATA_LEN_def)
  have i1: "i1 = toy_info\<lparr>tx_seq := 1\<rparr>" using seal_InrD [OF s1] l(3) by simp
  obtain ct2 q2 i2 where s2: "seal toy_crypto DATA [1] i1 = Inr (ct2, q2, i2)"
    using seal_ok [OF toy_crypto_laws(4), of i1 "[1]" DATA] l by (auto simp: i1 usmp_consts)
  have "tx_run toy_crypto toy_info False False 0 []" using l by (intro tx_run.start)
  from tx_run.seal_frame [OF tx_run.seal_frame [OF this _ s1] _ s2]
  have "tx_run toy_crypto i2 False False 0 [(0, tx_key toy_info, take 12 ct1), (0, tx_key i1, take 12 ct2)]" by simp
  from nonces_never_repeat [OF this] show ?thesis using s1 s2 by auto
qed

subsection \<open>The operations of a session are such runs\<close>

text \<open>From \<open>s\<close> to \<open>s'\<close> the transmit state moves along atomic sections only.\<close>

definition tx_path :: "crypto \<Rightarrow> 't session \<Rightarrow> 't session \<Rightarrow> bool" where
  "tx_path c s s' \<longleftrightarrow>
     (\<forall>e lg. tx_run c (info s) (s_closed s) False e lg \<longrightarrow>
        (\<exists>e' lg'. tx_run c (info s') (s_closed s') False e' (lg @ lg')))"

lemma tx_path_refl [simp]: "tx_path c s s"
  unfolding tx_path_def by (metis append_Nil2)

lemma tx_path_same_log:
  "(\<And>e lg. tx_run c (info s) (s_closed s) False e lg \<Longrightarrow> \<exists>e'. tx_run c (info s') (s_closed s') False e' lg) \<Longrightarrow>
    tx_path c s s'"
  unfolding tx_path_def by (metis append_Nil2)

lemma tx_path_trans: "tx_path c s s1 \<Longrightarrow> tx_path c s1 s2 \<Longrightarrow> tx_path c s s2"
  unfolding tx_path_def by (metis append.assoc)

lemma tx_path_received:
  "tx_seq (info s') = tx_seq (info s) \<Longrightarrow> session_id (info s') = session_id (info s) \<Longrightarrow>
    tx_key (info s') = tx_key (info s) \<Longrightarrow> s_closed s' = s_closed s \<Longrightarrow> tx_path c s s'"
  by (rule tx_path_same_log) (auto intro: tx_run.received)

lemma tx_path_rotate: "tx_path c s (rotate_keys T keys s)"
proof (rule tx_path_same_log)
  fix e lg
  assume "tx_run c (info s) (s_closed s) False e lg"
  then have "tx_run c (info (rotate_keys T keys s)) (s_closed s) False (Suc e) lg"
    by (rule tx_run.rotated) (cases keys, simp_all add: rotate_keys_def)+
  moreover have "s_closed (rotate_keys T keys s) = s_closed s" by (cases keys) (simp add: rotate_keys_def)
  ultimately show "\<exists>e'. tx_run c (info (rotate_keys T keys s)) (s_closed (rotate_keys T keys s)) False e' lg"
    by auto
qed

lemma tx_path_send_locked:
  assumes "send_encrypted_locked c T ptype pt s = (r, s')" "ptype \<noteq> BYE"
  shows "tx_path c s s'"
proof (cases "seal c ptype pt (info s)")
  case (Inl e)
  then show ?thesis using assms(1) by (simp add: send_encrypted_locked_def)
next
  case (Inr x)
  obtain ct q i where x: "x = (ct, q, i)" by (cases x)
  have "info s' = i" "s_closed s' = s_closed s"
    using assms(1) Inr x on_transport_keeps [of _ "s\<lparr>info := i\<rparr>"] by (auto simp: send_encrypted_locked_def)
  then show ?thesis using tx_run.seal_frame [OF _ assms(2) Inr [unfolded x]] unfolding tx_path_def by metis
qed

lemma tx_path_bye: "bye c T s = (r, s') \<Longrightarrow> tx_path c s s'"
proof (cases "s_closed s")
  case True
  moreover assume "bye c T s = (r, s')"
  ultimately show ?thesis by (simp add: bye_def)
next
  case False
  assume r: "bye c T s = (r, s')"
  obtain r1 s1 where s1: "send_encrypted_locked c T BYE [] (s\<lparr>s_closed := True\<rparr>) = (r1, s1)" by fastforce
  have i: "info s' = info s1" "s_closed s' = s_closed s1"
    using r s1 False by (auto simp: bye_def send_encrypted_def Let_def split: io.splits if_splits)
  have run: "tx_run c (info s) True True e lg" if "tx_run c (info s) False False e lg" for e lg
    using that by (rule tx_run.bye_begins)
  show ?thesis
  proof (cases "seal c BYE [] (info s)")
    case (Inl e)
    then have "s1 = s\<lparr>s_closed := True\<rparr>" using s1 by (simp add: send_encrypted_locked_def)
    then show ?thesis using i False run tx_run.bye_given_up by (intro tx_path_same_log) fastforce
  next
    case (Inr x)
    obtain ct q j where x: "x = (ct, q, j)" by (cases x)
    have "info s1 = j" "s_closed s1"
      using s1 Inr x on_transport_keeps [of _ "s\<lparr>s_closed := True, info := j\<rparr>"]
      by (auto simp: send_encrypted_locked_def)
    then show ?thesis
      using i False tx_run.bye_sealed [OF run Inr [unfolded x]] unfolding tx_path_def by auto
  qed
qed

interpretation tx: session_sections c T "tx_path c" for c T
proof
  show "tx_path c s s1 \<Longrightarrow> tx_path c s1 s2 \<Longrightarrow> tx_path c s s2" for s s1 s2 by (rule tx_path_trans)
  show "accept_seq T (f_seq f) s1 = (r, s') \<Longrightarrow> tx_path c s1 s'" for f s1 r s'
    by (rule tx_path_received) (auto simp: accept_seq_def window_update_def Let_def split: if_splits)
qed (auto intro: tx_path_received tx_path_rotate dest: tx_path_send_locked tx_path_bye)

text \<open>A transport that accepts every frame and never has one to read.\<close>

definition toy_null :: "unit transport_ops" where
  "toy_null =
     \<lparr>is_reliable = True, t_read_frame = (\<lambda>vc t. (Waiting, t)), t_write_frame = (\<lambda>ty p q t. (Done (), t)),
      t_set_session_keys = (\<lambda>a b t. t), t_confirm_authenticated = (\<lambda>q t. t), t_peername = (\<lambda>t. PeerNone),
      t_close = (\<lambda>t. t)\<rparr>"

lemma bye_closes: "bye c T s = (r, s') \<Longrightarrow> s_closed s'"
proof -
  assume b: "bye c T s = (r, s')"
  obtain r1 s1 where s1: "send_encrypted_locked c T BYE [] (s\<lparr>s_closed := True\<rparr>) = (r1, s1)" by fastforce
  have "s_closed s1"
    using s1 on_transport_keeps by (fastforce simp: send_encrypted_locked_def split: sum.splits prod.splits)
  then show ?thesis using b s1 by (auto simp: bye_def send_encrypted_def Let_def split: io.splits if_splits)
qed



end
