(* ===== verification/Session_Types.thy ===== *)
theory Session_Types
  imports Replay Nonces
begin

text \<open>
  The fields of \<open>SessionInfo\<close> keep the types and ranges \<open>__post_init__\<close> and the wire
  format ask for, through everything a session does.
\<close>

definition wf_info :: "session_info \<Rightarrow> bool" where
  "wf_info i \<longleftrightarrow>
     length (device_id i) = USMP_DEVICE_ID_LEN \<and> length (session_id i) = USMP_SESSION_ID_LEN \<and>
     length (tx_key i) = USMP_SESSION_KEY_LEN \<and> length (rx_key i) = USMP_SESSION_KEY_LEN \<and>
     0 \<le> tx_seq i \<and> tx_seq i \<le> 0xFFFFFFFF \<and> 0 \<le> rx_seq i \<and> rx_seq i \<le> 0xFFFFFFFF \<and>
     0 \<le> rx_window_bitmap i \<and> rx_window_bitmap i < 2 ^ 64"

lemma wf_info_seal:
  assumes "seal c ptype pt i = Inr (ct, q, i')" "wf_info i"
  shows "wf_info i'"
  using seal_InrD [OF assms(1)] assms(2) by (auto simp: wf_info_def)

lemma wf_info_window:
  assumes "wf_info i" "0 \<le> q" "q \<le> 0xFFFFFFFF" "\<not> replayed q i"
  shows "wf_info (window_update q i)"
proof -
  let ?S = "{rx_seq i - int k |k. k < 64 \<and> bit (rx_window_bitmap i) k}"
  have "window_stands_for i ?S" using assms(1) by (auto simp: window_stands_for_def wf_info_def)
  from window_update_spec [OF this assms(4)] show ?thesis
    using assms(1-3) by (simp add: wf_info_def window_stands_for_def)
qed

lemma wf_info_rotate:
  assumes "hkdf_sized c" "wf_info (info s)"
  shows "wf_info (info (rotate_keys T (derive_rekey_keys c b txk rxk sid salt) s))"
  using assms
  by (auto simp: rotate_keys_def derive_rekey_keys_def Let_def hkdf_sized_def wf_info_def USMP_SESSION_KEY_LEN_def)

definition keeps_wf :: "crypto \<Rightarrow> 't session \<Rightarrow> 't session \<Rightarrow> bool" where
  "keeps_wf c s s' \<longleftrightarrow> (hkdf_sized c \<and> wf_info (info s) \<longrightarrow> wf_info (info s'))"

lemma keeps_wf_send:
  assumes "send_encrypted_locked c T ptype pt s = (r, s')"
  shows "keeps_wf c s s'"
proof (cases "seal c ptype pt (info s)")
  case (Inl e)
  then show ?thesis using assms by (simp add: send_encrypted_locked_def keeps_wf_def)
next
  case (Inr x)
  obtain ct q i where x: "x = (ct, q, i)" by (cases x)
  have "info s' = i" using assms Inr x on_transport_keeps [of _ "s\<lparr>info := i\<rparr>"] by (auto simp: send_encrypted_locked_def)
  then show ?thesis using wf_info_seal [OF Inr [unfolded x]] by (simp add: keeps_wf_def)
qed

lemma keeps_wf_bye:
  assumes "bye c T s = (r, s')"
  shows "keeps_wf c s s'"
proof (cases "s_closed s")
  case False
  obtain r1 s1 where s1: "send_encrypted_locked c T BYE [] (s\<lparr>s_closed := True\<rparr>) = (r1, s1)" by fastforce
  have "info s' = info s1"
    using assms s1 False by (auto simp: bye_def send_encrypted_def Let_def split: io.splits if_splits)
  then show ?thesis using keeps_wf_send [OF s1] by (simp add: keeps_wf_def)
qed (use assms in \<open>simp add: bye_def keeps_wf_def\<close>)

lemma keeps_wf_accept:
  assumes "receive_frame c T clk s = (Done (Some (f, pt)), s1)" "accept_seq T (f_seq f) s1 = (r, s')"
  shows "keeps_wf c s1 s'"
proof -
  have f: "is_reliable T \<or> \<not> replayed (f_seq f) (info s1)" "0 \<le> f_seq f" using receive_frame_SomeD [OF assms(1)] by auto
  then show ?thesis
    using assms(2) wf_info_window [of "info s1" "f_seq f"]
    by (auto simp: keeps_wf_def accept_seq_def wf_info_def split: if_splits)
qed

interpretation wf: session_sections c T "keeps_wf c" for c T
proof
  show "keeps_wf c s s1 \<Longrightarrow> keeps_wf c s1 s2 \<Longrightarrow> keeps_wf c s s2" for s s1 s2 by (simp add: keeps_wf_def)
  show "keeps_wf c s (rotate_keys T (derive_rekey_keys c b (tx_key (info s)) (rx_key (info s)) (session_id (info s)) salt) s)"
    for s b salt by (simp add: keeps_wf_def wf_info_rotate)
qed (auto simp: keeps_wf_def dest: keeps_wf_send keeps_wf_bye keeps_wf_accept)

text \<open>
  C12. Every session is well typed for ever: after any sequence of sends, pings, rekeys,
  receives and closes, with any outcome and over any transport, the device id has 6 bytes,
  the session id 16 and both keys 32, both sequence numbers fit 32 bits and the replay bitmap
  64 bits. In particular a nonce, a header and a key of the right size can always be built.
\<close>

theorem session_wellformed:
  assumes "session_reachable c T clk s" "hkdf_sized c"
  shows "wf_info (info s)"
  using assms(1)
proof (induction rule: session_reachable.induct)
  case (created dev sid txk rxk i t timeout)
  then show ?case by (auto simp: USMPSession_def SessionInfo_Inr wf_info_def usmp_consts)
next
  case (stepped s s')
  then show ?case using wf.path_step assms(2) unfolding keeps_wf_def by blast
qed

theorem session_wellformed_witness:
  "wf_info (info (snd (rekey toy_crypto toy_null (replicate 32 4) (USMPSession () toy_info None (\<lambda>n. 0)))))"
proof -
  let ?s = "USMPSession () toy_info None (\<lambda>n. 0)"
  have "SessionInfo (replicate 6 5) (replicate 16 8) (replicate 32 1) (replicate 32 2) = Inr toy_info"
    by (simp add: SessionInfo_Inr toy_info_def)
  then have r: "session_reachable toy_crypto toy_null (\<lambda>n. 0) ?s" by (rule session_reachable.created)
  obtain r s' where b: "rekey toy_crypto toy_null (replicate 32 4) ?s = (r, s')" by fastforce
  have "session_reachable toy_crypto toy_null (\<lambda>n. 0) s'"
    using r by (rule session_reachable.stepped) (rule session_step.rekeys [OF b])
  from session_wellformed [OF this toy_crypto_laws(3)] show ?thesis by (simp add: b)
qed

end
