(* ===== verification/Tcp.thy ===== *)
theory Tcp
  imports Transport
begin

text \<open>
  \<open>src/src/usmp/transport/tcp.py\<close>: \<open>TCPTransport\<close> over an asyncio stream pair. The reader
  is its buffered bytes and whether the end of the stream was seen; the writer is the bytes
  handed to it, in order, and whether the connection is gone. \<open>conn_lost\<close> and the arrival
  of bytes are the environment's.
\<close>

record tcp_transport =
  rbuf :: bytes
  at_eof :: bool
  wbuf :: bytes
  conn_lost :: bool
  w_closed :: bool
  tcp_peer :: peername

text \<open>\<open>StreamReader.readexactly\<close>: at the end of the stream the partial data is discarded.\<close>

definition tcp_readexactly :: "nat \<Rightarrow> (tcp_transport, bytes) coro" where
  "tcp_readexactly n t =
     (if n \<le> length (rbuf t) then (Done (take n (rbuf t)), t\<lparr>rbuf := drop n (rbuf t)\<rparr>)
      else if at_eof t then (Raise IncompleteReadError, t\<lparr>rbuf := []\<rparr>)
      else (Waiting, t))"

text \<open>\<open>StreamWriter.write\<close> drops data once the connection is gone; \<open>drain\<close> then raises.\<close>

definition tcp_write :: "bytes \<Rightarrow> (tcp_transport, unit) coro" where
  "tcp_write data t =
     (Done (), if conn_lost t \<or> w_closed t then t else t\<lparr>wbuf := wbuf t @ data\<rparr>)"

definition tcp_drain :: "(tcp_transport, unit) coro" where
  "tcp_drain t = (if conn_lost t \<or> w_closed t then (Raise ConnectionResetError, t) else (Done (), t))"

definition tcp_read_frame :: "bool \<Rightarrow> (tcp_transport, usmp_frame) coro" where
  "tcp_read_frame verify_crc = read_frame tcp_readexactly verify_crc"

definition tcp_write_frame :: "packet_type \<Rightarrow> bytes \<Rightarrow> int \<Rightarrow> (tcp_transport, unit) coro" where
  "tcp_write_frame ptype payload seq = write_frame tcp_write tcp_drain ptype payload seq"

definition tcp_close :: "tcp_transport \<Rightarrow> tcp_transport" where
  "tcp_close t = t\<lparr>w_closed := True\<rparr>"

definition tcp_ops :: "tcp_transport transport_ops" where
  "tcp_ops =
     \<lparr>is_reliable = True, t_read_frame = tcp_read_frame, t_write_frame = tcp_write_frame,
      t_set_session_keys = (\<lambda>txk rxk t. t), t_confirm_authenticated = (\<lambda>seq t. t),
      t_peername = tcp_peer, t_close = tcp_close\<rparr>"

text \<open>\<open>TCPTransport(reader, writer)\<close> on a fresh connection.\<close>

definition tcp_open :: "peername \<Rightarrow> tcp_transport" where
  "tcp_open peer =
     \<lparr>rbuf = [], at_eof = False, wbuf = [], conn_lost = False, w_closed = False, tcp_peer = peer\<rparr>"

definition tcp_live :: "tcp_transport \<Rightarrow> bool" where
  "tcp_live t \<longleftrightarrow> \<not> conn_lost t \<and> \<not> w_closed t"

definition tcp_advance :: "nat \<Rightarrow> tcp_transport \<Rightarrow> tcp_transport" where
  "tcp_advance n t = t\<lparr>rbuf := drop n (rbuf t)\<rparr>"

lemma tcp_update_order [simp]: "t\<lparr>wbuf := w, rbuf := b\<rparr> = t\<lparr>rbuf := b, wbuf := w\<rparr>"
  by simp

interpretation tcp_reader: byte_reader tcp_readexactly rbuf tcp_advance
  by unfold_locales (auto simp: tcp_readexactly_def tcp_advance_def add.commute)

lemma tcp_write_frame_ok:
  assumes "tcp_live t" "length p \<le> USMP_MAX_PAYLOAD" "0 \<le> s" "s < 2 ^ 32"
  shows "tcp_write_frame ptype p s t =
    (Done (), t\<lparr>wbuf := wbuf t @ frame_bytes USMP_VERSION ptype s p\<rparr>)"
  using assms
  by (simp add: tcp_write_frame_def write_frame_def coro_bind_def coro_lift_def encode_frame_ok
      tcp_write_def tcp_drain_def tcp_live_def)

lemma tcp_write_frame_keeps:
  "tcp_write_frame ptype p s t = (r, t') \<Longrightarrow> rbuf t' = rbuf t \<and> at_eof t' = at_eof t \<and> tcp_peer t' = tcp_peer t"
  by (auto simp: tcp_write_frame_def write_frame_def coro_bind_def coro_lift_def tcp_write_def tcp_drain_def
      split: sum.splits if_splits)

lemma tcp_read_frame_progress:
  assumes "tcp_read_frame vc t = (r, t')" "r \<noteq> Waiting" "r \<noteq> Raise IncompleteReadError"
  shows "length (rbuf t') < length (rbuf t)"
  using tcp_reader.read_frame_consumes [OF assms [unfolded tcp_read_frame_def]]
  by (auto simp: tcp_advance_def)

interpretation tcp: usmp_transport tcp_ops "\<lambda>t. length (rbuf t)"
proof unfold_locales
  fix vc t f t'
  assume "t_read_frame tcp_ops vc t = (Done f, t')"
  then have r: "tcp_read_frame vc t = (Done f, t')" by (simp add: tcp_ops_def)
  then show "wf_frame f" using tcp_reader.read_frame_Done_wf by (simp add: tcp_read_frame_def)
  show "length (rbuf t') < length (rbuf t)" using r by (rule tcp_read_frame_progress) simp_all
next
  fix vc t e t'
  assume "t_read_frame tcp_ops vc t = (Raise e, t')" "catches [USMPError, StructError] e"
  then show "length (rbuf t') < length (rbuf t)"
    by (intro tcp_read_frame_progress [of vc t "Raise e"]) (auto simp: tcp_ops_def)
next
  fix ptype payload seq t r t'
  assume "t_write_frame tcp_ops ptype payload seq t = (r, t')"
  then show "length (rbuf t') \<le> length (rbuf t)" by (simp add: tcp_ops_def tcp_write_frame_keeps)
next
  fix payload :: bytes and ptype seq t
  assume "USMP_MAX_PAYLOAD < length payload"
  then show "t_write_frame tcp_ops ptype payload seq t = (Raise PayloadError, t)"
    by (simp add: tcp_ops_def tcp_write_frame_def write_frame_def coro_bind_def coro_lift_def encode_frame_def)
qed (simp_all add: tcp_ops_def)

lemma tcp_read_frame_frame:
  assumes "length p \<le> USMP_MAX_PAYLOAD" "0 \<le> s" "s < 2 ^ 32" "rbuf t = frame_bytes USMP_VERSION ty s p @ rest"
  shows "tcp_read_frame vc t = (Done (mk_frame ty p s), t\<lparr>rbuf := rest\<rparr>)"
proof -
  have "tcp_advance (12 + length p) t = t\<lparr>rbuf := rest\<rparr>"
    using assms(4) by (simp add: tcp_advance_def USMP_HEADER_SIZE_def)
  then show ?thesis
    using tcp_reader.read_frame_frame [OF assms, of vc] by (simp add: tcp_read_frame_def)
qed

lemma tcp_read_bad_magic:
  assumes "12 \<le> length d" "take 2 d \<noteq> le_bytes 2 USMP_MAGIC"
  shows "tcp_read_frame vc (t\<lparr>rbuf := d\<rparr>) = (Raise MagicError, t\<lparr>rbuf := drop 12 d\<rparr>)"
proof -
  have "length (take 2 d) = 2" using assms(1) by simp
  then have "le_value (take 2 d) \<noteq> USMP_MAGIC"
    using assms(2) le_bytes_le_value [of "take 2 d"] by metis
  moreover have "unpack_H (take 12 d) 0 = Inr (le_value (take 2 d))"
    using assms(1) by (simp add: H.unpack_ok py_slice_0 numeral_2_eq_2)
  moreover have "tcp_readexactly 12 (t\<lparr>rbuf := d\<rparr>) = (Done (take 12 d), t\<lparr>rbuf := drop 12 d\<rparr>)"
    using assms(1) by (simp add: tcp_readexactly_def)
  ultimately show ?thesis
    by (simp add: tcp_read_frame_def read_frame_def coro_bind_def coro_lift_def coro_raise_def USMP_HEADER_SIZE_def)
qed

text \<open>
  A read that is cancelled while it waits for the payload of a frame has already taken
  the header off the stream. When the rest of that frame arrives, the next read takes its
  first twelve payload bytes for a header, and raises \<open>MagicError\<close> unless they happen to
  start with the magic number.
\<close>

lemma tcp_cancelled_read_desynchronises:
  assumes "length (a @ b) \<le> USMP_MAX_PAYLOAD" "0 \<le> s" "s < 2 ^ 32" "b \<noteq> []" "\<not> at_eof t"
    and "rbuf t @ b = frame_bytes USMP_VERSION ty s (a @ b)"
  shows "tcp_read_frame vc t = (Waiting, t\<lparr>rbuf := a\<rparr>) \<and>
    (12 \<le> length (a @ b) \<longrightarrow> take 2 (a @ b) \<noteq> le_bytes 2 USMP_MAGIC \<longrightarrow>
      tcp_read_frame vc (t\<lparr>rbuf := a @ b\<rparr>) = (Raise MagicError, t\<lparr>rbuf := drop 12 (a @ b)\<rparr>))"
proof (intro conjI impI)
  let ?m = "raw_frame USMP_MAGIC USMP_VERSION (packet_type_value ty) s (int (length (a @ b)))
    (frame_crc USMP_VERSION ty s (a @ b))"
  have "rbuf t @ b = ?m a @ b" using assms(6) by (simp add: frame_bytes_def raw_frame_def)
  then have r: "rbuf t = ?m a" by simp
  then have h: "tcp_readexactly 12 t = (Done (?m []), t\<lparr>rbuf := a\<rparr>)"
    by (simp add: tcp_readexactly_def drop12_raw_frame) (simp add: raw_frame_def)
  note u = raw_frame_unpack [OF frame_bytes_ranges [OF assms(1-3)], of ty "[]"]
  have w: "tcp_readexactly (nat (int (length a) + int (length b))) (t\<lparr>rbuf := a\<rparr>) = (Waiting, t\<lparr>rbuf := a\<rparr>)"
    using assms(4,5) by (cases b) (simp_all add: tcp_readexactly_def)
  have pos: "0 < int (length a) + int (length b)" using assms(4) by (cases b) simp_all
  show "tcp_read_frame vc t = (Waiting, t\<lparr>rbuf := a\<rparr>)"
    using assms(1) pos u h w
    by (simp add: tcp_read_frame_def read_frame_def coro_bind_def coro_lift_def USMP_HEADER_SIZE_def
        USMP_MAX_PAYLOAD_def)
next
  assume "12 \<le> length (a @ b)" "take 2 (a @ b) \<noteq> le_bytes 2 USMP_MAGIC"
  then show "tcp_read_frame vc (t\<lparr>rbuf := a @ b\<rparr>) = (Raise MagicError, t\<lparr>rbuf := drop 12 (a @ b)\<rparr>)"
    by (rule tcp_read_bad_magic)
qed

end
