(* ===== verification/Rate_Limiter.thy ===== *)
theory Rate_Limiter
  imports Errors Pydict
begin

text \<open>
  The failed-handshake limiter of \<open>src/src/usmp/_handshake.py\<close>: the module-level dict
  \<open>_failed_handshakes\<close> from a peer key to (fails, lockout_until, last_attempt_time), and
  \<open>record_failed_handshake\<close>. The clock value is an argument.
\<close>

type_synonym limiter = "(string, nat \<times> seconds \<times> seconds) dict"

text \<open>\<open>min(d.keys(), key=...)\<close>: the first key with the least time; \<open>ValueError\<close> on an empty dict.\<close>

fun min_by_time :: "string \<Rightarrow> seconds \<Rightarrow> limiter \<Rightarrow> string" where
  "min_by_time k t [] = k"
| "min_by_time k t ((k', _, _, t') # rest) =
     (if t' < t then min_by_time k' t' rest else min_by_time k t rest)"

definition oldest_key :: "limiter \<Rightarrow> string result" where
  "oldest_key tbl =
     (case tbl of
        [] \<Rightarrow> Inl ValueError
      | (k, _, _, t) # rest \<Rightarrow> Inr (min_by_time k t rest))"

text \<open>
  \<open>min(60.0, 2.0 ** n)\<close>: Python's float power raises \<open>OverflowError\<close> when the result is
  out of the range of a double, which for base 2 is from exponent 1024 on.
\<close>

definition backoff_seconds :: "nat \<Rightarrow> seconds result" where
  "backoff_seconds n = (if n \<ge> 1024 then Inl OverflowError else Inr (min 60 (2 ^ n)))"

definition lockout_for :: "nat \<Rightarrow> seconds \<Rightarrow> seconds result" where
  "lockout_for fails now =
     (if fails \<ge> 5 then bind_result (backoff_seconds (fails - 5)) (\<lambda>backoff. Inr (now + backoff))
      else Inr 0)"

definition expired :: "seconds \<Rightarrow> nat \<times> seconds \<times> seconds \<Rightarrow> bool" where
  "expired now v =
     (case v of (_, lockout_until, last_at) \<Rightarrow> now - last_at > 600 \<or> (lockout_until > 0 \<and> lockout_until < now))"

definition record_failed_handshake :: "seconds \<Rightarrow> string \<Rightarrow> limiter \<Rightarrow> limiter result" where
  "record_failed_handshake now limiter_key tbl =
     (let fails = Suc (case dict_get tbl limiter_key of Some (n, _, _) \<Rightarrow> n | None \<Rightarrow> 0) in
      bind_result (lockout_for fails now) (\<lambda>lockout_until.
      bind_result
        (if length tbl \<ge> 1000 \<and> \<not> dict_contains tbl limiter_key
         then bind_result (oldest_key tbl) (\<lambda>oldest. Inr (dict_pop tbl oldest))
         else Inr tbl) (\<lambda>tbl.
      let tbl = dict_set tbl limiter_key (fails, lockout_until, now)
      in Inr (dict_filter (\<lambda>k v. \<not> expired now v) tbl))))"

subsection \<open>The table invariant\<close>

text \<open>At most 1000 peers, each with at least one failure, and no lockout below five failures.\<close>

fun entry_ok :: "string \<times> nat \<times> seconds \<times> seconds \<Rightarrow> bool" where
  "entry_ok (k, n, lockout, last_at) \<longleftrightarrow> 0 < n \<and> (n < 5 \<longrightarrow> lockout = 0) \<and> lockout \<le> max 0 (last_at + 60)"

definition limiter_inv :: "limiter \<Rightarrow> bool" where
  "limiter_inv tbl \<longleftrightarrow> dict_ok tbl \<and> length tbl \<le> 1000 \<and> list_all entry_ok tbl"

definition fails_of :: "limiter \<Rightarrow> string \<Rightarrow> nat" where
  "fails_of tbl k = (case dict_get tbl k of Some (n, _, _) \<Rightarrow> n | None \<Rightarrow> 0)"

lemma min_by_time_mem: "min_by_time k t tbl \<in> insert k (set (map fst tbl))"
  by (induction k t tbl rule: min_by_time.induct) auto

lemma oldest_key_mem: "oldest_key tbl = Inr k \<Longrightarrow> dict_get tbl k \<noteq> None"
proof -
  assume o: "oldest_key tbl = Inr k"
  then obtain k0 n l t rest where tbl: "tbl = (k0, n, l, t) # rest" and "k = min_by_time k0 t rest"
    by (auto simp: oldest_key_def split: list.splits prod.splits)
  then have "k \<in> set (map fst tbl)" using min_by_time_mem [of k0 t rest] by auto
  then have "k \<in> dom (dict_get tbl)" by (simp add: dom_dict_get)
  then show ?thesis by blast
qed

lemma oldest_key_ok: "tbl \<noteq> [] \<Longrightarrow> \<exists>k. oldest_key tbl = Inr k"
  by (cases tbl) (auto simp: oldest_key_def)

lemma lockout_for_Inr:
  "lockout_for n now = Inr l \<longleftrightarrow>
     (if n \<ge> 5 then n < 1029 \<and> l = now + min 60 (2 ^ (n - 5)) else l = 0)"
  by (auto simp: lockout_for_def backoff_seconds_def)

lemma set_dict_set: "set (dict_set d k v) \<subseteq> insert (k, v) (set d)"
  by (induction d k v rule: dict_set.induct) auto

lemma list_all_dict_set: "list_all P d \<Longrightarrow> P (k, v) \<Longrightarrow> list_all P (dict_set d k v)"
  using set_dict_set [of d k v] by (auto simp: list_all_iff)

lemma list_all_dict_pop: "list_all P d \<Longrightarrow> list_all P (dict_pop d k)"
  by (auto simp: dict_pop_def list_all_iff)

text \<open>The table just before pruning.\<close>

lemma record_failed_handshakeE:
  assumes "record_failed_handshake now key tbl = Inr tbl'"
  obtains l base where "lockout_for (Suc (fails_of tbl key)) now = Inr l"
    and "(base = tbl \<and> (length tbl < 1000 \<or> dict_get tbl key \<noteq> None)) \<or>
         (\<exists>j. base = dict_pop tbl j \<and> dict_get tbl j \<noteq> None \<and> dict_get tbl key = None \<and> 1000 \<le> length tbl)"
    and "tbl' = dict_filter (\<lambda>k v. \<not> expired now v) (dict_set base key (Suc (fails_of tbl key), l, now))"
proof -
  obtain l base where l: "lockout_for (Suc (fails_of tbl key)) now = Inr l"
    and b: "(if length tbl \<ge> 1000 \<and> \<not> dict_contains tbl key
         then bind_result (oldest_key tbl) (\<lambda>oldest. Inr (dict_pop tbl oldest)) else Inr tbl) = Inr base"
    and t: "tbl' = dict_filter (\<lambda>k v. \<not> expired now v) (dict_set base key (Suc (fails_of tbl key), l, now))"
    using assms by (auto simp: record_failed_handshake_def Let_def io_simps fails_of_def)
  have "(base = tbl \<and> (length tbl < 1000 \<or> dict_get tbl key \<noteq> None)) \<or>
      (\<exists>j. base = dict_pop tbl j \<and> dict_get tbl j \<noteq> None \<and> dict_get tbl key = None \<and> 1000 \<le> length tbl)"
    using b by (auto simp: io_simps dict_contains_get simp del: not_None_eq split: if_splits dest: oldest_key_mem)
  with l t show ?thesis by (intro that)
qed

lemma limiter_inv_record:
  assumes i: "limiter_inv tbl" and r: "record_failed_handshake now key tbl = Inr tbl'"
  shows "limiter_inv tbl'"
  using r
proof (cases rule: record_failed_handshakeE)
  case (1 l base)
  let ?new = "dict_set base key (Suc (fails_of tbl key), l, now)"
  have ok: "dict_ok tbl" and len: "length tbl \<le> 1000" and all: "list_all entry_ok tbl"
    using i by (simp_all add: limiter_inv_def)
  have base: "dict_ok base" "list_all entry_ok base" using 1(2) ok all by (auto simp: dict_simps list_all_dict_pop)
  have "length ?new \<le> 1000"
    using 1(2) ok len pd.card_replace [OF ok, of _ key] by (auto simp: pd.card_put)
  moreover have "entry_ok (key, Suc (fails_of tbl key), l, now)"
    using 1(1) by (auto simp: lockout_for_Inr split: if_splits)
  then have "list_all entry_ok ?new" using base by (simp add: list_all_dict_set)
  ultimately show ?thesis
    using 1(3) base
    by (auto simp: limiter_inv_def dict_filter_def dict_ok_filter dict_simps list_all_iff
        intro: order_trans [OF length_filter_le])
qed

lemma length_dict_pop: "length (dict_pop d k) \<le> length d"
  by (simp add: dict_pop_def)

lemma limiter_inv_pop: "limiter_inv tbl \<Longrightarrow> limiter_inv (dict_pop tbl k)"
  using length_dict_pop [of tbl k] by (simp add: limiter_inv_def dict_simps list_all_dict_pop)

lemma limiter_inv_Nil [simp]: "limiter_inv []"
  by (simp add: limiter_inv_def dict_ok_def)

lemma record_get_key:
  assumes "dict_ok tbl" "record_failed_handshake now key tbl = Inr tbl'"
  shows "\<exists>l. lockout_for (Suc (fails_of tbl key)) now = Inr l \<and>
    dict_get tbl' key = Some (Suc (fails_of tbl key), l, now)"
  using assms(2)
proof (cases rule: record_failed_handshakeE)
  case (1 l base)
  have "dict_ok base" using 1(2) assms(1) by (auto simp: dict_simps)
  moreover have "\<not> expired now (Suc (fails_of tbl key), l, now)"
    using 1(1) by (auto simp: lockout_for_Inr expired_def not_less split: if_splits)
  ultimately show ?thesis using 1(1,3) by (simp add: dict_get_filter dict_simps)
qed

lemma record_ok: "dict_ok tbl \<Longrightarrow> record_failed_handshake now key tbl = Inr tbl' \<Longrightarrow> dict_ok tbl'"
  by (erule record_failed_handshakeE) (auto simp: dict_filter_def dict_ok_filter dict_simps)

lemma record_succeeds: "fails_of tbl key < 1028 \<Longrightarrow> \<exists>tbl'. record_failed_handshake now key tbl = Inr tbl'"
proof -
  assume n: "fails_of tbl key < 1028"
  obtain l where "lockout_for (Suc (fails_of tbl key)) now = Inr l"
    using n by (cases "Suc (fails_of tbl key) \<ge> 5") (auto simp: lockout_for_Inr)
  moreover have "\<exists>k. oldest_key tbl = Inr k" if "1000 \<le> length tbl" using that by (intro oldest_key_ok) auto
  ultimately show ?thesis by (auto simp: record_failed_handshake_def Let_def fails_of_def)
qed

lemma lockout_positive: "lockout_for n now = Inr l \<Longrightarrow> 5 \<le> n \<Longrightarrow> now + 1 \<le> l \<and> l \<le> now + 60"
  by (simp add: lockout_for_Inr)

text \<open>Failures recorded for one peer, one after the other.\<close>

fun record_all :: "seconds list \<Rightarrow> string \<Rightarrow> limiter \<Rightarrow> limiter result" where
  "record_all [] key tbl = Inr tbl"
| "record_all (t # ts) key tbl =
     bind_result (record_failed_handshake t key tbl) (\<lambda>tbl'. record_all ts key tbl')"

lemma record_all_get:
  assumes "dict_ok tbl" "fails_of tbl key + length ts \<le> 1028" "ts \<noteq> []"
  shows "\<exists>tbl' l. record_all ts key tbl = Inr tbl' \<and> lockout_for (fails_of tbl key + length ts) (last ts) = Inr l \<and>
    dict_get tbl' key = Some (fails_of tbl key + length ts, l, last ts)"
  using assms
proof (induction ts arbitrary: tbl)
  case (Cons t ts)
  obtain tbl1 where r: "record_failed_handshake t key tbl = Inr tbl1"
    using record_succeeds [of tbl key t] Cons.prems(2) by auto
  obtain l where l: "lockout_for (Suc (fails_of tbl key)) t = Inr l"
      "dict_get tbl1 key = Some (Suc (fails_of tbl key), l, t)"
    using record_get_key [OF Cons.prems(1) r] by blast
  then have f: "fails_of tbl1 key = Suc (fails_of tbl key)" by (simp add: fails_of_def)
  show ?case
  proof (cases "ts = []")
    case True
    then show ?thesis using r l by simp
  next
    case False
    then show ?thesis
      using Cons.IH [of tbl1] record_ok [OF Cons.prems(1) r] Cons.prems(2) f r by simp
  qed
qed simp

inductive limiter_reachable :: "limiter \<Rightarrow> bool" where
  empty: "limiter_reachable []"
| failure: "limiter_reachable tbl \<Longrightarrow> record_failed_handshake now key tbl = Inr tbl' \<Longrightarrow> limiter_reachable tbl'"
| success: "limiter_reachable tbl \<Longrightarrow> limiter_reachable (dict_pop tbl key)"

lemma limiter_reachable_inv: "limiter_reachable tbl \<Longrightarrow> limiter_inv tbl"
  by (induction rule: limiter_reachable.induct) (auto intro: limiter_inv_record limiter_inv_pop)

subsection \<open>Properties of the limiter\<close>

text \<open>
  C35. However many failures and successes of however many peers are recorded, the table never
  holds more than 1000 peers, has one entry per peer, locks nobody out before five failures,
  and no lockout lasts longer than 60 seconds from the peer's last failure.
\<close>

theorem limiter_table_bounded:
  assumes "limiter_reachable tbl"
  shows "length tbl \<le> 1000 \<and> dict_ok tbl \<and>
    (\<forall>k n lockout last_at. dict_get tbl k = Some (n, lockout, last_at) \<longrightarrow>
       0 < n \<and> (n < 5 \<longrightarrow> lockout = 0) \<and> lockout \<le> max 0 (last_at + 60))"
proof -
  have i: "limiter_inv tbl" using assms by (rule limiter_reachable_inv)
  have "entry_ok (k, v)" if "dict_get tbl k = Some v" for k v
    using i dict_get_mem [OF that] by (auto simp: limiter_inv_def list_all_iff)
  then show ?thesis using i by (fastforce simp: limiter_inv_def)
qed

theorem limiter_table_bounded_witness:
  "\<exists>tbl. record_failed_handshake 3 ''peer'' [] = Inr tbl \<and> length tbl \<le> 1000"
proof -
  obtain tbl where r: "record_failed_handshake 3 ''peer'' [] = Inr tbl"
    using record_succeeds [of "[]" "''peer''" 3] by (auto simp: fails_of_def dict_get_def)
  have "limiter_reachable tbl" by (rule limiter_reachable.failure [OF limiter_reachable.empty r])
  from limiter_table_bounded [OF this] r show ?thesis by blast
qed

text \<open>
  The lockout schedule: after \<open>n\<close> failures of a peer the table had no entry for, the
  peer's entry counts \<open>n\<close> and carries no lockout while \<open>n < 5\<close>; from the fifth on, the
  lockout ends \<open>min(60, 2^(n-5))\<close> seconds after the last failure.
\<close>

lemma lockout_schedule:
  assumes "dict_ok tbl" "dict_get tbl key = None" "ts \<noteq> []" "length ts \<le> 1028"
  shows "\<exists>tbl'. record_all ts key tbl = Inr tbl' \<and>
    dict_get tbl' key = Some (length ts,
      if length ts < 5 then 0 else last ts + min 60 (2 ^ (length ts - 5)), last ts)"
  using record_all_get [of tbl key ts] assms by (auto simp: fails_of_def lockout_for_Inr split: if_splits)

text \<open>
  Recording a failure of one peer leaves the entry of every other peer alone, except that
  an expired entry (a lockout that is over, or ten idle minutes) is removed; only when the
  table is full and the peer is new can an entry that is not expired be evicted.
\<close>

lemma record_spares_others:
  assumes "dict_ok tbl" "record_failed_handshake now key tbl = Inr tbl'" "k \<noteq> key"
    and "length tbl < 1000 \<or> dict_get tbl key \<noteq> None"
  shows "dict_get tbl' k =
    (case dict_get tbl k of Some v \<Rightarrow> if expired now v then None else Some v | None \<Rightarrow> None)"
  using assms(2)
proof (cases rule: record_failed_handshakeE)
  case (1 l base)
  have "base = tbl" using 1(2) assms(4) by auto
  then show ?thesis using 1(3) assms(1,3) by (simp add: dict_get_filter dict_simps split: option.splits)
qed

text \<open>
  From the 1029th failure on, the exponent of the backoff leaves the range of a double:
  \<open>record_failed_handshake\<close> raises \<open>OverflowError\<close>, and no lockout is set any more.
\<close>

lemma limiter_overflow:
  assumes "1028 \<le> fails_of tbl key"
  shows "record_failed_handshake now key tbl = Inl OverflowError"
proof -
  have "lockout_for (Suc (fails_of tbl key)) now = Inl OverflowError"
    using assms by (auto simp: lockout_for_def backoff_seconds_def)
  then show ?thesis by (simp add: record_failed_handshake_def Let_def flip: fails_of_def)
qed

end
