(* ===== verification/Handshake.thy ===== *)
theory Handshake
  imports Tcp Rate_Limiter
begin

text \<open>
  \<open>src/src/usmp/_handshake.py\<close>: the four-message handshake of both sides, over any transport
  (a \<open>transport_ops\<close> record). The values drawn from \<open>os.urandom\<close> and the key generator,
  and the readings of the clock, are arguments. The server side threads the limiter table
  \<open>_failed_handshakes\<close> beside the transport.
\<close>

subsection \<open>Pre-shared keys\<close>

text \<open>A value that should be \<open>bytes\<close>; \<open>PyOther n\<close> is a sized object of another type with \<open>len\<close> n.\<close>

datatype psk_value = PyBytes bytes | PyNone | PyOther nat

text \<open>What calling a PSK callback gives: a value, an awaitable that resolves to one, or an exception.\<close>

datatype psk_return = Returns psk_value | Awaits "psk_value result" | Throws exn

text \<open>\<open>PskOther b\<close> is an object of no accepted type with the truth value b (\<open>None\<close>, say).\<close>

datatype psk_source =
    PskDict "(bytes, psk_value) dict" | PskBytes bytes | PskCallable "bytes \<Rightarrow> psk_return" | PskOther bool

definition psk_dict_get :: "(bytes, psk_value) dict \<Rightarrow> bytes \<Rightarrow> psk_value" where
  "psk_dict_get d k = (case dict_get d k of None \<Rightarrow> PyNone | Some v \<Rightarrow> v)"

definition lookup_psk :: "psk_source \<Rightarrow> bytes \<Rightarrow> psk_value result" where
  "lookup_psk src dev =
     (case src of
        PskDict d \<Rightarrow>
          (let v = psk_dict_get d dev;
               v' = (if v = PyNone then psk_dict_get d [] else v)
           in if v' = PyNone then Inl HandshakeError else Inr v')
      | PskBytes b \<Rightarrow> Inr (PyBytes b)
      | PskCallable f \<Rightarrow>
          (case f dev of
             Returns (PyBytes b) \<Rightarrow> Inr (PyBytes b)
           | Returns _ \<Rightarrow> Inl HandshakeError
           | Awaits r \<Rightarrow> r
           | Throws e \<Rightarrow> Inl e)
      | PskOther _ \<Rightarrow> Inl HandshakeError)"

definition resolve_psk :: "psk_source \<Rightarrow> bytes \<Rightarrow> bytes result" where
  "resolve_psk src dev =
     bind_result (lookup_psk src dev) (\<lambda>v.
       case v of
         PyBytes b \<Rightarrow> if length b < 16 then Inl HandshakeError else Inr b
       | _ \<Rightarrow> Inl HandshakeError)"

subsection \<open>Messages\<close>

definition compute_hmac :: "bytes \<Rightarrow> bytes list \<Rightarrow> bytes" where
  "compute_hmac psk parts = hmac_sha256 psk (concat parts)"

text \<open>\<open>struct.pack("<H", USMP_MAGIC) + bytes([USMP_VERSION, int(type)])\<close>.\<close>

definition hmac_prefix :: "packet_type \<Rightarrow> bytes result" where
  "hmac_prefix ptype =
     bind_result (pack_H USMP_MAGIC) (\<lambda>m.
     bind_result (bytes_of [USMP_VERSION, packet_type_value ptype]) (\<lambda>b. Inr (m @ b)))"

text \<open>\<open>try: read_frame(verify_crc=False) except IncompleteReadError: raise HandshakeError\<close>.\<close>

definition read_handshake_frame :: "'t transport_ops \<Rightarrow> ('t, usmp_frame) coro" where
  "read_handshake_frame T =
     coro_catch (t_read_frame T False) [IncompleteReadError] (\<lambda>_. coro_raise HandshakeError)"

definition coro_require :: "bool \<Rightarrow> exn \<Rightarrow> ('s, unit) coro" where
  "coro_require b e = (if b then coro_return () else coro_raise e)"

definition coro_modify :: "('s \<Rightarrow> 's) \<Rightarrow> ('s, unit) coro" where
  "coro_modify f s = (Done (), f s)"

subsection \<open>The server side\<close>

definition limiter_key :: "string \<Rightarrow> peername \<Rightarrow> string" where
  "limiter_key conn_id peer =
     (case peer of
        PeerTuple (host, port) \<Rightarrow> host
      | PeerOther s \<Rightarrow> if s = [] then conn_id else s
      | PeerNone \<Rightarrow> conn_id)"

text \<open>
  The end of the \<open>try\<close>: HELLO_ACK is received and verified, the keys are installed and
  SESSION_OK is sent. The result is the device id, the session id and the keys (server to
  client, client to server).
\<close>

definition server_verify ::
  "'t transport_ops \<Rightarrow> bytes \<Rightarrow> bytes \<Rightarrow> bytes \<Rightarrow> bytes \<Rightarrow> bytes \<Rightarrow> bytes \<times> bytes \<Rightarrow> bytes
     \<Rightarrow> ('t, bytes \<times> bytes \<times> bytes \<times> bytes) coro"
where
  "server_verify T resolved_psk nonce dev pub_c pub_s session_key sid =
     coro_bind (read_handshake_frame T) (\<lambda>frame.
     coro_bind (coro_require (f_type frame = HELLO_ACK) HandshakeError) (\<lambda>_.
     coro_bind (coro_require (f_length frame = int USMP_HMAC_LEN) HandshakeError) (\<lambda>_.
     coro_bind (coro_lift (hmac_prefix HELLO_ACK)) (\<lambda>prefix_client.
     let expected_client = compute_hmac resolved_psk [prefix_client, nonce, dev, pub_c, pub_s];
         received_client = take USMP_HMAC_LEN (f_payload frame) in
     coro_bind (coro_require (expected_client = received_client) AuthError) (\<lambda>_.
     coro_bind (coro_lift (hmac_prefix SESSION_OK)) (\<lambda>prefix_server.
     let hmac_server = compute_hmac resolved_psk [prefix_server, nonce, sid, pub_c, pub_s];
         (k_c2s, k_s2c) = session_key in
     coro_bind (coro_modify (t_set_session_keys T k_s2c k_c2s)) (\<lambda>_.
     coro_bind (t_write_frame T SESSION_OK (sid @ hmac_server) 0) (\<lambda>_.
     coro_return (dev, sid, k_s2c, k_c2s)))))))))"

definition server_exchange ::
  "crypto \<Rightarrow> 't transport_ops \<Rightarrow> psk_source \<Rightarrow> bytes \<Rightarrow> bytes \<Rightarrow> bytes \<Rightarrow> ('t, bytes \<times> bytes \<times> bytes \<times> bytes) coro"
where
  "server_exchange c T src priv nonce sid =
     coro_bind (read_handshake_frame T) (\<lambda>frame.
     coro_bind (coro_require (f_type frame = HELLO) HandshakeError) (\<lambda>_.
     coro_bind (coro_require (List.member [38, 54] (f_length frame)) HandshakeError) (\<lambda>_.
     let dev = take USMP_DEVICE_ID_LEN (f_payload frame);
         pub_c = py_slice USMP_DEVICE_ID_LEN (USMP_DEVICE_ID_LEN + USMP_PUB_KEY_LEN) (f_payload frame) in
     coro_bind (coro_lift (resolve_psk src dev)) (\<lambda>resolved_psk.
     let (priv_s, pub_s) = generate_keypair c priv in
     coro_bind (t_write_frame T CHALLENGE (nonce @ pub_s) 0) (\<lambda>_.
     coro_bind (coro_lift (derive_session_keys c priv_s pub_c nonce pub_c pub_s)) (\<lambda>session_key.
     server_verify T resolved_psk nonce dev pub_c pub_s session_key sid))))))"

definition disconnect_exns :: "exn list" where
  "disconnect_exns = [IncompleteReadError, ConnectionResetError, ConnectionAbortedError, EOFError, OSError]"

definition failure_exns :: "exn list" where
  "failure_exns = [USMPError, ValueError, StructError]"

text \<open>The two \<open>except\<close> clauses; an exception in neither passes through.\<close>

definition handshake_failed :: "seconds \<Rightarrow> string \<Rightarrow> exn \<Rightarrow> 't \<times> limiter \<Rightarrow> 'a io \<times> 't \<times> limiter" where
  "handshake_failed now key e = (\<lambda>(t, tbl).
     if catches disconnect_exns e then (Raise e, t, tbl)
     else if catches failure_exns e then
       (case record_failed_handshake now key tbl of
          Inl e' \<Rightarrow> (Raise e', t, tbl)
        | Inr tbl' \<Rightarrow> (Raise e, t, tbl'))
     else (Raise e, t, tbl))"

definition server_handshake ::
  "crypto \<Rightarrow> 't transport_ops \<Rightarrow> psk_source \<Rightarrow> string \<Rightarrow> bytes \<Rightarrow> bytes \<Rightarrow> bytes \<Rightarrow> seconds \<Rightarrow> seconds
     \<Rightarrow> ('t \<times> limiter, session_info) coro"
where
  "server_handshake c T src conn_id priv nonce sid now now_failed = (\<lambda>(t, tbl).
     let key = limiter_key conn_id (t_peername T t);
         locked = (case dict_get tbl key of Some (_, lockout_until, _) \<Rightarrow> lockout_until > now | None \<Rightarrow> False) in
     if locked then (Raise HandshakeError, t, tbl)
     else
       case server_exchange c T src priv nonce sid t of
         (Waiting, t') \<Rightarrow> (Waiting, t', tbl)
       | (Raise e, t') \<Rightarrow> handshake_failed now_failed key e (t', tbl)
       | (Done (dev, sid, txk, rxk), t') \<Rightarrow>
           let tbl' = dict_pop tbl key in
           case SessionInfo dev sid txk rxk of
             Inl e \<Rightarrow> handshake_failed now_failed key e (t', tbl')
           | Inr info \<Rightarrow> (Done info, t', tbl'))"

subsection \<open>The client side\<close>

text \<open>From the CHALLENGE frame on.\<close>

definition client_answer ::
  "crypto \<Rightarrow> 't transport_ops \<Rightarrow> bytes \<Rightarrow> bytes \<Rightarrow> bytes \<Rightarrow> bytes \<Rightarrow> usmp_frame \<Rightarrow> ('t, session_info) coro"
where
  "client_answer c T psk dev priv_c pub_c frame =
     coro_bind (coro_require (f_type frame = CHALLENGE) HandshakeError) (\<lambda>_.
     coro_bind (coro_require (f_length frame = int (USMP_NONCE_LEN + USMP_PUB_KEY_LEN)) HandshakeError) (\<lambda>_.
     let nonce = take USMP_NONCE_LEN (f_payload frame);
         pub_s = py_slice USMP_NONCE_LEN (USMP_NONCE_LEN + USMP_PUB_KEY_LEN) (f_payload frame) in
     coro_bind (coro_lift (derive_session_keys c priv_c pub_s nonce pub_c pub_s)) (\<lambda>session_key.
     coro_bind (coro_lift (hmac_prefix HELLO_ACK)) (\<lambda>prefix_client.
     let hmac_client = compute_hmac psk [prefix_client, nonce, dev, pub_c, pub_s] in
     coro_bind (t_write_frame T HELLO_ACK hmac_client 2) (\<lambda>_.
     coro_bind (read_handshake_frame T) (\<lambda>frame.
     coro_bind (coro_require (f_type frame = SESSION_OK) HandshakeError) (\<lambda>_.
     coro_bind (coro_require (f_length frame = int (USMP_SESSION_ID_LEN + USMP_HMAC_LEN)) HandshakeError) (\<lambda>_.
     let sid = take USMP_SESSION_ID_LEN (f_payload frame);
         hmac_server = py_slice USMP_SESSION_ID_LEN (USMP_SESSION_ID_LEN + USMP_HMAC_LEN) (f_payload frame) in
     coro_bind (coro_lift (hmac_prefix SESSION_OK)) (\<lambda>prefix_server.
     let expected_server = compute_hmac psk [prefix_server, nonce, sid, pub_c, pub_s] in
     coro_bind (coro_require (expected_server = hmac_server) AuthError) (\<lambda>_.
     let (k_c2s, k_s2c) = session_key in
     coro_bind (coro_modify (t_set_session_keys T k_c2s k_s2c)) (\<lambda>_.
     coro_lift (SessionInfo dev sid k_c2s k_s2c))))))))))))"

definition client_handshake ::
  "crypto \<Rightarrow> 't transport_ops \<Rightarrow> bytes option \<Rightarrow> bytes option \<Rightarrow> bytes \<Rightarrow> ('t, session_info) coro"
where
  "client_handshake c T psk_opt dev_opt priv =
     (case psk_opt of
        None \<Rightarrow> coro_raise ValueError
      | Some psk \<Rightarrow>
          if length psk < 16 then coro_raise ValueError
          else
            case dev_opt of
              None \<Rightarrow> coro_raise ValueError
            | Some dev \<Rightarrow>
                let (priv_c, pub_c) = generate_keypair c priv in
                coro_bind (t_write_frame T HELLO (dev @ pub_c) 0) (\<lambda>_.
                coro_bind (read_handshake_frame T) (\<lambda>frame.
                if f_type frame = HELLO_RETRY then
                  coro_bind (coro_require (f_length frame = 16) HandshakeError) (\<lambda>_.
                  let cookie = take 16 (f_payload frame) in
                  coro_bind (t_write_frame T HELLO (dev @ pub_c @ cookie) 1) (\<lambda>_.
                  coro_bind (read_handshake_frame T) (client_answer c T psk dev priv_c pub_c)))
                else client_answer c T psk dev priv_c pub_c frame)))"

subsection \<open>Running the steps\<close>

lemma coro_require_eq [io_simps]: "coro_require b e s = (Done u, t) \<longleftrightarrow> b \<and> t = s"
  by (auto simp: coro_require_def coro_return_def coro_raise_def)

lemma coro_modify_eq [io_simps]: "coro_modify f s = (Done u, t) \<longleftrightarrow> t = f s"
  by (auto simp: coro_modify_def)

lemma read_handshake_frame_Done [io_simps]:
  "read_handshake_frame T s = (Done f, t) \<longleftrightarrow> t_read_frame T False s = (Done f, t)"
  by (auto simp: read_handshake_frame_def coro_catch_def coro_raise_def split: io.splits prod.splits)

lemma read_handshake_frame_simps:
  "t_read_frame T False s = (Done f, t) \<Longrightarrow> read_handshake_frame T s = (Done f, t)"
  "t_read_frame T False s = (Waiting, t) \<Longrightarrow> read_handshake_frame T s = (Waiting, t)"
  "t_read_frame T False s = (Raise IncompleteReadError, t) \<Longrightarrow> read_handshake_frame T s = (Raise HandshakeError, t)"
  by (simp_all add: read_handshake_frame_def coro_catch_def coro_raise_def)

text \<open>What the two MACs are computed over.\<close>

definition client_transcript :: "bytes \<Rightarrow> bytes \<Rightarrow> bytes \<Rightarrow> bytes \<Rightarrow> bytes" where
  "client_transcript nonce dev pub_c pub_s = [0xCD, 0xAB, 0x02, 0x03] @ nonce @ dev @ pub_c @ pub_s"

definition server_transcript :: "bytes \<Rightarrow> bytes \<Rightarrow> bytes \<Rightarrow> bytes \<Rightarrow> bytes" where
  "server_transcript nonce sid pub_c pub_s = [0xCD, 0xAB, 0x02, 0x04] @ nonce @ sid @ pub_c @ pub_s"

lemma USMP_MAGIC_bytes: "le_bytes 2 USMP_MAGIC = [0xCD, 0xAB]" "0 \<le> USMP_MAGIC" "USMP_MAGIC < 65536"
  by code_simp+

lemma hmac_prefix_simps [simp]:
  "hmac_prefix HELLO_ACK = Inr [0xCD, 0xAB, 0x02, 0x03]" "hmac_prefix SESSION_OK = Inr [0xCD, 0xAB, 0x02, 0x04]"
  by (simp_all add: hmac_prefix_def H.pack_in_range USMP_VERSION_def bytes_of_def USMP_MAGIC_bytes)

lemma compute_hmac_transcripts [simp]:
  "compute_hmac psk [[0xCD, 0xAB, 0x02, 0x03], nonce, dev, pc, ps] = hmac_sha256 psk (client_transcript nonce dev pc ps)"
  "compute_hmac psk [[0xCD, 0xAB, 0x02, 0x04], nonce, sid, pc, ps] = hmac_sha256 psk (server_transcript nonce sid pc ps)"
  by (simp_all add: compute_hmac_def client_transcript_def server_transcript_def)

lemma resolve_psk_long: "resolve_psk src dev = Inr psk \<Longrightarrow> 16 \<le> length psk"
  by (cases "lookup_psk src dev") (auto simp: resolve_psk_def split: psk_value.splits if_splits)

lemma server_exchange_DoneE:
  assumes "server_exchange c T src priv nonce sid t = (Done out, t')"
  obtains hello ack psk txk rxk t1 t2 t3 where
    "t_read_frame T False t = (Done hello, t1)" "f_type hello = HELLO" "f_length hello = 38 \<or> f_length hello = 54"
    "resolve_psk src (take 6 (f_payload hello)) = Inr psk"
    "t_write_frame T CHALLENGE (nonce @ x25519_public c priv) 0 t1 = (Done (), t2)"
    "derive_session_keys c priv (py_slice 6 38 (f_payload hello)) nonce (py_slice 6 38 (f_payload hello))
       (x25519_public c priv) = Inr (rxk, txk)"
    "t_read_frame T False t2 = (Done ack, t3)" "f_type ack = HELLO_ACK" "f_length ack = 32"
    "take 32 (f_payload ack) = hmac_sha256 psk
       (client_transcript nonce (take 6 (f_payload hello)) (py_slice 6 38 (f_payload hello)) (x25519_public c priv))"
    "t_write_frame T SESSION_OK
       (sid @ hmac_sha256 psk (server_transcript nonce sid (py_slice 6 38 (f_payload hello)) (x25519_public c priv))) 0
       (t_set_session_keys T txk rxk t3) = (Done (), t')"
    "out = (take 6 (f_payload hello), sid, txk, rxk)"
  using assms
  by (auto simp: server_exchange_def server_verify_def io_simps Let_def generate_keypair_def usmp_consts List.member_iff
      split: prod.splits)

lemma client_answer_DoneE:
  assumes "client_answer c T psk dev priv pc chal t = (Done info, t')"
  obtains ok txk rxk t1 t2 where
    "f_type chal = CHALLENGE" "f_length chal = 64"
    "derive_session_keys c priv (py_slice 32 64 (f_payload chal)) (take 32 (f_payload chal)) pc
       (py_slice 32 64 (f_payload chal)) = Inr (txk, rxk)"
    "t_write_frame T HELLO_ACK (hmac_sha256 psk
       (client_transcript (take 32 (f_payload chal)) dev pc (py_slice 32 64 (f_payload chal)))) 2 t = (Done (), t1)"
    "t_read_frame T False t1 = (Done ok, t2)" "f_type ok = SESSION_OK" "f_length ok = 48"
    "py_slice 16 48 (f_payload ok) = hmac_sha256 psk
       (server_transcript (take 32 (f_payload chal)) (take 16 (f_payload ok)) pc (py_slice 32 64 (f_payload chal)))"
    "SessionInfo dev (take 16 (f_payload ok)) txk rxk = Inr info" "t' = t_set_session_keys T txk rxk t2"
  using assms
  by (auto simp: client_answer_def io_simps Let_def usmp_consts split: prod.splits)

lemma client_handshake_DoneE:
  assumes "client_handshake c T (Some psk) (Some dev) priv t = (Done info, t')"
  obtains chal s s' where "t_read_frame T False s = (Done chal, s')"
    "client_answer c T psk dev priv (x25519_public c priv) chal s' = (Done info, t')" "16 \<le> length psk"
  using assms
  by (auto simp: client_handshake_def io_simps Let_def generate_keypair_def split: if_splits)

lemma server_handshake_run:
  assumes key: "limiter_key conn (t_peername T t) = key"
    and free: "\<nexists>n l a. dict_get tbl key = Some (n, l, a) \<and> l > now"
  shows "server_handshake c T src conn priv nonce sid now nf (t, tbl) =
      (case server_exchange c T src priv nonce sid t of
         (Waiting, t') \<Rightarrow> (Waiting, t', tbl)
       | (Raise e, t') \<Rightarrow> handshake_failed nf key e (t', tbl)
       | (Done (dev, sid, txk, rxk), t') \<Rightarrow>
           (case SessionInfo dev sid txk rxk of
             Inl e \<Rightarrow> handshake_failed nf key e (t', dict_pop tbl key)
           | Inr info \<Rightarrow> (Done info, t', dict_pop tbl key)))"
  using free unfolding server_handshake_def prod.case Let_def key by (auto split: option.splits)

lemma server_handshake_cases:
  assumes "server_handshake c T src conn priv nonce sid now nf (t, tbl) = (r, t', tbl')"
    and key: "limiter_key conn (t_peername T t) = key"
  obtains (locked) n l a where "dict_get tbl key = Some (n, l, a)" "l > now" "r = Raise HandshakeError" "t' = t" "tbl' = tbl"
  | (waiting) "r = Waiting" "server_exchange c T src priv nonce sid t = (Waiting, t')" "tbl' = tbl"
  | (accepted) dev txk rxk info where "server_exchange c T src priv nonce sid t = (Done (dev, sid, txk, rxk), t')"
      "SessionInfo dev sid txk rxk = Inr info" "r = Done info" "tbl' = dict_pop tbl key"
  | (raised) e base where "handshake_failed nf key e (t', base) = (r, t', tbl')" "base = tbl \<or> (base = dict_pop tbl key \<and> e = ValueError)"
proof (cases "\<exists>n l a. dict_get tbl key = Some (n, l, a) \<and> l > now")
  case True
  then obtain n l a where e: "dict_get tbl key = Some (n, l, a)" "l > now" by blast
  then show thesis using assms(1) by (intro that(1) [OF e]) (simp_all add: server_handshake_def Let_def key)
next
  case False
  note run = assms(1) [unfolded server_handshake_run [OF key False]]
  obtain x s where x: "server_exchange c T src priv nonce sid t = (x, s)" by fastforce
  show thesis
  proof (cases x)
    case Waiting
    then show ?thesis using run x that(2) by simp
  next
    case (Raise e)
    then have "handshake_failed nf key e (s, tbl) = (r, t', tbl')" using run x by simp
    moreover then have "t' = s" by (simp add: handshake_failed_def split: if_splits sum.splits)
    ultimately show ?thesis using that(4) by blast
  next
    case (Done out)
    obtain dev d txk rxk where out: "out = (dev, d, txk, rxk)" by (cases out) auto
    have d: "d = sid" using x Done out by (auto elim: server_exchange_DoneE)
    show ?thesis
    proof (cases "SessionInfo dev sid txk rxk")
      case (Inl e)
      then have "handshake_failed nf key e (s, dict_pop tbl key) = (r, t', tbl')" using run x Done out d by simp
      moreover then have "t' = s" by (simp add: handshake_failed_def split: if_splits sum.splits)
      moreover have "e = ValueError" using Inl by (simp add: SessionInfo_def split: if_splits)
      ultimately show ?thesis using that(4) by blast
    next
      case (Inr info)
      then show ?thesis using run x Done out d by (intro that(3)) auto
    qed
  qed
qed

lemma handshake_failed_table:
  assumes "handshake_failed nf key e (t, tbl) = (r, t', tbl')"
  shows "(\<exists>e'. r = Raise e') \<and> (tbl' = tbl \<or> (r = Raise e \<and> catches failure_exns e \<and>
    \<not> catches disconnect_exns e \<and> record_failed_handshake nf key tbl = Inr tbl'))"
  using assms by (auto simp: handshake_failed_def split: if_splits sum.splits)

subsection \<open>Handshakes over TCP\<close>

text \<open>The four messages of an honest run.\<close>

definition hello_msg :: "bytes \<Rightarrow> bytes \<Rightarrow> bytes" where
  "hello_msg dev pc = frame_bytes USMP_VERSION HELLO 0 (dev @ pc)"

definition challenge_msg :: "bytes \<Rightarrow> bytes \<Rightarrow> bytes" where
  "challenge_msg nonce ps = frame_bytes USMP_VERSION CHALLENGE 0 (nonce @ ps)"

definition hello_ack_msg :: "bytes \<Rightarrow> bytes \<Rightarrow> bytes \<Rightarrow> bytes \<Rightarrow> bytes \<Rightarrow> bytes" where
  "hello_ack_msg psk nonce dev pc ps =
     frame_bytes USMP_VERSION HELLO_ACK 2 (hmac_sha256 psk (client_transcript nonce dev pc ps))"

definition session_ok_msg :: "bytes \<Rightarrow> bytes \<Rightarrow> bytes \<Rightarrow> bytes \<Rightarrow> bytes \<Rightarrow> bytes" where
  "session_ok_msg psk nonce sid pc ps =
     frame_bytes USMP_VERSION SESSION_OK 0 (sid @ hmac_sha256 psk (server_transcript nonce sid pc ps))"

lemma tcp_ops_simps [simp]:
  "t_read_frame tcp_ops = tcp_read_frame" "t_write_frame tcp_ops = tcp_write_frame"
  "t_set_session_keys tcp_ops txk rxk t = t" "t_confirm_authenticated tcp_ops q t = t"
  "t_peername tcp_ops = tcp_peer" "t_close tcp_ops = tcp_close" "is_reliable tcp_ops"
  by (simp_all add: tcp_ops_def)

lemma tcp_live_simps [simp]:
  "tcp_live (t\<lparr>rbuf := b\<rparr>) = tcp_live t" "tcp_live (t\<lparr>wbuf := w\<rparr>) = tcp_live t"
  by (simp_all add: tcp_live_def)

lemma tcp_read_empty:
  "rbuf t = [] \<Longrightarrow> tcp_read_frame vc t = (if at_eof t then Raise IncompleteReadError else Waiting, t)"
  by (simp add: tcp_read_frame_def read_frame_def coro_bind_def tcp_readexactly_def USMP_HEADER_SIZE_def)

lemma tcp_read_handshake_empty:
  "rbuf t = [] \<Longrightarrow> read_handshake_frame tcp_ops t = (if at_eof t then Raise HandshakeError else Waiting, t)"
  by (simp add: read_handshake_frame_def coro_catch_def coro_raise_def tcp_read_empty)

lemma tcp_read_handshake_frame:
  assumes "length p \<le> USMP_MAX_PAYLOAD" "0 \<le> s" "s < 2 ^ 32" "rbuf t = frame_bytes USMP_VERSION ty s p @ rest"
  shows "read_handshake_frame tcp_ops t = (Done (mk_frame ty p s), t\<lparr>rbuf := rest\<rparr>)"
  using tcp_read_frame_frame [OF assms] by (simp add: read_handshake_frame_def coro_catch_def)

lemma mk_frame_fields [simp]:
  "f_type (mk_frame ty p s) = ty" "f_seq (mk_frame ty p s) = s" "f_payload (mk_frame ty p s) = p"
  "f_length (mk_frame ty p s) = int (length p)" "f_magic (mk_frame ty p s) = USMP_MAGIC"
  "f_version (mk_frame ty p s) = USMP_VERSION"
  by (simp_all add: mk_frame_def)

lemma tcp_server_exchange:
  assumes t: "rbuf t = hello_msg dev pc @ rest" "tcp_live t"
    and l: "length dev = 6" "length pc = 32" "length nonce = 32" "length (x25519_public c priv) = 32"
    and psk: "resolve_psk src dev = Inr psk"
    and keys: "derive_session_keys c priv pc nonce pc (x25519_public c priv) = Inr keys"
  shows "server_exchange c tcp_ops src priv nonce sid t =
    server_verify tcp_ops psk nonce dev pc (x25519_public c priv) keys sid
      (t\<lparr>rbuf := rest, wbuf := wbuf t @ challenge_msg nonce (x25519_public c priv)\<rparr>)"
proof -
  have r: "read_handshake_frame tcp_ops t = (Done (mk_frame HELLO (dev @ pc) 0), t\<lparr>rbuf := rest\<rparr>)"
    using l by (intro tcp_read_handshake_frame) (simp_all add: t hello_msg_def USMP_MAX_PAYLOAD_def)
  show ?thesis
    using l t(2)
    by (simp add: server_exchange_def coro_bind_def r coro_require_def coro_return_def coro_lift_def Let_def
        usmp_consts psk keys generate_keypair_def tcp_write_frame_ok challenge_msg_def List.member_iff
        py_slice_append_right)
qed

lemma tcp_server_verify:
  assumes t: "rbuf t = frame_bytes USMP_VERSION HELLO_ACK 2 mac @ rest" "tcp_live t"
    and l: "length mac = 32" "length sid = 16"
  shows "server_verify tcp_ops psk nonce dev pc ps (kc, ks) sid t =
    (if mac = hmac_sha256 psk (client_transcript nonce dev pc ps)
     then (Done (dev, sid, ks, kc), t\<lparr>rbuf := rest, wbuf := wbuf t @ session_ok_msg psk nonce sid pc ps\<rparr>)
     else (Raise AuthError, t\<lparr>rbuf := rest\<rparr>))"
proof -
  have r: "read_handshake_frame tcp_ops t = (Done (mk_frame HELLO_ACK mac 2), t\<lparr>rbuf := rest\<rparr>)"
    using l by (intro tcp_read_handshake_frame) (simp_all add: t USMP_MAX_PAYLOAD_def)
  show ?thesis
    using l t(2)
    by (simp add: server_verify_def coro_bind_def r coro_require_def coro_return_def coro_raise_def coro_lift_def
        coro_modify_def Let_def usmp_consts tcp_write_frame_ok session_ok_msg_def)
qed

lemma tcp_client_hello:
  assumes t: "rbuf t = challenge_msg nonce ps @ rest" "tcp_live t"
    and l: "16 \<le> length psk" "length dev = 6" "length (x25519_public c priv) = 32" "length nonce = 32" "length ps = 32"
  shows "client_handshake c tcp_ops (Some psk) (Some dev) priv t =
    client_answer c tcp_ops psk dev priv (x25519_public c priv) (mk_frame CHALLENGE (nonce @ ps) 0)
      (t\<lparr>rbuf := rest, wbuf := wbuf t @ hello_msg dev (x25519_public c priv)\<rparr>)"
proof -
  let ?t = "t\<lparr>wbuf := wbuf t @ hello_msg dev (x25519_public c priv)\<rparr>"
  have r: "read_handshake_frame tcp_ops ?t = (Done (mk_frame CHALLENGE (nonce @ ps) 0), ?t\<lparr>rbuf := rest\<rparr>)"
    using l by (intro tcp_read_handshake_frame) (simp_all add: t challenge_msg_def USMP_MAX_PAYLOAD_def)
  have "tcp_write_frame HELLO (dev @ x25519_public c priv) 0 t = (Done (), ?t)"
    using l t(2) by (simp add: tcp_write_frame_ok hello_msg_def USMP_MAX_PAYLOAD_def)
  then show ?thesis
    using l r by (simp add: client_handshake_def coro_bind_def Let_def generate_keypair_def)
qed

lemma tcp_client_starts:
  assumes "rbuf t = []" "\<not> at_eof t" "tcp_live t" "16 \<le> length psk" "length dev = 6" "length (x25519_public c priv) = 32"
  shows "client_handshake c tcp_ops (Some psk) (Some dev) priv t =
    (Waiting, t\<lparr>wbuf := wbuf t @ hello_msg dev (x25519_public c priv)\<rparr>)"
  using assms
  by (simp add: client_handshake_def coro_bind_def Let_def generate_keypair_def tcp_write_frame_ok hello_msg_def
      USMP_MAX_PAYLOAD_def tcp_read_handshake_empty)

lemma client_answer_hello_ack:
  assumes t: "tcp_live t" and l: "length nonce = 32" "length ps = 32"
    and keys: "derive_session_keys c priv ps nonce pc ps = Inr (kc, ks)"
    and r: "read_handshake_frame tcp_ops (t\<lparr>wbuf := wbuf t @ hello_ack_msg psk nonce dev pc ps\<rparr>) = (res, t')"
    and ok: "case res of Done f \<Rightarrow> f_type f = SESSION_OK \<and> f_length f = 48 | _ \<Rightarrow> True"
  shows "client_answer c tcp_ops psk dev priv pc (mk_frame CHALLENGE (nonce @ ps) 0) t =
    (case res of
       Done f \<Rightarrow>
         (if hmac_sha256 psk (server_transcript nonce (take 16 (f_payload f)) pc ps) = py_slice 16 48 (f_payload f)
          then coro_lift (SessionInfo dev (take 16 (f_payload f)) kc ks) t' else (Raise AuthError, t'))
     | Raise e \<Rightarrow> (Raise e, t') | Waiting \<Rightarrow> (Waiting, t'))"
proof -
  have "tcp_write_frame HELLO_ACK (hmac_sha256 psk (client_transcript nonce dev pc ps)) 2 t =
      (Done (), t\<lparr>wbuf := wbuf t @ hello_ack_msg psk nonce dev pc ps\<rparr>)"
    using t by (simp add: tcp_write_frame_ok hello_ack_msg_def USMP_MAX_PAYLOAD_def)
  then show ?thesis
    using l r keys ok
    by (cases res) (simp_all add: client_answer_def coro_bind_def coro_require_def coro_return_def coro_raise_def
        coro_lift_def coro_modify_def Let_def usmp_consts py_slice_append_right)
qed

lemma tcp_client_verify:
  assumes t: "rbuf t = session_ok_msg psk nonce sid pc ps @ rest" "tcp_live t"
    and l: "length nonce = 32" "length ps = 32" "length sid = 16"
    and keys: "derive_session_keys c priv ps nonce pc ps = Inr (kc, ks)"
  shows "client_answer c tcp_ops psk dev priv pc (mk_frame CHALLENGE (nonce @ ps) 0) t =
    coro_lift (SessionInfo dev sid kc ks) (t\<lparr>rbuf := rest, wbuf := wbuf t @ hello_ack_msg psk nonce dev pc ps\<rparr>)"
proof -
  let ?p = "sid @ hmac_sha256 psk (server_transcript nonce sid pc ps)"
  let ?t = "t\<lparr>wbuf := wbuf t @ hello_ack_msg psk nonce dev pc ps\<rparr>"
  have "read_handshake_frame tcp_ops ?t = (Done (mk_frame SESSION_OK ?p 0), ?t\<lparr>rbuf := rest\<rparr>)"
    using l by (intro tcp_read_handshake_frame) (simp_all add: t session_ok_msg_def USMP_MAX_PAYLOAD_def)
  then show ?thesis
    using client_answer_hello_ack [OF t(2) l(1,2) keys, where psk = psk and dev = dev] l
    by (simp add: py_slice_append_right)
qed

lemma toy_session_keys:
  "\<exists>kc ks. derive_session_keys toy_crypto [1] (x25519_public toy_crypto [2]) nonce
     (x25519_public toy_crypto [1]) (x25519_public toy_crypto [2]) = Inr (kc, ks)"
proof -
  let ?s = "map2 (XOR) (toy_pad32 [1]) (toy_pad32 [2])"
  have n: "?s \<noteq> replicate (length ?s) 0" by code_simp
  have l: "length (toy_pad32 [2]) = 32" by (simp add: toy_pad32_def)
  show ?thesis
    using n l by (simp only: derive_session_keys_def toy_crypto_def Let_def crypto.select_convs
        bind_result.simps if_True if_False) simp
qed

lemma derive_session_keys_length:
  "hkdf_sized c \<Longrightarrow> derive_session_keys c priv pub nonce pc ps = Inr (kc, ks) \<Longrightarrow> length kc = 32 \<and> length ks = 32"
  by (auto simp: derive_session_keys_def io_simps Let_def hkdf_sized_def usmp_consts split: if_splits)

definition fresh_info :: "bytes \<Rightarrow> bytes \<Rightarrow> bytes \<Rightarrow> bytes \<Rightarrow> session_info" where
  "fresh_info dev sid txk rxk =
     \<lparr>device_id = dev, session_id = sid, tx_key = txk, rx_key = rxk, tx_seq = 0, rx_seq = 0,
      rx_window_bitmap = 0, cipher_suite = AES256_GCM\<rparr>"

text \<open>Both sides on a fresh connection, with the peer's messages as they come in.\<close>

lemma tcp_server_run:
  fixes port :: int and conn :: string and now nf :: seconds
  assumes l: "length dev = 6" "length pc = 32" "length nonce = 32" "length (x25519_public c priv) = 32" "length sid = 16"
    and psk: "resolve_psk src dev = Inr psk"
    and keys: "derive_session_keys c priv pc nonce pc (x25519_public c priv) = Inr (kc, ks)"
    and i: "SessionInfo dev sid ks kc = Inr info" and free: "dict_get tbl host = None"
  defines "st \<equiv> tcp_open (PeerTuple (host, port))" and "ps \<equiv> x25519_public c priv"
  defines "server \<equiv> server_handshake c tcp_ops src conn priv nonce sid now nf"
  shows "server (st\<lparr>rbuf := hello_msg dev pc\<rparr>, tbl) = (Waiting, st\<lparr>wbuf := challenge_msg nonce ps\<rparr>, tbl)"
    and "server (st\<lparr>rbuf := hello_msg dev pc @ hello_ack_msg psk nonce dev pc ps\<rparr>, tbl) =
      (Done info, st\<lparr>wbuf := challenge_msg nonce ps @ session_ok_msg psk nonce sid pc ps\<rparr>, dict_pop tbl host)"
proof -
  have live: "tcp_live st" and st: "rbuf st = []" "wbuf st = []" "\<not> at_eof st" "st\<lparr>rbuf := []\<rparr> = st"
    by (simp_all add: tcp_live_def tcp_open_def st_def)
  have key: "limiter_key conn (t_peername tcp_ops (st\<lparr>rbuf := x\<rparr>)) = host" for x
    by (simp add: st_def tcp_open_def limiter_key_def)
  have free': "\<nexists>n l a. dict_get tbl host = Some (n, l, a) \<and> l > now" using free by simp
  note run = server_handshake_run [OF key free', of c src priv nonce sid nf]
    tcp_server_exchange [OF _ _ l(1-4) psk keys, where sid = sid]
  show "server (st\<lparr>rbuf := hello_msg dev pc\<rparr>, tbl) = (Waiting, st\<lparr>wbuf := challenge_msg nonce ps\<rparr>, tbl)"
    using live st unfolding server_def ps_def
    by (simp add: run(1) run(2) [where rest = "[]"] server_verify_def coro_bind_def tcp_read_handshake_empty)
  show "server (st\<lparr>rbuf := hello_msg dev pc @ hello_ack_msg psk nonce dev pc ps\<rparr>, tbl) =
      (Done info, st\<lparr>wbuf := challenge_msg nonce ps @ session_ok_msg psk nonce sid pc ps\<rparr>, dict_pop tbl host)"
    using live st l(5) unfolding server_def ps_def
    by (simp add: run tcp_server_verify [where rest = "[]"] hello_ack_msg_def i)
qed

lemma tcp_client_run:
  fixes peer :: peername
  assumes psk: "16 \<le> length psk"
    and l: "length dev = 6" "length (x25519_public c priv) = 32" "length nonce = 32" "length ps = 32" "length sid = 16"
    and keys: "derive_session_keys c priv ps nonce (x25519_public c priv) ps = Inr (kc, ks)"
    and i: "SessionInfo dev sid kc ks = Inr info"
  defines "ct \<equiv> tcp_open peer" and "pc \<equiv> x25519_public c priv"
  defines "client \<equiv> client_handshake c tcp_ops (Some psk) (Some dev) priv"
  shows "client ct = (Waiting, ct\<lparr>wbuf := hello_msg dev pc\<rparr>)"
    and "client (ct\<lparr>rbuf := challenge_msg nonce ps\<rparr>) =
      (Waiting, ct\<lparr>wbuf := hello_msg dev pc @ hello_ack_msg psk nonce dev pc ps\<rparr>)"
    and "client (ct\<lparr>rbuf := challenge_msg nonce ps @ session_ok_msg psk nonce sid pc ps\<rparr>) =
      (Done info, ct\<lparr>wbuf := hello_msg dev pc @ hello_ack_msg psk nonce dev pc ps\<rparr>)"
proof -
  have live: "tcp_live ct" and ct: "rbuf ct = []" "wbuf ct = []" "\<not> at_eof ct" "ct\<lparr>rbuf := []\<rparr> = ct"
    by (simp_all add: tcp_live_def tcp_open_def ct_def)
  note run = tcp_client_hello [OF _ _ psk l(1-4)]
  show "client ct = (Waiting, ct\<lparr>wbuf := hello_msg dev pc\<rparr>)"
    using live ct psk l unfolding client_def pc_def by (simp add: tcp_client_starts)
  show "client (ct\<lparr>rbuf := challenge_msg nonce ps\<rparr>) =
      (Waiting, ct\<lparr>wbuf := hello_msg dev pc @ hello_ack_msg psk nonce dev pc ps\<rparr>)"
    using live ct unfolding client_def pc_def
    by (simp add: run [where rest = "[]"] client_answer_hello_ack [OF _ l(3,4) keys] tcp_read_handshake_empty)
  show "client (ct\<lparr>rbuf := challenge_msg nonce ps @ session_ok_msg psk nonce sid pc ps\<rparr>) =
      (Done info, ct\<lparr>wbuf := hello_msg dev pc @ hello_ack_msg psk nonce dev pc ps\<rparr>)"
    using live ct unfolding client_def pc_def
    by (simp add: run tcp_client_verify [OF _ _ l(3-5) keys, where rest = "[]"] coro_lift_def i)
qed

text \<open>A concrete honest run, for the witnesses.\<close>

definition toy_server :: "bytes \<Rightarrow> limiter \<Rightarrow> session_info io \<times> tcp_transport \<times> limiter" where
  "toy_server input tbl =
     server_handshake toy_crypto tcp_ops (PskBytes (replicate 16 7)) ''c'' [2] (replicate 32 9) (replicate 16 8) 0 0
       ((tcp_open (PeerTuple (''h'', 1)))\<lparr>rbuf := input\<rparr>, tbl)"

definition toy_client :: "bytes \<Rightarrow> session_info io \<times> tcp_transport" where
  "toy_client input =
     client_handshake toy_crypto tcp_ops (Some (replicate 16 7)) (Some (replicate 6 5)) [1]
       ((tcp_open PeerNone)\<lparr>rbuf := input\<rparr>)"

definition toy_client_bytes :: bytes where
  "toy_client_bytes =
     hello_msg (replicate 6 5) (x25519_public toy_crypto [1]) @
     hello_ack_msg (replicate 16 7) (replicate 32 9) (replicate 6 5) (x25519_public toy_crypto [1])
       (x25519_public toy_crypto [2])"

definition toy_server_bytes :: bytes where
  "toy_server_bytes =
     challenge_msg (replicate 32 9) (x25519_public toy_crypto [2]) @
     session_ok_msg (replicate 16 7) (replicate 32 9) (replicate 16 8) (x25519_public toy_crypto [1])
       (x25519_public toy_crypto [2])"

lemma toy_psk: "resolve_psk (PskBytes (replicate 16 7)) (replicate 6 5) = Inr (replicate 16 7)"
  by (simp add: resolve_psk_def lookup_psk_def)

lemma toy_runs:
  "\<exists>si st. toy_server toy_client_bytes [] = (Done si, st, []) \<and> device_id si = replicate 6 5"
  "\<exists>ci ct. toy_client toy_server_bytes = (Done ci, ct) \<and> device_id ci = replicate 6 5"
proof -
  obtain kc ks where k: "derive_session_keys toy_crypto [1] (x25519_public toy_crypto [2]) (replicate 32 9)
      (x25519_public toy_crypto [1]) (x25519_public toy_crypto [2]) = Inr (kc, ks)"
    using toy_session_keys by blast
  then have k': "derive_session_keys toy_crypto [2] (x25519_public toy_crypto [1]) (replicate 32 9)
      (x25519_public toy_crypto [1]) (x25519_public toy_crypto [2]) = Inr (kc, ks)"
    by (simp add: session_keys_agree [OF toy_crypto_laws(1,2), of "[2]" "[1]"])
  have l: "length kc = 32 \<and> length ks = 32" by (rule derive_session_keys_length [OF toy_crypto_laws(3) k])
  have p: "length (x25519_public toy_crypto x) = 32" for x
    using toy_crypto_laws(1) by (simp add: x25519_sized_def)
  have i: "SessionInfo (replicate 6 5) (replicate 16 8) ks kc = Inr (fresh_info (replicate 6 5) (replicate 16 8) ks kc)"
    "SessionInfo (replicate 6 5) (replicate 16 8) kc ks = Inr (fresh_info (replicate 6 5) (replicate 16 8) kc ks)"
    using l by (simp_all add: SessionInfo_Inr fresh_info_def)
  show "\<exists>si st. toy_server toy_client_bytes [] = (Done si, st, []) \<and> device_id si = replicate 6 5"
    using tcp_server_run(2) [OF _ p _ p _ toy_psk k' i(1), of "[]" "''h''" "''c''" 0 0 1]
    by (simp add: toy_server_def toy_client_bytes_def dict_get_def dict_pop_def fresh_info_def)
  show "\<exists>ci ct. toy_client toy_server_bytes = (Done ci, ct) \<and> device_id ci = replicate 6 5"
    using tcp_client_run(3) [OF _ _ p _ p _ k i(2), of "replicate 16 7" PeerNone]
    by (simp add: toy_client_def toy_server_bytes_def fresh_info_def)
qed

subsection \<open>Properties of the handshake\<close>

text \<open>Honest sides: every message of the one is what the other waits for.\<close>

lemma tcp_honest_runs:
  fixes conn :: string and now nf :: seconds and port :: int and peer :: peername
  assumes "x25519_sized c" "dh_commutes c" "hkdf_sized c"
    and "length dev = 6" "length nonce = 32" "length sid = 16" "resolve_psk src dev = Inr psk"
    and "derive_session_keys c a (x25519_public c b) nonce (x25519_public c a) (x25519_public c b) = Inr (kc, ks)"
    and "dict_get tbl host = None"
  defines "pc \<equiv> x25519_public c a" and "ps \<equiv> x25519_public c b"
    and "client \<equiv> client_handshake c tcp_ops (Some psk) (Some dev) a"
    and "server \<equiv> server_handshake c tcp_ops src conn b nonce sid now nf"
    and "ct \<equiv> tcp_open peer" and "st \<equiv> tcp_open (PeerTuple (host, port))"
  defines "up \<equiv> hello_msg dev pc @ hello_ack_msg psk nonce dev pc ps"
    and "down \<equiv> challenge_msg nonce ps @ session_ok_msg psk nonce sid pc ps"
  shows "client ct = (Waiting, ct\<lparr>wbuf := hello_msg dev pc\<rparr>)"
    and "server (st\<lparr>rbuf := hello_msg dev pc\<rparr>, tbl) = (Waiting, st\<lparr>wbuf := challenge_msg nonce ps\<rparr>, tbl)"
    and "client (ct\<lparr>rbuf := challenge_msg nonce ps\<rparr>) = (Waiting, ct\<lparr>wbuf := up\<rparr>)"
    and "server (st\<lparr>rbuf := up\<rparr>, tbl) = (Done (fresh_info dev sid ks kc), st\<lparr>wbuf := down\<rparr>, dict_pop tbl host)"
    and "client (ct\<lparr>rbuf := down\<rparr>) = (Done (fresh_info dev sid kc ks), ct\<lparr>wbuf := up\<rparr>)"
proof -
  have pl: "length pc = 32" "length ps = 32" using assms(1) by (simp_all add: x25519_sized_def pc_def ps_def)
  have "length kc = 32" "length ks = 32" using derive_session_keys_length [OF assms(3,8)] by simp_all
  then have i: "SessionInfo dev sid ks kc = Inr (fresh_info dev sid ks kc)" "SessionInfo dev sid kc ks = Inr (fresh_info dev sid kc ks)"
    using assms(4,6) by (simp_all add: SessionInfo_Inr fresh_info_def)
  have k: "derive_session_keys c b pc nonce pc ps = Inr (kc, ks)"
    using session_keys_agree [OF assms(1,2), of a b nonce] assms(8) by (simp add: pc_def ps_def)
  have psk: "16 \<le> length psk" using assms(7) by (rule resolve_psk_long)
  note server = tcp_server_run [OF assms(4) pl(1) assms(5) pl(2) [unfolded ps_def] assms(6,7) k [unfolded ps_def] i(1) assms(9), folded ps_def]
  note client = tcp_client_run [OF psk assms(4) pl(1) [unfolded pc_def] assms(5) pl(2) assms(6) assms(8) [folded ps_def] i(2), folded pc_def]
  show "client ct = (Waiting, ct\<lparr>wbuf := hello_msg dev pc\<rparr>)"
    "server (st\<lparr>rbuf := hello_msg dev pc\<rparr>, tbl) = (Waiting, st\<lparr>wbuf := challenge_msg nonce ps\<rparr>, tbl)"
    "client (ct\<lparr>rbuf := challenge_msg nonce ps\<rparr>) = (Waiting, ct\<lparr>wbuf := up\<rparr>)"
    "server (st\<lparr>rbuf := up\<rparr>, tbl) = (Done (fresh_info dev sid ks kc), st\<lparr>wbuf := down\<rparr>, dict_pop tbl host)"
    "client (ct\<lparr>rbuf := down\<rparr>) = (Done (fresh_info dev sid kc ks), ct\<lparr>wbuf := up\<rparr>)"
    unfolding client_def server_def ct_def st_def up_def down_def by (rule server client)+
qed

text \<open>
  C8. Client and server that share the pre-shared key of the device complete the handshake
  over TCP. Step by step: the client sends HELLO and waits; the server answers HELLO with
  CHALLENGE and waits; the client answers with HELLO_ACK and waits; the server accepts, sends
  SESSION_OK and forgets the peer's failures; the client accepts. Both ends then hold the same
  device and session id and the same two keys, each transmitting with the key the other
  receives with.
\<close>

theorem tcp_handshake_agreement:
  assumes "x25519_sized c" "dh_commutes c" "hkdf_sized c"
    and "length dev = 6" "length nonce = 32" "length sid = 16" "resolve_psk src dev = Inr psk"
    and "derive_session_keys c a (x25519_public c b) nonce (x25519_public c a) (x25519_public c b) = Inr (kc, ks)"
    and "dict_get tbl host = None"
  shows "let pc = x25519_public c a; ps = x25519_public c b;
      client = client_handshake c tcp_ops (Some psk) (Some dev) a;
      server = server_handshake c tcp_ops src conn b nonce sid now nf;
      ct = tcp_open peer; st = tcp_open (PeerTuple (host, port));
      hello = hello_msg dev pc; challenge = challenge_msg nonce ps;
      hello_ack = hello_ack_msg psk nonce dev pc ps; session_ok = session_ok_msg psk nonce sid pc ps
    in client ct = (Waiting, ct\<lparr>wbuf := hello\<rparr>) \<and>
      server (st\<lparr>rbuf := hello\<rparr>, tbl) = (Waiting, st\<lparr>wbuf := challenge\<rparr>, tbl) \<and>
      client (ct\<lparr>rbuf := challenge\<rparr>) = (Waiting, ct\<lparr>wbuf := hello @ hello_ack\<rparr>) \<and>
      (\<exists>si ci.
        server (st\<lparr>rbuf := hello @ hello_ack\<rparr>, tbl) =
          (Done si, st\<lparr>wbuf := challenge @ session_ok\<rparr>, dict_pop tbl host) \<and>
        client (ct\<lparr>rbuf := challenge @ session_ok\<rparr>) = (Done ci, ct\<lparr>wbuf := hello @ hello_ack\<rparr>) \<and>
        device_id si = dev \<and> device_id ci = dev \<and> session_id si = sid \<and> session_id ci = sid \<and>
        tx_key ci = kc \<and> rx_key si = kc \<and> tx_key si = ks \<and> rx_key ci = ks \<and>
        tx_seq si = 0 \<and> rx_seq si = 0 \<and> tx_seq ci = 0 \<and> rx_seq ci = 0)"
  using tcp_honest_runs [OF assms] unfolding Let_def by (auto simp: fresh_info_def)

theorem tcp_handshake_agreement_witness:
  "\<exists>si ci st' ct'. toy_server toy_client_bytes [] = (Done si, st', []) \<and>
     toy_client (wbuf st') = (Done ci, ct') \<and> tx_key ci = rx_key si \<and> rx_key ci = tx_key si"
proof -
  obtain kc ks where k: "derive_session_keys toy_crypto [1] (x25519_public toy_crypto [2]) (replicate 32 9)
      (x25519_public toy_crypto [1]) (x25519_public toy_crypto [2]) = Inr (kc, ks)"
    using toy_session_keys by blast
  show ?thesis
    using tcp_handshake_agreement [OF toy_crypto_laws(1-3) _ _ _ toy_psk k, where sid = "replicate 16 8"
        and tbl = "[]" and host = "''h''" and peer = PeerNone and conn = "''c''" and now = 0 and nf = 0 and port = 1]
    by (auto simp: Let_def dict_get_def dict_pop_def toy_server_def toy_client_def toy_client_bytes_def)
qed

text \<open>
  C6. Over any transport the server establishes a session only for a peer that proved
  knowledge of the pre-shared key of the device it claims: it read a HELLO naming the device
  and a HELLO_ACK whose payload is the HMAC, under the key configured for that device, of this
  handshake's fresh nonce, the device id and both public keys. The session has the keys
  derived from those public keys, and the peer's failure count is forgotten.
\<close>

theorem server_accepts_only_authenticated:
  assumes "server_handshake c T src conn priv nonce sid now nf (t, tbl) = (Done info, t', tbl')"
  shows "\<exists>hello ack psk t1 t2 t3. let pub_c = py_slice 6 38 (f_payload hello); pub_s = x25519_public c priv in
    t_read_frame T False t = (Done hello, t1) \<and> f_type hello = HELLO \<and>
    take 6 (f_payload hello) = device_id info \<and>
    resolve_psk src (device_id info) = Inr psk \<and> 16 \<le> length psk \<and>
    t_write_frame T CHALLENGE (nonce @ pub_s) 0 t1 = (Done (), t2) \<and>
    t_read_frame T False t2 = (Done ack, t3) \<and> f_type ack = HELLO_ACK \<and>
    take 32 (f_payload ack) = hmac_sha256 psk (client_transcript nonce (device_id info) pub_c pub_s) \<and>
    derive_session_keys c priv pub_c nonce pub_c pub_s = Inr (rx_key info, tx_key info) \<and>
    session_id info = sid \<and> tbl' = dict_pop tbl (limiter_key conn (t_peername T t))"
  using assms refl
proof (cases rule: server_handshake_cases)
  case (accepted dev txk rxk i)
  have i: "device_id info = dev" "session_id info = sid" "tx_key info = txk" "rx_key info = rxk"
    using accepted(2,3) by (auto simp: SessionInfo_Inr)
  from accepted(1) show ?thesis
    by (rule server_exchange_DoneE) (auto simp: Let_def i accepted(4) dest: resolve_psk_long)
qed (auto simp: handshake_failed_def split: if_splits sum.splits)

theorem server_accepts_only_authenticated_witness:
  "\<exists>hello t1. t_read_frame tcp_ops False ((tcp_open (PeerTuple (''h'', 1)))\<lparr>rbuf := toy_client_bytes\<rparr>) = (Done hello, t1) \<and>
     take 6 (f_payload hello) = replicate 6 5"
proof -
  obtain si st where s: "toy_server toy_client_bytes [] = (Done si, st, [])" "device_id si = replicate 6 5"
    using toy_runs(1) by blast
  show ?thesis
    using server_accepts_only_authenticated [OF s(1) [unfolded toy_server_def]] s(2) by (auto simp: Let_def)
qed

text \<open>
  C20. The client accepts a session only from a server that proved knowledge of the client's
  pre-shared key: it read a SESSION_OK whose second part is the HMAC, under that key, of the
  nonce of the CHALLENGE, the session id and both public keys. The session's transmit key is
  the client-to-server key derived from them.
\<close>

theorem client_accepts_only_authenticated:
  assumes "client_handshake c T (Some psk) (Some dev) priv t = (Done info, t')"
  shows "\<exists>chal ok s1 s2 s3 s4. let nonce = take 32 (f_payload chal); pub_s = py_slice 32 64 (f_payload chal);
      pub_c = x25519_public c priv in
    t_read_frame T False s1 = (Done chal, s2) \<and> f_type chal = CHALLENGE \<and>
    t_read_frame T False s3 = (Done ok, s4) \<and> f_type ok = SESSION_OK \<and>
    session_id info = take 16 (f_payload ok) \<and> device_id info = dev \<and> 16 \<le> length psk \<and>
    py_slice 16 48 (f_payload ok) = hmac_sha256 psk (server_transcript nonce (session_id info) pub_c pub_s) \<and>
    derive_session_keys c priv pub_s nonce pub_c pub_s = Inr (tx_key info, rx_key info)"
proof -
  obtain chal s s' where r: "t_read_frame T False s = (Done chal, s')" "16 \<le> length psk"
    and a: "client_answer c T psk dev priv (x25519_public c priv) chal s' = (Done info, t')"
    using assms by (rule client_handshake_DoneE)
  from a show ?thesis
  proof (rule client_answer_DoneE)
    fix ok txk rxk t1 t2
    assume *: "f_type chal = CHALLENGE" "t_read_frame T False t1 = (Done ok, t2)" "f_type ok = SESSION_OK"
      "derive_session_keys c priv (py_slice 32 64 (f_payload chal)) (take 32 (f_payload chal)) (x25519_public c priv)
         (py_slice 32 64 (f_payload chal)) = Inr (txk, rxk)"
      "py_slice 16 48 (f_payload ok) = hmac_sha256 psk (server_transcript (take 32 (f_payload chal))
         (take 16 (f_payload ok)) (x25519_public c priv) (py_slice 32 64 (f_payload chal)))"
      "SessionInfo dev (take 16 (f_payload ok)) txk rxk = Inr info"
    have i: "session_id info = take 16 (f_payload ok)" "device_id info = dev" "tx_key info = txk" "rx_key info = rxk"
      using *(6) by (auto simp: SessionInfo_Inr)
    show ?thesis
      unfolding Let_def i
      by (rule exI [of _ chal], rule exI [of _ ok], rule exI [of _ s], rule exI [of _ s'],
          rule exI [of _ t1], rule exI [of _ t2])
        (use * r in simp)
  qed
qed

theorem client_accepts_only_authenticated_witness:
  "\<exists>ci ct ok s s'. toy_client toy_server_bytes = (Done ci, ct) \<and>
     t_read_frame tcp_ops False s = (Done ok, s') \<and> session_id ci = take 16 (f_payload ok)"
proof -
  obtain ci ct where c: "toy_client toy_server_bytes = (Done ci, ct)" using toy_runs(2) by blast
  show ?thesis
    using client_accepts_only_authenticated [OF c [unfolded toy_client_def]] c unfolding Let_def by blast
qed

text \<open>
  The two MACs cannot be confused: no HELLO_ACK transcript is a SESSION_OK transcript, so
  neither side's MAC can be reflected as the other's; and each transcript determines the
  nonce, the identifier and both public keys.
\<close>

lemma transcripts_bind_fields:
  "client_transcript n d pc ps \<noteq> server_transcript n' s pc' ps' \<and>
   (length n = length n' \<longrightarrow> length d = length d' \<longrightarrow> length pc = length pc' \<longrightarrow>
      client_transcript n d pc ps = client_transcript n' d' pc' ps' \<longrightarrow> n = n' \<and> d = d' \<and> pc = pc' \<and> ps = ps') \<and>
   (length n = length n' \<longrightarrow> length s = length s' \<longrightarrow> length pc = length pc' \<longrightarrow>
      server_transcript n s pc ps = server_transcript n' s' pc' ps' \<longrightarrow> n = n' \<and> s = s' \<and> pc = pc' \<and> ps = ps')"
  by (auto simp: client_transcript_def server_transcript_def)

text \<open>
  A peer whose lockout has not run out is refused before anything is read or sent, and
  the refusal itself is not counted as a further failure.
\<close>

lemma locked_out_peer_refused:
  assumes "dict_get tbl (limiter_key conn (t_peername T t)) = Some (n, lockout, last_at)" "now < lockout"
  shows "server_handshake c T src conn priv nonce sid now nf (t, tbl) = (Raise HandshakeError, t, tbl)"
  using assms by (simp add: server_handshake_def Let_def)

text \<open>
  What a handshake does to the failure table: a success removes the peer's entry; an
  attempt that is still waiting (so also one that is cancelled) changes nothing; an exception
  changes it only if it is a protocol failure and no transport failure, and then the failure
  of this peer is recorded. The table invariant is kept in every case.
\<close>

lemma server_handshake_table:
  assumes "server_handshake c T src conn priv nonce sid now nf (t, tbl) = (r, t', tbl')" "limiter_inv tbl"
  shows "limiter_inv tbl' \<and>
    (case r of
       Done info \<Rightarrow> tbl' = dict_pop tbl (limiter_key conn (t_peername T t))
     | Waiting \<Rightarrow> tbl' = tbl
     | Raise e \<Rightarrow> \<exists>base\<in>{tbl, dict_pop tbl (limiter_key conn (t_peername T t))}. tbl' = base \<or>
         (catches failure_exns e \<and> \<not> catches disconnect_exns e \<and>
          record_failed_handshake nf (limiter_key conn (t_peername T t)) base = Inr tbl'))"
  using assms(1) refl
proof (cases rule: server_handshake_cases)
  case (raised e base)
  have b: "limiter_inv base" using raised(2) assms(2) by (auto intro: limiter_inv_pop)
  from handshake_failed_table [OF raised(1)] show ?thesis
    using raised(2) b by (auto intro: limiter_inv_record)
qed (use assms(2) in \<open>auto intro: limiter_inv_pop\<close>)

lemma record_Inl: "record_failed_handshake now key tbl = Inl e \<Longrightarrow> e = OverflowError"
proof -
  assume r: "record_failed_handshake now key tbl = Inl e"
  have "\<exists>k. oldest_key tbl = Inr k" if "1000 \<le> length tbl" using that by (intro oldest_key_ok) auto
  then show ?thesis
    using r by (auto simp: record_failed_handshake_def Let_def io_simps lockout_for_def backoff_seconds_def split: if_splits)
qed

lemma tcp_server_wrong_mac:
  assumes l: "length dev = 6" "length pc = 32" "length nonce = 32" "length sid = 16" "length mac = 32"
    and c: "x25519_sized c" "resolve_psk src dev = Inr psk"
    and keys: "derive_session_keys c priv pc nonce pc (x25519_public c priv) = Inr (kc, ks)"
    and bad: "mac \<noteq> hmac_sha256 psk (client_transcript nonce dev pc (x25519_public c priv))"
    and free: "\<nexists>n l a. dict_get tbl host = Some (n, l, a) \<and> l > now"
    and tbl: "record_failed_handshake nf host tbl = Inr tbl'"
  shows "let st = tcp_open (PeerTuple (host, port)) in
    server_handshake c tcp_ops src conn priv nonce sid now nf
      (st\<lparr>rbuf := hello_msg dev pc @ frame_bytes USMP_VERSION HELLO_ACK 2 mac\<rparr>, tbl) =
    (Raise AuthError, st\<lparr>wbuf := challenge_msg nonce (x25519_public c priv)\<rparr>, tbl')"
proof -
  let ?st = "tcp_open (PeerTuple (host, port))"
  have p: "length (x25519_public c priv) = 32" using c(1) by (simp add: x25519_sized_def)
  have live: "tcp_live ?st" by (simp add: tcp_live_def tcp_open_def)
  have key: "limiter_key conn (t_peername tcp_ops (?st\<lparr>rbuf := x\<rparr>)) = host" for x
    by (simp add: tcp_open_def limiter_key_def)
  show ?thesis
    using live bad l unfolding Let_def
    by (simp add: server_handshake_run [OF key free] tcp_server_exchange [OF _ _ l(1-3) p c(2) keys]
        tcp_server_verify [where rest = "[]"] handshake_failed_def failure_exns_def disconnect_exns_def tbl)
      (simp add: tcp_open_def)
qed

text \<open>A concrete client that does not know the key.\<close>

definition toy_mac :: bytes where
  "toy_mac = map ((+) 1) (hmac_sha256 (replicate 16 7)
     (client_transcript (replicate 32 9) (replicate 6 5) (x25519_public toy_crypto [1]) (x25519_public toy_crypto [2])))"

definition toy_bad_bytes :: bytes where
  "toy_bad_bytes =
     hello_msg (replicate 6 5) (x25519_public toy_crypto [1]) @ frame_bytes USMP_VERSION HELLO_ACK 2 toy_mac"

lemma toy_public_length: "length (x25519_public toy_crypto x) = 32"
  using toy_crypto_laws(1) by (simp add: x25519_sized_def)

lemma toy_mac_length: "length toy_mac = 32"
  by (simp add: toy_mac_def)

lemma toy_bad_mac:
  "toy_mac \<noteq> hmac_sha256 (replicate 16 7)
     (client_transcript (replicate 32 9) (replicate 6 5) (x25519_public toy_crypto [1]) (x25519_public toy_crypto [2]))"
proof -
  have "map ((+) 1) h \<noteq> h" if "length h = 32" for h :: bytes using that by (cases h) auto
  then show ?thesis by (simp add: toy_mac_def)
qed

lemma toy_server_rejects:
  assumes "\<nexists>n l a. dict_get tbl ''h'' = Some (n, l, a) \<and> l > 0" "record_failed_handshake 0 ''h'' tbl = Inr tbl'"
  shows "\<exists>t. toy_server toy_bad_bytes tbl = (Raise AuthError, t, tbl')"
proof -
  obtain kc ks where k: "derive_session_keys toy_crypto [2] (x25519_public toy_crypto [1]) (replicate 32 9)
      (x25519_public toy_crypto [1]) (x25519_public toy_crypto [2]) = Inr (kc, ks)"
    using toy_session_keys [of "replicate 32 9"]
    by (auto simp: session_keys_agree [OF toy_crypto_laws(1,2), of "[2]" "[1]"])
  show ?thesis
    using tcp_server_wrong_mac [OF _ toy_public_length _ _ _ toy_crypto_laws(1) toy_psk k toy_bad_mac assms,
        where port = 1 and conn = "''c''" and sid = "replicate 16 8"]
    unfolding Let_def by (simp add: toy_server_def toy_bad_bytes_def toy_mac_length)
qed

text \<open>
  Guessing is throttled: when a peer with four or more recorded failures fails the client
  authentication once more, every handshake the peer tries in the following second, over
  whatever transport, is refused without reading or sending anything.
\<close>

lemma repeated_failures_lock_out:
  assumes "server_handshake c T src conn priv nonce sid now nf (t, tbl) = (Raise AuthError, t', tbl')"
    and "limiter_key conn (t_peername T t) = key" "limiter_key conn2 (t_peername T2 t2) = key"
    and "limiter_inv tbl" "4 \<le> fails_of tbl key" "now2 < nf + 1"
  shows "server_handshake c T2 src conn2 priv2 nonce2 sid2 now2 nf2 (t2, tbl') = (Raise HandshakeError, t2, tbl')"
  using assms(1,2)
proof (cases rule: server_handshake_cases)
  case (raised e base)
  have e: "e = AuthError" and r: "record_failed_handshake nf key tbl = Inr tbl'"
    using raised by (auto simp: handshake_failed_def failure_exns_def disconnect_exns_def dest: record_Inl
        split: if_splits sum.splits)
  have "dict_ok tbl" using assms(4) by (simp add: limiter_inv_def)
  then obtain l where l: "lockout_for (Suc (fails_of tbl key)) nf = Inr l"
      "dict_get tbl' key = Some (Suc (fails_of tbl key), l, nf)"
    using record_get_key [OF _ r] by blast
  then have "now2 < l" using lockout_positive [OF l(1)] assms(5,6) by simp
  then show ?thesis using l(2) assms(3) by (simp add: server_handshake_def Let_def)
qed simp_all

text \<open>
  A peer that answers the challenge with anything but the right MAC is rejected with
  \<open>AuthError\<close> after the CHALLENGE, gets no SESSION_OK, and the failure is recorded.
\<close>

lemma tcp_wrong_mac_rejected:
  assumes l: "length dev = 6" "length pc = 32" "length nonce = 32" "length sid = 16" "length mac = 32"
    and c: "x25519_sized c" "resolve_psk src dev = Inr psk"
    and keys: "derive_session_keys c priv pc nonce pc (x25519_public c priv) = Inr (kc, ks)"
    and bad: "mac \<noteq> hmac_sha256 psk (client_transcript nonce dev pc (x25519_public c priv))"
    and tbl: "dict_get tbl host = None" "record_failed_handshake nf host tbl = Inr tbl'"
  shows "let st = tcp_open (PeerTuple (host, port)) in
    server_handshake c tcp_ops src conn priv nonce sid now nf
      (st\<lparr>rbuf := hello_msg dev pc @ frame_bytes USMP_VERSION HELLO_ACK 2 mac\<rparr>, tbl) =
    (Raise AuthError, st\<lparr>wbuf := challenge_msg nonce (x25519_public c priv)\<rparr>, tbl')"
  using tcp_server_wrong_mac [OF l c keys bad _ tbl(2)] tbl(1) by simp

text \<open>
  A peer that connects and closes the connection without sending a byte is recorded as a
  failed handshake: the end of the stream is turned into \<open>HandshakeError\<close> inside the
  \<open>try\<close>, and that is a protocol failure for the \<open>except\<close> clauses.
\<close>

lemma clean_disconnect_is_counted:
  assumes "dict_get tbl host = None" "record_failed_handshake nf host tbl = Inr tbl'"
  shows "let st = (tcp_open (PeerTuple (host, port)))\<lparr>at_eof := True\<rparr> in
    server_handshake c tcp_ops src conn priv nonce sid now nf (st, tbl) = (Raise HandshakeError, st, tbl')"
proof -
  let ?st = "(tcp_open (PeerTuple (host, port)))\<lparr>at_eof := True\<rparr>"
  have free: "\<nexists>n l a. dict_get tbl host = Some (n, l, a) \<and> l > now" using assms(1) by simp
  have key: "limiter_key conn (t_peername tcp_ops ?st) = host" by (simp add: tcp_open_def limiter_key_def)
  have "read_handshake_frame tcp_ops ?st = (Raise HandshakeError, ?st)"
    by (simp add: tcp_read_handshake_empty tcp_open_def)
  then show ?thesis
    using assms(2) unfolding Let_def
    by (simp add: server_handshake_run [OF key free] server_exchange_def coro_bind_def handshake_failed_def
        failure_exns_def disconnect_exns_def)
qed

end
