(* ===== verification/Udp.thy ===== *)
theory Udp
  imports Transport
begin

text \<open>
  \<open>UDPStream\<close> of \<open>src/src/usmp/transport/udp.py\<close>: datagram intake with UTACKs and duplicate
  detection, the bounded read buffer, the stop-and-wait retransmission of \<open>drain\<close> and its
  round-trip estimate. \<open>sent\<close> logs the datagrams given to \<open>sendto\<close>, oldest first.
  \<open>net\<close> is the environment of the waits inside \<open>drain\<close>: one entry per wait, with how long
  the wait lasted and the datagrams the event loop delivered during it; with no entry left
  nothing arrives any more.
\<close>

definition UTACK_MAGIC :: bytes where "UTACK_MAGIC = [0xAC, 0xAC]"
definition UTACK_MAC_LEN :: nat where "UTACK_MAC_LEN = 8"
definition UTACK_HEADER_LEN :: nat where "UTACK_HEADER_LEN = 7"
definition MAX_READ_BUFFER :: nat where "MAX_READ_BUFFER = 4096"

lemmas utack_consts = UTACK_MAGIC_def UTACK_MAC_LEN_def UTACK_HEADER_LEN_def MAX_READ_BUFFER_def

record udp_stream =
  remote_addr :: addr
  is_server :: bool
  read_buffer :: bytes
  last_rx_seq :: int
  last_rx_type :: int
  pending_send_data :: "bytes option"
  pending_send_seq :: "int option"
  pending_send_type :: "int option"
  ack_received :: bool
  u_closed :: bool
  u_tx_key :: "bytes option"
  u_rx_key :: "bytes option"
  srtt :: seconds
  rttvar :: seconds
  rto :: seconds
  endpoint_closed :: bool
  sent :: "bytes list"
  net :: "(seconds \<times> bytes list) list"

definition UDPStream :: "addr \<Rightarrow> bool \<Rightarrow> udp_stream" where
  "UDPStream addr server =
     \<lparr>remote_addr = addr, is_server = server, read_buffer = [], last_rx_seq = -1, last_rx_type = -1,
      pending_send_data = None, pending_send_seq = None, pending_send_type = None,
      ack_received = False, u_closed = False, u_tx_key = None, u_rx_key = None,
      srtt = 2 / 10, rttvar = 1 / 10, rto = 5 / 10, endpoint_closed = False, sent = [], net = []\<rparr>"

definition sendto :: "bytes \<Rightarrow> udp_stream \<Rightarrow> udp_stream" where
  "sendto data st = st\<lparr>sent := sent st @ [data]\<rparr>"

definition udp_set_session_keys :: "bytes \<Rightarrow> bytes \<Rightarrow> udp_stream \<Rightarrow> udp_stream" where
  "udp_set_session_keys txk rxk st = st\<lparr>u_tx_key := Some txk, u_rx_key := Some rxk\<rparr>"

definition utack_mac :: "bytes \<Rightarrow> bytes \<Rightarrow> bytes" where
  "utack_mac key header = take UTACK_MAC_LEN (hmac_sha256 key header)"

definition build_utack :: "int \<Rightarrow> int \<Rightarrow> udp_stream \<Rightarrow> bytes result" where
  "build_utack type_val seq_val st =
     bind_result (bytes_of [type_val]) (\<lambda>tb.
     bind_result (pack_I seq_val) (\<lambda>sb.
     let header = UTACK_MAGIC @ tb @ sb in
     case u_rx_key st of
       Some key \<Rightarrow> Inr (if type_val \<ge> 5 then header @ utack_mac key header else header)
     | None \<Rightarrow> Inr header))"

definition send_utack :: "int \<Rightarrow> int \<Rightarrow> (udp_stream, unit) coro" where
  "send_utack type_val seq_val st =
     (case build_utack type_val seq_val st of
        Inl e \<Rightarrow> (Raise e, st)
      | Inr pkt \<Rightarrow> (Done (), sendto pkt st))"

text \<open>The UTACK branch of \<open>feed_packet\<close>.\<close>

definition utack_authentic :: "bytes \<Rightarrow> udp_stream \<Rightarrow> bool" where
  "utack_authentic data st =
     (case u_tx_key st of
        None \<Rightarrow> False
      | Some key \<Rightarrow>
          UTACK_HEADER_LEN + UTACK_MAC_LEN \<le> length data \<and>
          utack_mac key (take UTACK_HEADER_LEN data) =
            py_slice UTACK_HEADER_LEN (UTACK_HEADER_LEN + UTACK_MAC_LEN) data)"

definition feed_utack :: "bytes \<Rightarrow> (udp_stream, unit) coro" where
  "feed_utack data st =
     (let type_val = uint (data ! 2) in
      coro_bind (coro_lift (unpack_I (py_slice 3 7 data) 0)) (\<lambda>seq_val st.
        if type_val \<ge> 5 \<and> \<not> utack_authentic data st then (Done (), st)
        else if pending_send_seq st = Some seq_val \<and> pending_send_type st = Some type_val
        then (Done (), st\<lparr>ack_received := True\<rparr>)
        else (Done (), st)) st)"

definition handshake_duplicate :: "int \<Rightarrow> udp_stream \<Rightarrow> bool" where
  "handshake_duplicate type_val st \<longleftrightarrow>
     type_val = last_rx_type st
     \<or> (type_val = 0x0A \<and> last_rx_type st \<noteq> -1)
     \<or> (type_val = 2 \<and> last_rx_type st = 4)
     \<or> (is_server st \<and> last_rx_type st \<noteq> -1 \<and> type_val \<le> last_rx_type st)"

text \<open>The end of \<open>feed_packet\<close>: the buffer cap, then the UTACK, then the data.\<close>

definition buffer_packet :: "bytes \<Rightarrow> int \<Rightarrow> int \<Rightarrow> (udp_stream, unit) coro" where
  "buffer_packet data type_val seq_val st =
     (if length (read_buffer st) + length data > MAX_READ_BUFFER then (Done (), st)
      else
        coro_bind (send_utack type_val seq_val)
          (\<lambda>_ st. (Done (), st\<lparr>read_buffer := read_buffer st @ data\<rparr>)) st)"

text \<open>The USMP-frame branch of \<open>feed_packet\<close>.\<close>

definition feed_frame :: "bytes \<Rightarrow> (udp_stream, unit) coro" where
  "feed_frame data st =
     (if length data < USMP_HEADER_SIZE then (Done (), st)
      else
        coro_bind (coro_lift (unpack_H (take 2 data) 0)) (\<lambda>magic.
        coro_bind (coro_lift (unpack_H (py_slice 8 10 data) 0)) (\<lambda>len.
        coro_bind (coro_lift (unpack_I (py_slice 4 8 data) 0)) (\<lambda>seq_val st.
        let type_val = uint (data ! 3) in
        if magic \<noteq> 0xABCD then (Done (), st)
        else if len > int USMP_MAX_PAYLOAD then (Done (), st)
        else if int (length data) \<noteq> int USMP_HEADER_SIZE + len then (Done (), st)
        else if type_val < 5 \<or> type_val = 0x0A then
          (if handshake_duplicate type_val st then send_utack type_val seq_val st
           else buffer_packet data type_val seq_val (st\<lparr>last_rx_type := type_val\<rparr>))
        else if last_rx_seq st \<noteq> -1 \<and> seq_val \<le> last_rx_seq st - 64
        then send_utack type_val seq_val st
        else buffer_packet data type_val seq_val st))) st)"

definition feed_packet :: "bytes \<Rightarrow> (udp_stream, unit) coro" where
  "feed_packet data st =
     (if u_closed st then (Done (), st)
      else if UTACK_HEADER_LEN \<le> length data \<and> take 2 data = UTACK_MAGIC then feed_utack data st
      else feed_frame data st)"

definition udp_confirm_authenticated :: "int \<Rightarrow> udp_stream \<Rightarrow> udp_stream" where
  "udp_confirm_authenticated seq st =
     (if seq > last_rx_seq st then st\<lparr>last_rx_seq := seq\<rparr> else st)"

definition udp_readexactly :: "nat \<Rightarrow> (udp_stream, bytes) coro" where
  "udp_readexactly n st =
     (if length (read_buffer st) < n then
        (if u_closed st then (Raise IncompleteReadError, st) else (Waiting, st))
      else (Done (take n (read_buffer st)), st\<lparr>read_buffer := drop n (read_buffer st)\<rparr>))"

definition udp_write :: "bytes \<Rightarrow> (udp_stream, unit) coro" where
  "udp_write data st =
     (if u_closed st then (Raise OSError, st)
      else
        let st1 = st\<lparr>pending_send_data := Some data\<rparr> in
        if length data \<ge> 8 then
          coro_bind (coro_lift (unpack_I (py_slice 4 8 data) 0)) (\<lambda>seq st.
            (Done (), st\<lparr>pending_send_type := Some (uint (data ! 3)), pending_send_seq := Some seq\<rparr>)) st1
        else (Done (), st1\<lparr>pending_send_type := None, pending_send_seq := None\<rparr>))"

definition update_rtt :: "seconds \<Rightarrow> udp_stream \<Rightarrow> udp_stream" where
  "update_rtt sample_rtt st =
     (let err = sample_rtt - srtt st;
          rttvar' = rttvar st + 1 / 4 * (\<bar>err\<bar> - rttvar st);
          srtt' = srtt st + 1 / 8 * err
      in st\<lparr>rttvar := rttvar', srtt := srtt', rto := max (1 / 10) (min 5 (srtt' + 4 * rttvar'))\<rparr>)"

definition arq_timeout :: "seconds \<Rightarrow> nat \<Rightarrow> seconds" where
  "arq_timeout base_rto attempt = min 5 (max (5 / 100) (base_rto * 2 ^ attempt))"

text \<open>What the event loop delivers while \<open>drain\<close> waits.\<close>

definition deliver :: "bytes list \<Rightarrow> udp_stream \<Rightarrow> udp_stream" where
  "deliver ds st = fold (\<lambda>d st. snd (feed_packet d st)) ds st"

definition await_network :: "udp_stream \<Rightarrow> seconds option \<times> udp_stream" where
  "await_network st =
     (case net st of
        [] \<Rightarrow> (None, st)
      | (elapsed, ds) # rest \<Rightarrow> (Some elapsed, deliver ds (st\<lparr>net := rest\<rparr>)))"

text \<open>
  The \<open>for attempt in range(5)\<close> loop of \<open>drain\<close>, with \<open>left\<close> attempts to go. An
  acknowledgement that came in after a timeout ends the next wait at once.
\<close>

fun arq_loop :: "nat \<Rightarrow> nat \<Rightarrow> seconds \<Rightarrow> bytes \<Rightarrow> (udp_stream, unit) coro" where
  "arq_loop 0 attempt base_rto data st = (Raise OSError, st)"
| "arq_loop (Suc left) attempt base_rto data st =
     (if ack_received st
      then (Done (), if attempt = 0 then update_rtt 0 (sendto data st) else sendto data st)
      else
        let (elapsed, st1) = await_network (sendto data st) in
        case elapsed of
          Some d \<Rightarrow>
            if ack_received st1 \<and> d \<le> arq_timeout base_rto attempt
            then (Done (), if attempt = 0 then update_rtt d st1 else st1)
            else arq_loop left (Suc attempt) base_rto data st1
        | None \<Rightarrow> arq_loop left (Suc attempt) base_rto data st1)"

definition udp_drain :: "(udp_stream, unit) coro" where
  "udp_drain st =
     (case pending_send_data st of
        None \<Rightarrow> (Done (), st)
      | Some data \<Rightarrow>
          let st1 = st\<lparr>pending_send_data := None\<rparr> in
          case pending_send_seq st1 of
            None \<Rightarrow> (Done (), sendto data st1)
          | Some _ \<Rightarrow> arq_loop 5 0 (rto st1) data (st1\<lparr>ack_received := False\<rparr>))"

definition udp_read_frame :: "bool \<Rightarrow> (udp_stream, usmp_frame) coro" where
  "udp_read_frame verify_crc = read_frame udp_readexactly verify_crc"

definition udp_write_frame :: "packet_type \<Rightarrow> bytes \<Rightarrow> int \<Rightarrow> (udp_stream, unit) coro" where
  "udp_write_frame ptype payload seq =
     coro_bind (coro_lift (encode_frame ptype payload seq USMP_VERSION)) (\<lambda>data.
     coro_bind (udp_write data) (\<lambda>_. udp_drain))"

definition udp_close :: "udp_stream \<Rightarrow> udp_stream" where
  "udp_close st =
     (if is_server st then st\<lparr>u_closed := True\<rparr> else st\<lparr>u_closed := True, endpoint_closed := True\<rparr>)"

definition udp_ops :: "udp_stream transport_ops" where
  "udp_ops =
     \<lparr>is_reliable = False, t_read_frame = udp_read_frame, t_write_frame = udp_write_frame,
      t_set_session_keys = udp_set_session_keys, t_confirm_authenticated = udp_confirm_authenticated,
      t_peername = (\<lambda>st. PeerTuple (remote_addr st)), t_close = udp_close\<rparr>"

subsection \<open>Intake, unfolded\<close>

text \<open>One USMP frame filling a datagram exactly: what the length checks of \<open>feed_packet\<close> let through.\<close>

definition datagram_ok :: "bytes \<Rightarrow> bool" where
  "datagram_ok data \<longleftrightarrow>
     12 \<le> length data \<and> length data \<le> 492 \<and> take 2 data = le_bytes 2 USMP_MAGIC \<and>
     py_slice 8 10 data = le_bytes 2 (int (length data) - 12)"

definition dg_type :: "bytes \<Rightarrow> int" where "dg_type data = uint (data ! 3)"
definition dg_seq :: "bytes \<Rightarrow> int" where "dg_seq data = le_value (py_slice 4 8 data)"

definition utack_bytes :: "int \<Rightarrow> int \<Rightarrow> udp_stream \<Rightarrow> bytes" where
  "utack_bytes t s st =
     (let header = UTACK_MAGIC @ [word_of_int t] @ le_bytes 4 s in
      case u_rx_key st of
        Some key \<Rightarrow> if t \<ge> 5 then header @ utack_mac key header else header
      | None \<Rightarrow> header)"

lemma length_utack_mac [simp]: "length (utack_mac key h) = 8"
  by (simp add: utack_mac_def UTACK_MAC_LEN_def)

lemma send_utack_ok:
  "0 \<le> t \<Longrightarrow> t < 256 \<Longrightarrow> 0 \<le> s \<Longrightarrow> s < 4294967296 \<Longrightarrow>
    send_utack t s st = (Done (), sendto (utack_bytes t s st) st)"
  by (simp add: send_utack_def build_utack_def bytes_of_def I.pack_in_range utack_bytes_def Let_def
      split: option.splits)

lemma dg_type_range [simp]: "0 \<le> dg_type data" "dg_type data < 256"
  by (simp_all add: dg_type_def)

lemma dg_seq_range [simp]: "12 \<le> length data \<Longrightarrow> 0 \<le> dg_seq data" "12 \<le> length data \<Longrightarrow> dg_seq data < 4294967296"
  using le_value_bounds [of "py_slice 4 8 data"] by (simp_all add: dg_seq_def length_py_slice)

definition buffered :: "bytes \<Rightarrow> udp_stream \<Rightarrow> udp_stream" where
  "buffered data st =
     (if length (read_buffer st) + length data > MAX_READ_BUFFER then st
      else (sendto (utack_bytes (dg_type data) (dg_seq data) st) st)
             \<lparr>read_buffer := read_buffer st @ data\<rparr>)"

lemma buffer_packet_eq:
  "12 \<le> length data \<Longrightarrow> t = dg_type data \<Longrightarrow>
    buffer_packet data t (dg_seq data) st = (Done (), buffered data st)"
  by (simp add: buffer_packet_def buffered_def coro_bind_def send_utack_ok sendto_def)

lemma le_value_eq_le_bytes:
  "length bs = w \<Longrightarrow> 0 \<le> x \<Longrightarrow> x < 256 ^ w \<Longrightarrow> le_value bs = x \<longleftrightarrow> bs = le_bytes w x"
  by (metis le_bytes_le_value le_value_le_bytes)

lemma datagram_ok_iff:
  assumes "12 \<le> length data"
  shows "datagram_ok data \<longleftrightarrow>
    le_value (take 2 data) = 0xABCD \<and> \<not> le_value (py_slice 8 10 data) > 480 \<and>
    int (length data) = 12 + le_value (py_slice 8 10 data)"
proof -
  have "take 2 data = le_bytes 2 USMP_MAGIC \<longleftrightarrow> le_value (take 2 data) = 0xABCD"
    using assms by (subst le_value_eq_le_bytes) (simp_all add: USMP_MAGIC_def)
  moreover have "py_slice 8 10 data = le_bytes 2 (int (length data) - 12) \<longleftrightarrow>
      le_value (py_slice 8 10 data) = int (length data) - 12" if "length data \<le> 492"
    using assms that by (subst le_value_eq_le_bytes) (simp_all add: length_py_slice)
  ultimately show ?thesis
    unfolding datagram_ok_def using assms by (cases "length data \<le> 492"; simp; linarith)
qed

lemma feed_frame_eq:
  "feed_frame data st =
     (Done (),
      if \<not> datagram_ok data then st
      else if dg_type data < 5 \<or> dg_type data = 0x0A then
        (if handshake_duplicate (dg_type data) st
         then sendto (utack_bytes (dg_type data) (dg_seq data) st) st
         else buffered data (st\<lparr>last_rx_type := dg_type data\<rparr>))
      else if last_rx_seq st \<noteq> -1 \<and> dg_seq data \<le> last_rx_seq st - 64
      then sendto (utack_bytes (dg_type data) (dg_seq data) st) st
      else buffered data st)"
proof (cases "length data < 12")
  case True
  then show ?thesis by (simp add: feed_frame_def datagram_ok_def USMP_HEADER_SIZE_def)
next
  case False
  then have len: "12 \<le> length data" by simp
  have u: "unpack_H (take 2 data) 0 = Inr (le_value (take 2 data))"
    "unpack_H (py_slice 8 10 data) 0 = Inr (le_value (py_slice 8 10 data))"
    "unpack_I (py_slice 4 8 data) 0 = Inr (dg_seq data)"
    using len by (simp_all add: H.unpack_ok I.unpack_ok length_py_slice dg_seq_def)
  show ?thesis
    using len
    by (simp add: feed_frame_def Let_def coro_bind_def coro_lift_def u usmp_consts datagram_ok_iff
        buffer_packet_eq send_utack_ok flip: dg_type_def)
qed

lemma feed_utack_eq:
  assumes "7 \<le> length data"
  shows "feed_utack data st =
    (Done (),
     if (uint (data ! 2) < 5 \<or> utack_authentic data st) \<and>
        pending_send_seq st = Some (le_value (py_slice 3 7 data)) \<and>
        pending_send_type st = Some (uint (data ! 2))
     then st\<lparr>ack_received := True\<rparr> else st)"
proof -
  have "unpack_I (py_slice 3 7 data) 0 = Inr (le_value (py_slice 3 7 data))"
    using assms by (simp add: I.unpack_ok length_py_slice)
  then show ?thesis by (auto simp: feed_utack_def coro_bind_def coro_lift_def Let_def)
qed

lemma feed_packet_Done: "fst (feed_packet data st) = Done ()"
  by (simp add: feed_packet_def feed_frame_eq feed_utack_eq UTACK_HEADER_LEN_def)

subsection \<open>The stream as a reader and as a transport\<close>

definition udp_advance :: "nat \<Rightarrow> udp_stream \<Rightarrow> udp_stream" where
  "udp_advance n st = st\<lparr>read_buffer := drop n (read_buffer st)\<rparr>"

interpretation udp_reader: byte_reader udp_readexactly read_buffer udp_advance
  by unfold_locales (auto simp: udp_readexactly_def udp_advance_def add.commute)

text \<open>Bytes buffered, or still to be delivered by the waits of \<open>drain\<close>.\<close>

definition net_bytes :: "(seconds \<times> bytes list) list \<Rightarrow> nat" where
  "net_bytes n = sum_list (map (\<lambda>w. sum_list (map length (snd w))) n)"

definition udp_pending :: "udp_stream \<Rightarrow> nat" where
  "udp_pending st = length (read_buffer st) + net_bytes (net st)"

lemma sendto_fields [simp]:
  "read_buffer (sendto d st) = read_buffer st" "net (sendto d st) = net st"
  "ack_received (sendto d st) = ack_received st" "rto (sendto d st) = rto st"
  "last_rx_seq (sendto d st) = last_rx_seq st" "u_closed (sendto d st) = u_closed st"
  "sent (sendto d st) = sent st @ [d]" "u_tx_key (sendto d st) = u_tx_key st"
  "pending_send_seq (sendto d st) = pending_send_seq st"
  "pending_send_type (sendto d st) = pending_send_type st"
  by (simp_all add: sendto_def)

lemma buffered_fields [simp]:
  "net (buffered d st) = net st" "ack_received (buffered d st) = ack_received st"
  "rto (buffered d st) = rto st" "last_rx_seq (buffered d st) = last_rx_seq st"
  "pending_send_seq (buffered d st) = pending_send_seq st"
  "pending_send_type (buffered d st) = pending_send_type st"
  by (simp_all add: buffered_def)

lemma feed_packet_keeps [simp]:
  "net (snd (feed_packet d st)) = net st" "rto (snd (feed_packet d st)) = rto st"
  "last_rx_seq (snd (feed_packet d st)) = last_rx_seq st"
  "pending_send_seq (snd (feed_packet d st)) = pending_send_seq st"
  "pending_send_type (snd (feed_packet d st)) = pending_send_type st"
  by (simp_all add: feed_packet_def feed_frame_eq feed_utack_eq UTACK_HEADER_LEN_def)

text \<open>Intake either leaves the buffer alone or appends one exactly framed datagram within the cap.\<close>

lemma feed_packet_buffer:
  "read_buffer (snd (feed_packet d st)) = read_buffer st \<or>
   (datagram_ok d \<and> read_buffer (snd (feed_packet d st)) = read_buffer st @ d \<and>
    length (read_buffer st @ d) \<le> MAX_READ_BUFFER)"
  by (auto simp: feed_packet_def feed_frame_eq feed_utack_eq UTACK_HEADER_LEN_def buffered_def)

lemma feed_packet_pending:
  "length (read_buffer (snd (feed_packet d st))) \<le> length (read_buffer st) + length d"
  using feed_packet_buffer [of d st] by auto

lemma deliver_keeps [simp]:
  "net (deliver ds st) = net st" "rto (deliver ds st) = rto st" "last_rx_seq (deliver ds st) = last_rx_seq st"
  "pending_send_seq (deliver ds st) = pending_send_seq st"
  "pending_send_type (deliver ds st) = pending_send_type st"
  unfolding deliver_def by (induction ds arbitrary: st) simp_all

lemma deliver_pending: "length (read_buffer (deliver ds st)) \<le> length (read_buffer st) + sum_list (map length ds)"
  unfolding deliver_def
proof (induction ds arbitrary: st)
  case Nil
  show ?case by simp
next
  case (Cons d ds)
  show ?case using Cons [of "snd (feed_packet d st)"] feed_packet_pending [of d st] by simp
qed

lemma await_network_pending: "udp_pending (snd (await_network st)) \<le> udp_pending st"
proof (cases "net st")
  case Nil
  then show ?thesis by (simp add: await_network_def)
next
  case (Cons w rest)
  then show ?thesis
    using deliver_pending [of "snd w" "st\<lparr>net := rest\<rparr>"]
    by (cases w) (simp add: await_network_def udp_pending_def net_bytes_def)
qed

lemma udp_pending_simps [simp]:
  "udp_pending (sendto d st) = udp_pending st" "udp_pending (update_rtt x st) = udp_pending st"
  by (simp_all add: udp_pending_def update_rtt_def Let_def)

lemma arq_loop_pending: "arq_loop k a base data st = (r, st') \<Longrightarrow> udp_pending st' \<le> udp_pending st"
proof (induction k a base data st arbitrary: r st' rule: arq_loop.induct)
  case (2 left attempt base data st)
  obtain e st1 where w: "await_network (sendto data st) = (e, st1)" by fastforce
  have "udp_pending st1 \<le> udp_pending st" using await_network_pending [of "sendto data st"] w by simp
  moreover have "ack_received st \<or> udp_pending st' \<le> udp_pending st1"
    using 2 w by (auto split: option.splits if_splits)
  moreover have "udp_pending st' = udp_pending st" if "ack_received st"
    using 2(3) that by auto
  ultimately show ?case by auto
qed simp

lemma udp_write_frame_pending:
  "udp_write_frame ptype payload seq st = (r, st') \<Longrightarrow> udp_pending st' \<le> udp_pending st"
  by (auto simp: udp_write_frame_def coro_bind_def coro_lift_def udp_write_def udp_drain_def Let_def
      split: sum.splits if_splits option.splits prod.splits io.splits dest!: arq_loop_pending)
    (simp_all add: udp_pending_def)

lemma udp_read_frame_progress:
  assumes "udp_read_frame vc st = (r, st')" "r \<noteq> Waiting" "r \<noteq> Raise IncompleteReadError"
  shows "udp_pending st' < udp_pending st"
  using udp_reader.read_frame_consumes [OF assms [unfolded udp_read_frame_def]]
  by (auto simp: udp_advance_def udp_pending_def)

interpretation udp: usmp_transport udp_ops udp_pending
proof unfold_locales
  fix vc t f t'
  assume "t_read_frame udp_ops vc t = (Done f, t')"
  then have r: "udp_read_frame vc t = (Done f, t')" by (simp add: udp_ops_def)
  then show "wf_frame f" using udp_reader.read_frame_Done_wf by (simp add: udp_read_frame_def)
  show "udp_pending t' < udp_pending t" using r by (rule udp_read_frame_progress) simp_all
next
  fix vc t e t'
  assume "t_read_frame udp_ops vc t = (Raise e, t')" "catches [USMPError, StructError] e"
  then show "udp_pending t' < udp_pending t"
    by (intro udp_read_frame_progress [of vc t "Raise e"]) (auto simp: udp_ops_def)
next
  fix ptype payload seq t r t'
  assume "t_write_frame udp_ops ptype payload seq t = (r, t')"
  then show "udp_pending t' \<le> udp_pending t" by (simp add: udp_ops_def udp_write_frame_pending)
next
  fix payload :: bytes and ptype seq t
  assume "USMP_MAX_PAYLOAD < length payload"
  then show "t_write_frame udp_ops ptype payload seq t = (Raise PayloadError, t)"
    by (simp add: udp_ops_def udp_write_frame_def coro_bind_def coro_lift_def encode_frame_def)
qed (simp_all add: udp_ops_def udp_pending_def udp_set_session_keys_def udp_confirm_authenticated_def)

subsection \<open>The invariant of the stream\<close>

text \<open>
  The buffer is a sequence of whole datagrams, each one frame, within the cap; the
  retransmission timeout is between 0.1 and 5 seconds.
\<close>

definition framed :: "bytes \<Rightarrow> bool" where
  "framed b \<longleftrightarrow> (\<exists>ds. b = concat ds \<and> list_all datagram_ok ds)"

definition udp_inv :: "udp_stream \<Rightarrow> bool" where
  "udp_inv st \<longleftrightarrow>
     framed (read_buffer st) \<and> length (read_buffer st) \<le> MAX_READ_BUFFER \<and>
     1 / 10 \<le> rto st \<and> rto st \<le> 5 \<and> -1 \<le> last_rx_seq st"

lemma framed_Nil [simp]: "framed []"
  by (auto simp: framed_def intro: exI [of _ "[]"])

lemma framed_append: "framed b \<Longrightarrow> datagram_ok d \<Longrightarrow> framed (b @ d)"
proof -
  assume "framed b" and d: "datagram_ok d"
  then obtain ds where "b = concat ds" "list_all datagram_ok ds" by (auto simp: framed_def)
  with d show ?thesis unfolding framed_def by (intro exI [of _ "ds @ [d]"]) simp
qed

lemma framed_cases:
  assumes "framed b"
  obtains "b = []" | d rest where "b = d @ rest" "datagram_ok d" "framed rest"
proof -
  obtain ds where b: "b = concat ds" and ok: "list_all datagram_ok ds" using assms by (auto simp: framed_def)
  show ?thesis
  proof (cases ds)
    case Nil
    then show ?thesis using b that(1) by simp
  next
    case (Cons d ds')
    then have "framed (concat ds')" using ok by (auto simp: framed_def)
    then show ?thesis using b ok Cons by (intro that(2) [of d "concat ds'"]) simp_all
  qed
qed

lemma udp_inv_init [simp]: "udp_inv (UDPStream addr server)"
  by (simp add: udp_inv_def UDPStream_def)

lemma udp_inv_sendto [simp]: "udp_inv (sendto d st) = udp_inv st"
  by (simp add: udp_inv_def)

lemma udp_inv_net [simp]: "udp_inv (st\<lparr>net := n\<rparr>) = udp_inv st"
  by (simp add: udp_inv_def)

lemma udp_inv_feed: "udp_inv st \<Longrightarrow> udp_inv (snd (feed_packet d st))"
  using feed_packet_buffer [of d st] by (auto simp: udp_inv_def framed_append)

lemma udp_inv_deliver: "udp_inv st \<Longrightarrow> udp_inv (deliver ds st)"
  unfolding deliver_def by (induction ds arbitrary: st) (simp_all add: udp_inv_feed)

lemma udp_inv_await: "udp_inv st \<Longrightarrow> udp_inv (snd (await_network st))"
  by (auto simp: await_network_def udp_inv_deliver split: list.splits prod.splits)

lemma udp_inv_update_rtt: "udp_inv st \<Longrightarrow> udp_inv (update_rtt x st)"
  by (auto simp: udp_inv_def update_rtt_def Let_def)

lemma udp_inv_arq: "arq_loop k a base data st = (r, st') \<Longrightarrow> udp_inv st \<Longrightarrow> udp_inv st'"
proof (induction k a base data st arbitrary: r st' rule: arq_loop.induct)
  case (2 left attempt base data st)
  obtain e st1 where w: "await_network (sendto data st) = (e, st1)" by fastforce
  have "udp_inv st1" using udp_inv_await [of "sendto data st"] w 2 by simp
  then show ?case using 2 w by (auto split: option.splits if_splits intro!: udp_inv_update_rtt)
qed simp

lemma udp_inv_write_frame:
  "udp_write_frame ptype payload seq st = (r, st') \<Longrightarrow> udp_inv st \<Longrightarrow> udp_inv st'"
  by (auto simp: udp_write_frame_def coro_bind_def coro_lift_def udp_write_def udp_drain_def Let_def
      split: sum.splits if_splits option.splits prod.splits io.splits dest!: udp_inv_arq)
    (simp_all add: udp_inv_def)

text \<open>
  Reading under the invariant: with an empty buffer the stream waits (or reports its end);
  otherwise exactly one buffered datagram is consumed and decoded, never part of one.
\<close>

lemma read_frame_framed:
  assumes "framed (read_buffer st)"
  obtains "read_buffer st = []"
      "udp_read_frame vc st = (if u_closed st then Raise IncompleteReadError else Waiting, st)"
  | d rest where "read_buffer st = d @ rest" "datagram_ok d" "framed rest"
      "udp_read_frame vc st =
        (case decode_frame d vc of Inl e \<Rightarrow> Raise e | Inr f \<Rightarrow> Done f, st\<lparr>read_buffer := rest\<rparr>)"
  using assms
proof (cases rule: framed_cases)
  case 1
  then show ?thesis
    by (intro that(1)) (simp_all add: udp_read_frame_def read_frame_def coro_bind_def
        udp_readexactly_def USMP_HEADER_SIZE_def)
next
  case (2 d rest)
  then have "12 \<le> length d" by (simp add: datagram_ok_def)
  then obtain m v t s l c p where r: "field_ranges m v t s l c" and d: "d = raw_frame m v t s l c p"
    by (rule raw_frame_cases)
  have "le_bytes 2 m = le_bytes 2 USMP_MAGIC"
    using 2(2) by (simp add: datagram_ok_def d raw_frame_def header10_def)
  then have m: "m = USMP_MAGIC" using r by (simp add: le_bytes_inj field_ranges_def USMP_MAGIC_def)
  have p: "length p \<le> 480" "le_bytes 2 l = le_bytes 2 (int (length p))"
    using 2(2) by (simp_all add: datagram_ok_def d py_slice_len_raw_frame)
  then have l: "l = int (length p)" using r by (simp add: le_bytes_inj field_ranges_def)
  have b: "read_buffer st = raw_frame m v t s l c (p @ rest)" using 2(1) by (simp add: d raw_frame_def)
  have "udp_advance (12 + nat l) st = st\<lparr>read_buffer := rest\<rparr>"
    using 2(1) l by (simp add: udp_advance_def d)
  then have "udp_read_frame vc st =
      (case decode_frame d vc of Inl e \<Rightarrow> Raise e | Inr f \<Rightarrow> Done f, st\<lparr>read_buffer := rest\<rparr>)"
    using udp_reader.read_frame_complete [OF r b m, of vc] l p(1) by (simp add: udp_read_frame_def d)
  then show ?thesis using 2 by (intro that(2))
qed

lemma udp_inv_read_frame: "udp_read_frame vc st = (r, st') \<Longrightarrow> udp_inv st \<Longrightarrow> udp_inv st'"
proof -
  assume r: "udp_read_frame vc st = (r, st')" and i: "udp_inv st"
  then have "framed (read_buffer st)" by (simp add: udp_inv_def)
  then show ?thesis
    by (cases rule: read_frame_framed [where vc = vc]) (use r i in \<open>auto simp: udp_inv_def\<close>)
qed

text \<open>Everything that may happen to a stream, in any order.\<close>

inductive udp_step :: "udp_stream \<Rightarrow> udp_stream \<Rightarrow> bool" where
  datagram: "udp_step st (snd (feed_packet d st))"
| confirm: "udp_step st (udp_confirm_authenticated seq st)"
| set_keys: "udp_step st (udp_set_session_keys txk rxk st)"
| network: "udp_step st (st\<lparr>net := n\<rparr>)"
| send_frame: "udp_write_frame ptype payload seq st = (r, st') \<Longrightarrow> udp_step st st'"
| recv_frame: "udp_read_frame vc st = (r, st') \<Longrightarrow> udp_step st st'"
| close: "udp_step st (udp_close st)"

inductive udp_reachable :: "udp_stream \<Rightarrow> bool" where
  opened: "udp_reachable (UDPStream addr server)"
| step: "udp_reachable st \<Longrightarrow> udp_step st st' \<Longrightarrow> udp_reachable st'"

lemma udp_step_inv: "udp_step st st' \<Longrightarrow> udp_inv st \<Longrightarrow> udp_inv st'"
proof (induction rule: udp_step.induct)
  case (datagram st d)
  then show ?case by (rule udp_inv_feed)
next
  case (send_frame ptype payload seq st r st')
  then show ?case by (rule udp_inv_write_frame)
next
  case (recv_frame vc st r st')
  then show ?case by (rule udp_inv_read_frame)
qed (auto simp: udp_inv_def udp_confirm_authenticated_def udp_set_session_keys_def udp_close_def)

lemma udp_reachable_inv: "udp_reachable st \<Longrightarrow> udp_inv st"
  by (induction rule: udp_reachable.induct) (auto intro: udp_step_inv)

subsection \<open>Properties of the stream\<close>

text \<open>
  C33. In every reachable state of a stream the read buffer holds at most 4096 bytes and is a
  sequence of whole datagrams of one frame each, and the retransmission timeout lies between
  0.1 and 5 seconds, whatever datagrams arrive and whatever is sent and read in between.
\<close>

theorem udp_stream_invariant:
  assumes "udp_reachable st"
  shows "framed (read_buffer st) \<and> length (read_buffer st) \<le> MAX_READ_BUFFER \<and>
    1 / 10 \<le> rto st \<and> rto st \<le> 5"
  using udp_reachable_inv [OF assms] by (simp add: udp_inv_def)

theorem udp_stream_invariant_witness:
  "length (read_buffer (snd (feed_packet [1] (UDPStream (''a'', 1) True)))) \<le> MAX_READ_BUFFER"
proof -
  have "udp_reachable (snd (feed_packet [1] (UDPStream (''a'', 1) True)))"
    by (rule udp_reachable.step [OF udp_reachable.opened]) (rule udp_step.datagram)
  from udp_stream_invariant [OF this] show ?thesis by blast
qed

text \<open>
  Reading from a reachable stream never stops in the middle of a frame and never sees a
  broken header: the buffer is empty and the read waits (or reports the closed stream) with
  the state untouched, or exactly one datagram is taken off the buffer and decoded. So a read
  that is cancelled loses nothing.
\<close>

lemma udp_read_takes_whole_datagrams:
  assumes "udp_reachable st"
  shows "(read_buffer st = [] \<and>
      udp_read_frame vc st = (if u_closed st then Raise IncompleteReadError else Waiting, st)) \<or>
    (\<exists>d rest. read_buffer st = d @ rest \<and> datagram_ok d \<and> framed rest \<and>
      udp_read_frame vc st =
        (case decode_frame d vc of Inl e \<Rightarrow> Raise e | Inr f \<Rightarrow> Done f, st\<lparr>read_buffer := rest\<rparr>))"
proof -
  have "framed (read_buffer st)" using udp_reachable_inv [OF assms] by (simp add: udp_inv_def)
  then show ?thesis by (cases rule: read_frame_framed [where vc = vc]) blast+
qed

text \<open>
  C34. A UTACK for a session frame (type 5 and up) only counts when it carries the MAC of its
  header under this side's transmit key and names the type and sequence number being sent: a
  datagram that turns the acknowledgement flag on is authentic in that sense.
\<close>

theorem utack_forgery_rejected:
  assumes "\<not> ack_received st" "ack_received (snd (feed_packet d st))" "pending_send_type st = Some t" "5 \<le> t"
  shows "\<exists>key s. u_tx_key st = Some key \<and> pending_send_seq st = Some s \<and>
    take UTACK_HEADER_LEN d = UTACK_MAGIC @ [word_of_int t] @ le_bytes 4 s \<and>
    py_slice 7 15 d = utack_mac key (take UTACK_HEADER_LEN d)"
proof -
  have len: "7 \<le> length d" and magic: "take 2 d = UTACK_MAGIC"
    using assms(1,2) by (auto simp: feed_packet_def feed_frame_eq UTACK_HEADER_LEN_def split: if_splits)
  have ack: "t = uint (d ! 2)" "utack_authentic d st" "pending_send_seq st = Some (le_value (py_slice 3 7 d))"
    using assms len magic
    by (auto simp: feed_packet_def feed_utack_eq UTACK_HEADER_LEN_def split: if_splits)
  have "le_bytes 4 (le_value (py_slice 3 7 d)) = py_slice 3 7 d"
    using len le_bytes_le_value [of "py_slice 3 7 d"] by (simp add: length_py_slice)
  moreover have "take 7 d = take 2 d @ [d ! 2] @ py_slice 3 7 d"
    using len take_py_slice [of 3 7 d] take_Suc_conv_app_nth [of 2 d] by simp
  ultimately show ?thesis
    using ack magic by (auto simp: utack_authentic_def utack_consts split: option.splits)
qed

theorem utack_forgery_rejected_witness:
  "\<exists>key. u_tx_key ((UDPStream (''a'', 1) False)\<lparr>u_tx_key := Some [7]\<rparr>) = Some key \<and>
     py_slice 7 15 (UTACK_MAGIC @ [5, 3, 0, 0, 0] @ utack_mac [7] (UTACK_MAGIC @ [5, 3, 0, 0, 0])) =
       utack_mac key (UTACK_MAGIC @ [5, 3, 0, 0, 0])"
proof -
  let ?st = "(UDPStream (''a'', 1) False)\<lparr>u_tx_key := Some [7], pending_send_type := Some 5,
    pending_send_seq := Some 3\<rparr>"
  let ?h = "UTACK_MAGIC @ [5, 3, 0, 0, 0]"
  let ?d = "?h @ utack_mac [7] ?h"
  have len: "length ?h = 7" by (simp add: UTACK_MAGIC_def)
  have s: "py_slice 7 15 ?d = utack_mac [7] ?h" "take 7 ?d = ?h"
    using len py_slice_append_right [of ?h 7 15 "utack_mac [7] ?h"] by (simp_all add: py_slice_0)
  have v: "le_value (py_slice 3 7 ?d) = 3"
    by (simp add: UTACK_MAGIC_def py_slice_def)
  have "ack_received (snd (feed_packet ?d ?st))"
    using v s by (simp add: feed_packet_def feed_utack_eq utack_authentic_def utack_consts UDPStream_def)
  then have "\<exists>key s. u_tx_key ?st = Some key \<and> pending_send_seq ?st = Some s \<and>
      take UTACK_HEADER_LEN ?d = UTACK_MAGIC @ [word_of_int 5] @ le_bytes 4 s \<and>
      py_slice 7 15 ?d = utack_mac key (take UTACK_HEADER_LEN ?d)"
    by (intro utack_forgery_rejected) (simp_all add: UDPStream_def)
  then show ?thesis using s(2) by (auto simp: UTACK_HEADER_LEN_def)
qed

text \<open>
  The UTACK the receiver builds for a session frame is accepted by the sender that waits
  for it, when the receiver's receive key is the sender's transmit key.
\<close>

lemma utack_roundtrip:
  assumes "build_utack t s peer = Inr pkt" "u_rx_key peer = Some key" "u_tx_key st = Some key"
    and "pending_send_type st = Some t" "pending_send_seq st = Some s" "\<not> u_closed st"
  shows "feed_packet pkt st = (Done (), st\<lparr>ack_received := True\<rparr>)"
proof -
  let ?h = "UTACK_MAGIC @ [word_of_int t] @ le_bytes 4 s"
  have r: "0 \<le> t" "t < 256" "0 \<le> s" "s < 4294967296"
    and pkt: "pkt = (if t \<ge> 5 then ?h @ utack_mac key ?h else ?h)"
    using assms(1,2) by (auto simp: build_utack_def io_simps bytes_of_def I.pack_ok Let_def split: if_splits)
  have len: "length ?h = 7" by (simp add: UTACK_MAGIC_def)
  obtain rest where p: "pkt = ?h @ rest" and rest: "rest = (if t \<ge> 5 then utack_mac key ?h else [])"
    by (simp add: pkt)
  have t: "uint (pkt ! 2) = t" and m: "take 2 pkt = UTACK_MAGIC" using r by (simp_all add: p UTACK_MAGIC_def)
  have sl: "py_slice 3 7 pkt = le_bytes 4 s"
    by (simp add: p UTACK_MAGIC_def py_slice_def)
  then have v: "le_value (py_slice 3 7 pkt) = s" using r by (simp add: le_value_le_bytes)
  have "utack_authentic pkt st" if "5 \<le> t"
    using that assms(3) len py_slice_append_right [of ?h 7 15 "utack_mac key ?h"]
    by (simp add: utack_authentic_def utack_consts p rest py_slice_0)
  then show ?thesis
    using assms len t m v
    by (cases "5 \<le> t") (simp_all add: feed_packet_def feed_utack_eq UTACK_HEADER_LEN_def p)
qed

subsection \<open>Retransmission\<close>

lemma feed_packet_sent:
  "\<exists>us. sent (snd (feed_packet d st)) = sent st @ us \<and> list_all (\<lambda>u. take 2 u = UTACK_MAGIC) us"
proof -
  have u: "take 2 (utack_bytes t s st') = UTACK_MAGIC" for t s st'
    by (simp add: utack_bytes_def Let_def UTACK_MAGIC_def split: option.splits)
  show ?thesis
    by (auto simp: feed_packet_def feed_frame_eq feed_utack_eq UTACK_HEADER_LEN_def buffered_def u)
qed

lemma deliver_sent:
  "\<exists>us. sent (deliver ds st) = sent st @ us \<and> list_all (\<lambda>u. take 2 u = UTACK_MAGIC) us"
  unfolding deliver_def
proof (induction ds arbitrary: st)
  case (Cons d ds)
  obtain us where "sent (snd (feed_packet d st)) = sent st @ us" "list_all (\<lambda>u. take 2 u = UTACK_MAGIC) us"
    using feed_packet_sent by blast
  moreover obtain vs where
    "sent (fold (\<lambda>d st. snd (feed_packet d st)) ds (snd (feed_packet d st))) = sent (snd (feed_packet d st)) @ vs"
    "list_all (\<lambda>u. take 2 u = UTACK_MAGIC) vs"
    using Cons by blast
  ultimately show ?case by (intro exI [of _ "us @ vs"]) simp
qed simp

text \<open>How often \<open>data\<close> was given to the socket.\<close>

definition copies :: "bytes \<Rightarrow> udp_stream \<Rightarrow> nat" where
  "copies data st = count_list (sent st) data"

lemma copies_sendto [simp]: "copies data (sendto data st) = Suc (copies data st)"
  by (simp add: copies_def)

lemma copies_cong [simp]:
  "copies data (update_rtt x st) = copies data st" "copies data (st\<lparr>net := n\<rparr>) = copies data st"
  by (simp_all add: copies_def update_rtt_def Let_def)

lemma ack_update_rtt [simp]: "ack_received (update_rtt x st) = ack_received st"
  by (simp add: update_rtt_def Let_def)

lemma copies_deliver: "take 2 data \<noteq> UTACK_MAGIC \<Longrightarrow> copies data (deliver ds st) = copies data st"
proof -
  assume n: "take 2 data \<noteq> UTACK_MAGIC"
  obtain us where us: "sent (deliver ds st) = sent st @ us" "list_all (\<lambda>u. take 2 u = UTACK_MAGIC) us"
    using deliver_sent by blast
  then have "data \<notin> set us" using n by (auto simp: list_all_iff)
  then show ?thesis using us by (simp add: copies_def count_list_0_iff)
qed

lemma copies_await:
  "take 2 data \<noteq> UTACK_MAGIC \<Longrightarrow> copies data (snd (await_network st)) = copies data st"
  by (auto simp: await_network_def copies_deliver split: list.splits prod.splits)

lemma arq_loop_outcome:
  assumes "arq_loop left a base data st = (r, st')" "take 2 data \<noteq> UTACK_MAGIC"
  shows "(r = Done () \<and> ack_received st' \<and> copies data st < copies data st' \<and> copies data st' \<le> copies data st + left) \<or>
    (r = Raise OSError \<and> copies data st' = copies data st + left)"
  using assms
proof (induction left arbitrary: a st r st')
  case (Suc left)
  obtain e st1 where w: "await_network (sendto data st) = (e, st1)" by fastforce
  have c: "copies data st1 = Suc (copies data st)"
    using copies_await [of data "sendto data st"] Suc.prems(2) w by simp
  consider "ack_received st" | "r = Done ()" "ack_received st1" "copies data st' = copies data st1" "ack_received st'"
    | "arq_loop left (Suc a) base data st1 = (r, st')"
    using Suc.prems(1) w by (auto split: option.splits if_splits)
  then show ?case
  proof cases
    case 1
    then show ?thesis using Suc.prems(1) by auto
  next
    case 2
    then show ?thesis using c by simp
  next
    case 3
    from Suc.IH [OF this Suc.prems(2)] show ?thesis using c by auto
  qed
qed simp

lemma frame_bytes_not_utack: "take 2 (frame_bytes v t s p) \<noteq> UTACK_MAGIC"
  by (simp add: frame_bytes_def raw_frame_def header10_def UTACK_MAGIC_def USMP_MAGIC_def numeral_2_eq_2)

lemma udp_write_frame_eq:
  assumes "\<not> u_closed st" "length payload \<le> USMP_MAX_PAYLOAD" "0 \<le> seq" "seq < 2 ^ 32"
  shows "udp_write_frame ptype payload seq st =
    arq_loop 5 0 (rto st) (frame_bytes USMP_VERSION ptype seq payload)
      (st\<lparr>pending_send_type := Some (packet_type_value ptype), pending_send_seq := Some seq,
          pending_send_data := None, ack_received := False\<rparr>)"
proof -
  let ?d = "frame_bytes USMP_VERSION ptype seq payload"
  have l: "8 \<le> length ?d" and t: "uint (?d ! 3) = packet_type_value ptype"
    and s: "unpack_I (py_slice 4 8 ?d) 0 = Inr seq"
    using assms packet_type_value_range [of ptype] le_value_le_bytes [of seq 4]
    by (simp_all add: frame_bytes_def raw_frame_def header10_def py_slice_def I.unpack_ok nth_append)
  show ?thesis
    using assms l
    by (simp add: udp_write_frame_def coro_bind_def coro_lift_def encode_frame_ok udp_write_def
        udp_drain_def Let_def t s)
qed

text \<open>
  Sending a frame over UDP always comes to an end: it succeeds with the acknowledgement
  received after one to five copies of the frame were sent, or raises \<open>OSError\<close> after
  exactly five, for every arrival of datagrams meanwhile; it raises without sending when the
  stream is closed.
\<close>

lemma udp_write_frame_outcome:
  assumes "udp_write_frame ptype payload seq st = (r, st')"
    and "encode_frame ptype payload seq USMP_VERSION = Inr data"
  shows "if u_closed st then r = Raise OSError \<and> sent st' = sent st
    else (r = Done () \<and> ack_received st' \<and> copies data st < copies data st' \<and>
            copies data st' \<le> copies data st + 5) \<or>
         (r = Raise OSError \<and> copies data st' = copies data st + 5)"
proof -
  have d: "data = frame_bytes USMP_VERSION ptype seq payload"
    and r: "length payload \<le> USMP_MAX_PAYLOAD" "0 \<le> seq" "seq < 2 ^ 32"
    using assms(2) by (simp_all add: encode_frame_Inr)
  show ?thesis
  proof (cases "u_closed st")
    case True
    then show ?thesis using assms by (auto simp: udp_write_frame_def coro_bind_def coro_lift_def udp_write_def)
  next
    case False
    have "arq_loop 5 0 (rto st) data
      (st\<lparr>pending_send_type := Some (packet_type_value ptype), pending_send_seq := Some seq,
          pending_send_data := None, ack_received := False\<rparr>) = (r, st')"
      using assms(1) udp_write_frame_eq [OF False r, of ptype] by (simp add: d)
    from arq_loop_outcome [OF this] False show ?thesis
      by (simp add: d frame_bytes_not_utack copies_def)
  qed
qed

text \<open>
  Each wait for an acknowledgement lasts between 0.05 and 5 seconds, so the five attempts
  of one send are over after at most 25 seconds; the timeout doubles with each attempt until
  it reaches that cap.
\<close>

lemma arq_timeouts_bounded:
  "5 / 100 \<le> arq_timeout base_rto attempt \<and> arq_timeout base_rto attempt \<le> 5 \<and>
   (\<Sum>a<5. arq_timeout base_rto a) \<le> 25 \<and>
   (5 / 100 \<le> base_rto * 2 ^ attempt \<longrightarrow>
      arq_timeout base_rto (Suc attempt) = min 5 (2 * arq_timeout base_rto attempt))"
proof -
  have le: "arq_timeout base_rto a \<le> 5" for a by (simp add: arq_timeout_def)
  have "(\<Sum>a<5. arq_timeout base_rto a) \<le> (\<Sum>a<(5::nat). 5)" by (rule sum_mono) (rule le)
  then show ?thesis by (auto simp: arq_timeout_def min_def max_def)
qed

subsection \<open>Two flaws of the duplicate detection\<close>

text \<open>
  C39. Installing new keys does not reset the transport's duplicate detection, although the
  session starts its sequence numbers from 0 again after a rekey: once 64 or more was
  confirmed under the old keys, a frame of the new epoch with a small sequence number is
  acknowledged, so its sender takes it as delivered, and thrown away.
\<close>

theorem rekeyed_frames_acked_and_lost:
  assumes "64 \<le> last_rx_seq st" "\<not> u_closed st" "datagram_ok d"
    and "5 \<le> dg_type d" "dg_type d \<noteq> 0x0A" "dg_seq d \<le> last_rx_seq st - 64"
  shows "let st1 = udp_set_session_keys txk rxk st in
    feed_packet d st1 = (Done (), sendto (utack_bytes (dg_type d) (dg_seq d) st1) st1)"
proof -
  have "take 2 d \<noteq> UTACK_MAGIC"
    using assms(3) by (simp add: datagram_ok_def UTACK_MAGIC_def USMP_MAGIC_def numeral_2_eq_2)
  then show ?thesis
    using assms by (simp add: feed_packet_def feed_frame_eq udp_set_session_keys_def)
qed

lemma datagram_ok_frame_bytes:
  "length p \<le> 480 \<Longrightarrow> datagram_ok (frame_bytes v t s p)"
  by (simp add: datagram_ok_def frame_bytes_def raw_frame_def header10_def py_slice_def)

lemma dg_frame_bytes:
  "dg_type (frame_bytes v t s p) = packet_type_value t"
  "0 \<le> s \<Longrightarrow> s < 4294967296 \<Longrightarrow> dg_seq (frame_bytes v t s p) = s"
  using packet_type_value_range [of t] le_value_le_bytes [of s 4]
  by (simp_all add: dg_type_def dg_seq_def frame_bytes_def raw_frame_def header10_def py_slice_def nth_append)

theorem rekeyed_frames_acked_and_lost_witness:
  "let st = udp_set_session_keys [1] [2] (udp_confirm_authenticated 100 (UDPStream (''a'', 1) True));
       st' = snd (feed_packet (frame_bytes USMP_VERSION DATA 0 []) st)
   in read_buffer st' = [] \<and> length (sent st') = 1"
proof -
  let ?st = "udp_confirm_authenticated 100 (UDPStream (''a'', 1) True)"
  have "let st1 = udp_set_session_keys [1] [2] ?st in
      feed_packet (frame_bytes USMP_VERSION DATA 0 []) st1 =
      (Done (), sendto (utack_bytes (dg_type (frame_bytes USMP_VERSION DATA 0 []))
         (dg_seq (frame_bytes USMP_VERSION DATA 0 [])) st1) st1)"
    by (rule rekeyed_frames_acked_and_lost)
      (simp_all add: udp_confirm_authenticated_def UDPStream_def datagram_ok_frame_bytes dg_frame_bytes)
  then show ?thesis by (simp add: Let_def udp_set_session_keys_def udp_confirm_authenticated_def UDPStream_def)
qed

text \<open>
  A handshake packet that finds the read buffer full is dropped without an
  acknowledgement, so that the peer will send it again; but its type is remembered, and the
  retransmission is acknowledged as a duplicate and dropped even when there is room by then.
\<close>

lemma dropped_handshake_packet_lost:
  assumes "\<not> u_closed st" "datagram_ok d" "dg_type d < 5" "\<not> handshake_duplicate (dg_type d) st"
    and "length (read_buffer st) + length d > MAX_READ_BUFFER"
  shows "feed_packet d st = (Done (), st\<lparr>last_rx_type := dg_type d\<rparr>) \<and>
    (let st1 = st\<lparr>last_rx_type := dg_type d, read_buffer := []\<rparr> in
     feed_packet d st1 = (Done (), sendto (utack_bytes (dg_type d) (dg_seq d) st1) st1))"
proof -
  have "take 2 d \<noteq> UTACK_MAGIC"
    using assms(2) by (simp add: datagram_ok_def UTACK_MAGIC_def USMP_MAGIC_def numeral_2_eq_2)
  then show ?thesis
    using assms by (auto simp: feed_packet_def feed_frame_eq buffered_def handshake_duplicate_def)
qed

end
