(* ===== verification/Reassembly.thy ===== *)
theory Reassembly
  imports Session_Types Handshake Udp
begin

text \<open>
  The receive loop as a whole: over every transport that keeps the contract
  \<open>usmp_transport\<close> it comes to an end on a finite input and never returns more than four
  frames' worth of data; over TCP it returns exactly what the peer's \<open>send\<close> was given.
\<close>

subsection \<open>Over any transport\<close>

text \<open>At the head of the loop fewer than four fragments are held, 452 bytes each at most.\<close>

definition locals_ok :: "recv_locals \<Rightarrow> bool" where
  "locals_ok l \<longleftrightarrow>
     frame_count l < USMP_MAX_FRAMES \<and> length (assembled_payload l) \<le> USMP_MAX_DATA_LEN * frame_count l \<and>
     ctrl_count l \<le> 8"

lemma send_locked_transport:
  assumes "send_encrypted_locked c T ptype pt s = (r, s')"
  shows "transport s' = transport s \<or> (\<exists>ct q r'. t_write_frame T ptype ct q (transport s) = (r', transport s'))"
  using assms by (auto simp: send_encrypted_locked_def on_transport_def split: sum.splits prod.splits)

lemma dispatch_Done:
  assumes "dispatch_frame c T clk f pt l s = (Done x, s')"
  obtains "\<not> is_reliable T" "x = Continue (l\<lparr>assembled_payload := [], frame_count := 0, expected_frag_seq := 0\<rparr>)"
  | "handle_control c T clk (f_type f) l s = (Done x, s')" "f_type f = PING \<or> f_type f = PONG"
  | "handle_rekey c T pt l s = (Done x, s')" "f_type f = REKEY"
  | "handle_data (f_type f) (f_seq f) pt l = Inr x" "s' = s" "f_type f = DATA \<or> f_type f = DATA_FRAG"
  using assms
  by (auto simp: dispatch_frame_def coro_catch_def coro_raise_def coro_lift_def split: if_splits io.splits prod.splits sum.splits)

lemma handle_control_Done:
  assumes "handle_control c T clk ptype l s = (Done x, s')"
  shows "\<exists>l'. x = Continue l' \<and> frame_count l' = frame_count l \<and> assembled_payload l' = assembled_payload l \<and>
    expected_frag_seq l' = expected_frag_seq l \<and> ctrl_count l' \<le> 8"
  using assms
  by (auto simp: handle_control_def coro_bind_def coro_raise_def coro_return_def monotonic_def Let_def
      split: if_splits io.splits prod.splits)

lemma handle_control_transport:
  assumes "handle_control c T clk ptype l s = (r, s')"
  shows "transport s' = transport s \<or> (\<exists>ty ct q r'. t_write_frame T ty ct q (transport s) = (r', transport s'))"
proof -
  obtain r1 s1 where s1: "(if ptype = PING then send_pong c T else coro_return ()) s = (r1, s1)" by fastforce
  have "transport s1 = transport s \<or> (\<exists>ty ct q r'. t_write_frame T ty ct q (transport s) = (r', transport s1))"
    using s1 send_locked_transport [of c T PONG "[]" s r1 s1]
    by (auto simp: send_pong_def send_encrypted_def coro_return_def split: if_splits)
  moreover have "transport s' = transport s1 \<or> s' = s"
    using assms s1 by (cases r1) (auto simp: handle_control_def coro_bind_def coro_raise_def coro_return_def
        monotonic_def Let_def split: if_splits)
  ultimately show ?thesis by auto
qed

lemma handle_data_locals:
  assumes "handle_data ty q pt l = Inr (Continue l')" "locals_ok l" "length pt \<le> USMP_MAX_DATA_LEN"
  shows "locals_ok l'"
  using assms by (auto simp: handle_data_def io_simps Let_def locals_ok_def usmp_consts split: if_splits)

lemma handle_data_Return:
  assumes "handle_data ty q pt l = Inr (Return data)"
  shows "ty = DATA \<and> data = assembled_payload l @ pt \<and> (frame_count l = 0 \<or> q = expected_frag_seq l)"
  using assms by (auto simp: handle_data_def io_simps Let_def split: if_splits)

lemma dispatch_locals:
  assumes "dispatch_frame c T clk f pt l s = (Done x, s')" "locals_ok l" "length pt \<le> USMP_MAX_DATA_LEN"
  shows "case x of Continue l' \<Rightarrow> locals_ok l' | Return data \<Rightarrow> length data \<le> USMP_MAX_DATA_LEN * USMP_MAX_FRAMES"
  using assms(1)
proof (cases rule: dispatch_Done)
  case 1
  then show ?thesis using assms(2) by (simp add: locals_ok_def usmp_consts)
next
  case 2
  then show ?thesis using handle_control_Done [OF 2(1)] assms(2) by (auto simp: locals_ok_def)
next
  case 3
  then show ?thesis using assms(2) by (auto simp: handle_rekey_def split: if_splits)
next
  case 4
  then show ?thesis
    using assms(2,3) handle_data_locals [of "f_type f" "f_seq f" pt l] handle_data_Return [of "f_type f" "f_seq f" pt l]
    by (cases x) (auto simp: locals_ok_def usmp_consts)
qed

lemma accept_seq_not_waiting: "fst (accept_seq T q s) \<noteq> Waiting"
  by (simp add: accept_seq_def)

lemma recv_turn_cases:
  assumes "recv_turn c T clk l s = (r, s')"
  obtains (failed) x where "receive_frame c T clk s = (x, s')" "r = Waiting \<and> x = Waiting \<or> (\<exists>e. r = Raise e \<and> x = Raise e)"
  | (dropped) "receive_frame c T clk s = (Done None, s')" "r = Done (Continue l)"
  | (refused) f pt s1 e where "receive_frame c T clk s = (Done (Some (f, pt)), s1)" "accept_seq T (f_seq f) s1 = (Raise e, s')"
      "r = Raise e"
  | (processed) f pt s1 s2 where "receive_frame c T clk s = (Done (Some (f, pt)), s1)"
      "accept_seq T (f_seq f) s1 = (Done (), s2)" "dispatch_frame c T clk f pt l s2 = (r, s')"
proof -
  obtain x s1 where s1: "receive_frame c T clk s = (x, s1)" by fastforce
  show thesis
  proof (cases x)
    case (Done received)
    show thesis
    proof (cases received)
      case None
      then show thesis using assms s1 Done by (intro that(2)) (auto simp: recv_turn_def coro_bind_def coro_return_def)
    next
      case (Some fp)
      obtain f pt where fp: "fp = (f, pt)" by (cases fp)
      obtain y s2 where s2: "accept_seq T (f_seq f) s1 = (y, s2)" by fastforce
      have turn: "(case y of Done _ \<Rightarrow> dispatch_frame c T clk f pt l s2 | Raise e \<Rightarrow> (Raise e, s2) | Waiting \<Rightarrow> (Waiting, s2)) = (r, s')"
        using assms s1 Done Some fp s2 by (simp add: recv_turn_def coro_bind_def split: io.splits)
      show thesis
        using turn s1 Done Some fp s2 accept_seq_not_waiting [of T "f_seq f" s1] that(3,4) by (cases y) auto
    qed
  next
    case (Raise e)
    then show thesis using assms s1 by (intro that(1) [of x]) (auto simp: recv_turn_def coro_bind_def)
  next
    case Waiting
    then show thesis using assms s1 by (intro that(1) [of x]) (auto simp: recv_turn_def coro_bind_def)
  qed
qed

text \<open>A larger fuel never changes a result.\<close>

lemma recv_loop_more_fuel: "recv_loop n c T clk l s = Some r \<Longrightarrow> n \<le> m \<Longrightarrow> recv_loop m c T clk l s = Some r"
proof (induction n arbitrary: l s m)
  case (Suc n)
  then obtain k where "m = Suc k" "n \<le> k" by (cases m) auto
  then show ?case using Suc by (auto split: prod.splits io.splits recv_ctl.splits)
qed simp

context usmp_transport
begin

lemma receive_frame_progress:
  "receive_frame c T clk s = (Done received, s') \<Longrightarrow> pending (transport s') < pending (transport s)"
proof (cases received)
  case None
  assume "receive_frame c T clk s = (Done received, s')"
  from receive_frame_NoneD [OF this [unfolded None]] show ?thesis
    using read_done_progress read_error_progress by fastforce
next
  case (Some fp)
  obtain f pt where fp: "fp = (f, pt)" by (cases fp)
  assume "receive_frame c T clk s = (Done received, s')"
  from receive_frame_SomeD [OF this [unfolded Some fp]] show ?thesis
    using read_done_progress by fastforce
qed

lemma dispatch_pending:
  assumes "dispatch_frame c T clk f pt l s = (Done x, s')"
  shows "pending (transport s') \<le> pending (transport s)"
proof -
  have ctrl: "pending (transport s') \<le> pending (transport s)" if "handle_control c T clk ty l s = (r, s')" for ty r
    using handle_control_transport [OF that] write_pending by fastforce
  have rot: "pending (transport (rotate_keys T keys s)) = pending (transport s)" for keys
    by (cases keys) (simp add: rotate_keys_def set_keys_pending)
  show ?thesis
    using assms ctrl
    by (auto simp: dispatch_frame_def coro_catch_def coro_raise_def coro_lift_def handle_rekey_def rot
        split: if_splits io.splits prod.splits sum.splits)
qed

lemma recv_turn_progress:
  assumes "recv_turn c T clk l s = (Done x, s')"
  shows "pending (transport s') < pending (transport s)"
  using assms
proof (cases rule: recv_turn_cases)
  case dropped
  from dropped(1) show ?thesis by (rule receive_frame_progress)
next
  case (processed f pt s1 s2)
  have "pending (transport s2) = pending (transport s1)"
    using processed(2) by (auto simp: accept_seq_def confirm_pending split: if_splits)
  then show ?thesis using receive_frame_progress [OF processed(1)] dispatch_pending [OF processed(3)] by simp
qed auto

lemma recv_loop_total: "pending (transport s) < fuel \<Longrightarrow> \<exists>r. recv_loop fuel c T clk l s = Some r"
proof (induction fuel arbitrary: l s)
  case (Suc fuel)
  obtain x s1 where t: "recv_turn c T clk l s = (x, s1)" by fastforce
  show ?case
  proof (cases "\<exists>l'. x = Done (Continue l')")
    case True
    then obtain l' where x: "x = Done (Continue l')" by blast
    have "pending (transport s1) < fuel" using recv_turn_progress [OF t [unfolded x]] Suc.prems by simp
    from Suc.IH [OF this, of l'] show ?thesis using t x by simp
  next
    case False
    then show ?thesis using t by (auto split: io.splits recv_ctl.splits)
  qed
qed simp

lemma receive_frame_plain:
  assumes "receive_frame c T clk s = (Done (Some (f, pt)), s')" "aead_plain_sized c"
  shows "length pt \<le> USMP_MAX_DATA_LEN"
proof -
  obtain t nonce where r: "t_read_frame T True (transport s) = (Done f, t)"
    and d: "decrypt c (rx_key (info s)) nonce (f_seq f) (packet_type_value (f_type f)) (f_version f) (f_magic f)
      (f_length f) (f_payload f) (cipher_suite (info s)) = Inr pt"
    using receive_frame_SomeD [OF assms(1)] by blast
  have "length (f_payload f) = length pt + 28" using assms(2) d by (rule decrypt_plain_length)
  moreover have "length (f_payload f) \<le> 480" using read_wf [OF r] by (simp add: wf_frame_def USMP_MAX_PAYLOAD_def)
  ultimately show ?thesis by (simp add: usmp_consts)
qed

lemma recv_loop_bounded:
  assumes "recv_loop fuel c T clk l s = Some (Done data, s')" "locals_ok l" "aead_plain_sized c"
  shows "length data \<le> USMP_MAX_DATA_LEN * USMP_MAX_FRAMES"
  using assms(1,2)
proof (induction fuel arbitrary: l s)
  case (Suc fuel)
  obtain x s1 where t: "recv_turn c T clk l s = (x, s1)" by fastforce
  have ok: "case y of Continue l' \<Rightarrow> locals_ok l' | Return d \<Rightarrow> length d \<le> USMP_MAX_DATA_LEN * USMP_MAX_FRAMES"
    if "x = Done y" for y
    using t [unfolded that]
  proof (cases rule: recv_turn_cases)
    case dropped
    then show ?thesis using Suc.prems(2) by simp
  next
    case (processed f pt s2 s3)
    show ?thesis
      using processed(3) Suc.prems(2) receive_frame_plain [OF processed(1) assms(3)] by (rule dispatch_locals)
  qed auto
  then show ?case using Suc t by (auto split: io.splits recv_ctl.splits)
qed simp

end

subsection \<open>Fragments\<close>

function fragments :: "bytes \<Rightarrow> (packet_type \<times> bytes) list" where
  "fragments data =
     (if length data \<le> USMP_MAX_DATA_LEN then [(DATA, data)]
      else (DATA_FRAG, take USMP_MAX_DATA_LEN data) # fragments (drop USMP_MAX_DATA_LEN data))"
  by pat_completeness auto
termination
  by (relation "measure length") (auto simp: usmp_consts)

declare fragments.simps [simp del]

fun send_all :: "crypto \<Rightarrow> 't transport_ops \<Rightarrow> (packet_type \<times> bytes) list \<Rightarrow> ('t session, unit) coro" where
  "send_all c T [] s = (Done (), s)"
| "send_all c T ((ptype, chunk) # frs) s =
     (case send_encrypted_locked c T ptype chunk s of
        (Done _, s') \<Rightarrow> send_all c T frs s'
      | r \<Rightarrow> r)"

lemma send_loop_fragments:
  "offset < length data \<or> (data = [] \<and> offset = 0) \<Longrightarrow>
    send_loop c T data offset s = send_all c T (fragments (drop offset data)) s"
proof (induction c T data offset s rule: send_loop.induct)
  case (1 c T data offset s)
  let ?chunk = "py_slice offset (offset + USMP_MAX_DATA_LEN) data"
  have go: "offset < length data \<or> length data = 0" using 1(2) by auto
  have chunk: "?chunk = take USMP_MAX_DATA_LEN (drop offset data)" by (simp add: py_slice_def)
  show ?case
  proof (cases "length (drop offset data) \<le> USMP_MAX_DATA_LEN")
    case True
    then have "fragments (drop offset data) = [(DATA, ?chunk)]" by (simp add: fragments.simps chunk)
    moreover have "send_loop c T data (length data) s' = (Done (), s')" if "data \<noteq> []" for s'
      using that by (simp add: send_loop.simps)
    moreover have "offset + length ?chunk = length data" using True go 1(2) by (auto simp: chunk)
    ultimately show ?thesis
      using go by (subst send_loop.simps) (auto simp: Let_def split: io.splits prod.splits)
  next
    case False
    have len: "length ?chunk = USMP_MAX_DATA_LEN" using False by (simp add: chunk)
    have frs: "fragments (drop offset data) = (DATA_FRAG, ?chunk) # fragments (drop (offset + USMP_MAX_DATA_LEN) data)"
      using False by (subst fragments.simps) (simp add: py_slice_def add.commute)
    have more: "offset + USMP_MAX_DATA_LEN < length data" "data \<noteq> []" using False by auto
    have "send_loop c T data (offset + USMP_MAX_DATA_LEN) s' = send_all c T (fragments (drop (offset + USMP_MAX_DATA_LEN) data)) s'"
      if "send_encrypted_locked c T DATA_FRAG ?chunk s = (Done u, s')" for u s'
      using 1(1) [OF go refl refl refl, of "Done u" s' u] that more by (auto simp: len)
    then show ?thesis
      using go more frs by (subst send_loop.simps) (auto simp: Let_def len split: io.splits prod.splits)
  qed
qed

subsection \<open>Over TCP\<close>

text \<open>The receiver \<open>j\<close> expects what the sender \<open>i\<close> seals next.\<close>

definition paired :: "session_info \<Rightarrow> session_info \<Rightarrow> bool" where
  "paired i j \<longleftrightarrow>
     rx_key j = tx_key i \<and> session_id j = session_id i \<and> cipher_suite j = cipher_suite i \<and> rx_seq j = tx_seq i"

text \<open>A session info as the handshake leaves it, with sequence numbers to spare.\<close>

definition sender_ok :: "crypto \<Rightarrow> session_info \<Rightarrow> bool" where
  "sender_ok c i \<longleftrightarrow>
     aead_sized c \<and> aead_correct c \<and> aead_plain_sized c \<and> length (tx_key i) = 32 \<and> length (session_id i) = 16 \<and>
     0 \<le> tx_seq i"

lemma sealed_frame:
  assumes "sender_ok c i" "seal c ty pt i = Inr (ct, q, i')" "length pt \<le> USMP_MAX_DATA_LEN"
  shows "decrypt c (tx_key i) (nonce_of i q) q (packet_type_value ty) USMP_VERSION USMP_MAGIC (int (length ct)) ct
      (cipher_suite i) = Inr pt \<and> length ct \<le> USMP_MAX_PAYLOAD \<and> 0 \<le> q \<and> q < 2 ^ 32"
proof -
  note e = seal_InrD [OF assms(2)]
  have "length (nonce_of i q) = 12" using assms(1) by (simp add: sender_ok_def nonce_of_def)
  then have d: "decrypt c (tx_key i) (nonce_of i q) q (packet_type_value ty) USMP_VERSION USMP_MAGIC (int (length ct)) ct
      (cipher_suite i) = Inr pt"
    using assms(1) e by (intro decrypt_encrypt) (auto simp: sender_ok_def)
  then have "length ct = length pt + 28" using assms(1) by (intro decrypt_plain_length) (simp_all add: sender_ok_def)
  then show ?thesis using d e assms(3) by (simp add: usmp_consts)
qed

lemma tcp_send_locked:
  assumes "sender_ok c (info s)" "seal c ty pt (info s) = Inr (ct, q, i')" "length pt \<le> USMP_MAX_DATA_LEN"
    and "tcp_live (transport s)"
  shows "send_encrypted_locked c tcp_ops ty pt s =
    (Done (), s\<lparr>info := i', transport := (transport s)\<lparr>wbuf := wbuf (transport s) @ frame_bytes USMP_VERSION ty q ct\<rparr>\<rparr>)"
  using sealed_frame [OF assms(1-3)] assms(2,4)
  by (simp add: send_encrypted_locked_def on_transport_def tcp_write_frame_ok)

lemma tcp_recv_turn:
  assumes "sender_ok c i" "seal c ty pt i = Inr (ct, q, i')" "length pt \<le> USMP_MAX_DATA_LEN"
    and "paired i (info s)" "q < 0xFFFFFFFF" "rbuf (transport s) = frame_bytes USMP_VERSION ty q ct @ rest"
  shows "recv_turn c tcp_ops clk l s =
    dispatch_frame c tcp_ops clk (mk_frame ty ct q) pt l
      (s\<lparr>transport := (transport s)\<lparr>rbuf := rest\<rparr>, ticks := Suc (ticks s), last_recv := clk (ticks s),
         info := (info s)\<lparr>rx_seq := rx_seq (info s) + 1\<rparr>\<rparr>)"
proof -
  note d = sealed_frame [OF assms(1-3)]
  have r: "tcp_read_frame True (transport s) = (Done (mk_frame ty ct q), (transport s)\<lparr>rbuf := rest\<rparr>)"
    using d assms(6) by (intro tcp_read_frame_frame) simp_all
  have p: "pack_I q = Inr (le_bytes 4 q)" using d by (simp add: I.pack_in_range)
  have "receive_frame c tcp_ops clk s = (Done (Some (mk_frame ty ct q, pt)),
      s\<lparr>transport := (transport s)\<lparr>rbuf := rest\<rparr>, ticks := Suc (ticks s), last_recv := clk (ticks s)\<rparr>)"
    using d assms(4) r p
    by (simp add: receive_frame_def coro_catch_def coro_bind_def on_transport_def coro_lift_def monotonic_def Let_def
        paired_def nonce_of_def)
  then show ?thesis
    using assms(4,5) seal_InrD [OF assms(2)]
    by (simp add: recv_turn_def coro_bind_def accept_seq_def paired_def)
qed

text \<open>How many frames a message takes.\<close>

definition frames_of :: "bytes \<Rightarrow> nat" where
  "frames_of data = length (fragments data)"

lemma frames_of_simps:
  "length data \<le> USMP_MAX_DATA_LEN \<Longrightarrow> frames_of data = 1"
  "\<not> length data \<le> USMP_MAX_DATA_LEN \<Longrightarrow> frames_of data = Suc (frames_of (drop USMP_MAX_DATA_LEN data))"
  by (simp_all add: frames_of_def fragments.simps [of data])

lemma frames_of_pos: "0 < frames_of data"
  by (cases "length data \<le> USMP_MAX_DATA_LEN") (simp_all add: frames_of_simps)

lemma frames_of_le: "length data \<le> USMP_MAX_DATA_LEN * n \<Longrightarrow> 0 < n \<Longrightarrow> frames_of data \<le> n"
proof (induction n arbitrary: data)
  case (Suc n)
  show ?case
  proof (cases "length data \<le> USMP_MAX_DATA_LEN")
    case True
    then show ?thesis by (simp add: frames_of_simps)
  next
    case False
    then have "0 < n" using Suc.prems by (cases n) auto
    then have "frames_of (drop USMP_MAX_DATA_LEN data) \<le> n" using Suc.prems by (intro Suc.IH) auto
    then show ?thesis using False by (simp add: frames_of_simps)
  qed
qed simp

text \<open>One fragment through the receive loop.\<close>

lemma tcp_recv_loop_frag:
  assumes "sender_ok c i" "seal c DATA_FRAG pt i = Inr (ct, q, i')" "length pt \<le> USMP_MAX_DATA_LEN"
    and "paired i (info s)" "rbuf (transport s) = frame_bytes USMP_VERSION DATA_FRAG q ct @ rest"
    and "frame_count l = 0 \<or> expected_frag_seq l = q" "frame_count l + 1 < USMP_MAX_FRAMES"
  shows "recv_loop (Suc fuel) c tcp_ops clk l s =
    recv_loop fuel c tcp_ops clk
      (l\<lparr>expected_frag_seq := q + 1, assembled_payload := assembled_payload l @ pt, frame_count := frame_count l + 1\<rparr>)
      (s\<lparr>transport := (transport s)\<lparr>rbuf := rest\<rparr>, ticks := Suc (ticks s), last_recv := clk (ticks s),
         info := (info s)\<lparr>rx_seq := rx_seq (info s) + 1\<rparr>\<rparr>)"
proof -
  have q: "q < 0xFFFFFFFF" using seal_InrD [OF assms(2)] by simp
  show ?thesis
    using assms(6,7)
    by (auto simp: tcp_recv_turn [OF assms(1-4) q assms(5)] dispatch_frame_def coro_catch_def coro_lift_def
        handle_data_def Let_def)
qed

lemma tcp_recv_loop_data:
  assumes "sender_ok c i" "seal c DATA pt i = Inr (ct, q, i')" "length pt \<le> USMP_MAX_DATA_LEN"
    and "paired i (info s)" "rbuf (transport s) = frame_bytes USMP_VERSION DATA q ct @ rest"
    and "frame_count l = 0 \<or> expected_frag_seq l = q"
  shows "recv_loop (Suc fuel) c tcp_ops clk l s =
    Some (Done (assembled_payload l @ pt),
      s\<lparr>transport := (transport s)\<lparr>rbuf := rest\<rparr>, ticks := Suc (ticks s), last_recv := clk (ticks s),
         info := (info s)\<lparr>rx_seq := rx_seq (info s) + 1\<rparr>\<rparr>)"
proof -
  have q: "q < 0xFFFFFFFF" using seal_InrD [OF assms(2)] by simp
  show ?thesis
    using assms(6)
    by (auto simp: tcp_recv_turn [OF assms(1-4) q assms(5)] dispatch_frame_def coro_catch_def coro_lift_def
        handle_data_def Let_def)
qed

text \<open>
  The receiver of the bytes \<open>w\<close>: from any state of the loop that is ready for a message of
  sender \<open>i\<close> it returns \<open>data\<close>, appended to what was assembled before.
\<close>

definition delivers :: "crypto \<Rightarrow> (nat \<Rightarrow> seconds) \<Rightarrow> session_info \<Rightarrow> bytes \<Rightarrow> bytes \<Rightarrow> bool" where
  "delivers c clk i w data \<longleftrightarrow>
     (\<forall>l s rest fuel. paired i (info s) \<longrightarrow> rbuf (transport s) = w @ rest \<longrightarrow> frames_of data \<le> fuel \<longrightarrow>
        (frame_count l = 0 \<or> expected_frag_seq l = tx_seq i) \<longrightarrow> frame_count l + frames_of data \<le> USMP_MAX_FRAMES \<longrightarrow>
        (\<exists>s'. recv_loop fuel c tcp_ops clk l s = Some (Done (assembled_payload l @ data), s') \<and>
           transport s' = (transport s)\<lparr>rbuf := rest\<rparr> \<and>
           info s' = (info s)\<lparr>rx_seq := rx_seq (info s) + int (frames_of data)\<rparr>))"

lemma delivers_data:
  assumes "sender_ok c i" "seal c DATA data i = Inr (ct, q, i')" "length data \<le> USMP_MAX_DATA_LEN"
  shows "delivers c clk i (frame_bytes USMP_VERSION DATA q ct) data"
  unfolding delivers_def
proof (intro allI impI)
  fix l :: recv_locals and s :: "tcp_transport session" and rest fuel
  assume *: "paired i (info s)" "rbuf (transport s) = frame_bytes USMP_VERSION DATA q ct @ rest"
    "frames_of data \<le> fuel" "frame_count l = 0 \<or> expected_frag_seq l = tx_seq i"
  obtain k where k: "fuel = Suc k" using *(3) assms(3) by (cases fuel) (auto simp: frames_of_simps)
  have q: "q = tx_seq i" using seal_InrD [OF assms(2)] by simp
  show "\<exists>s'. recv_loop fuel c tcp_ops clk l s = Some (Done (assembled_payload l @ data), s') \<and>
      transport s' = (transport s)\<lparr>rbuf := rest\<rparr> \<and>
      info s' = (info s)\<lparr>rx_seq := rx_seq (info s) + int (frames_of data)\<rparr>"
    unfolding k using tcp_recv_loop_data [OF assms *(1,2)] *(4) q assms(3) by (simp add: frames_of_simps)
qed

lemma delivers_frag:
  assumes ok: "sender_ok c i" and ct: "seal c DATA_FRAG (take USMP_MAX_DATA_LEN data) i = Inr (ct, q, i')"
    and long: "\<not> length data \<le> USMP_MAX_DATA_LEN" and rest: "delivers c clk i' w (drop USMP_MAX_DATA_LEN data)"
  shows "delivers c clk i (frame_bytes USMP_VERSION DATA_FRAG q ct @ w) data"
  unfolding delivers_def
proof (intro allI impI)
  fix l :: recv_locals and s :: "tcp_transport session" and tl fuel
  assume *: "paired i (info s)" "rbuf (transport s) = (frame_bytes USMP_VERSION DATA_FRAG q ct @ w) @ tl"
    "frames_of data \<le> fuel" "frame_count l = 0 \<or> expected_frag_seq l = tx_seq i"
    "frame_count l + frames_of data \<le> USMP_MAX_FRAMES"
  let ?rest = "drop USMP_MAX_DATA_LEN data"
  have n: "frames_of data = Suc (frames_of ?rest)" using long by (rule frames_of_simps)
  obtain k where k: "fuel = Suc k" "frames_of ?rest \<le> k" using *(3) n by (cases fuel) auto
  have q: "q = tx_seq i" "q < 0xFFFFFFFF" "i' = i\<lparr>tx_seq := q + 1\<rparr>" using seal_InrD [OF ct] by auto
  have b: "rbuf (transport s) = frame_bytes USMP_VERSION DATA_FRAG q ct @ w @ tl" using *(2) by simp
  have c: "frame_count l + 1 < USMP_MAX_FRAMES" using *(5) n frames_of_pos [of ?rest] by simp
  have e: "frame_count l = 0 \<or> expected_frag_seq l = q" using *(4) q(1) by simp
  let ?l = "l\<lparr>expected_frag_seq := q + 1, assembled_payload := assembled_payload l @ take USMP_MAX_DATA_LEN data,
    frame_count := frame_count l + 1\<rparr>"
  let ?s = "s\<lparr>transport := (transport s)\<lparr>rbuf := w @ tl\<rparr>, ticks := Suc (ticks s), last_recv := clk (ticks s),
    info := (info s)\<lparr>rx_seq := rx_seq (info s) + 1\<rparr>\<rparr>"
  have step: "recv_loop fuel c tcp_ops clk l s = recv_loop k c tcp_ops clk ?l ?s"
    unfolding k(1) using long by (intro tcp_recv_loop_frag [OF ok ct _ *(1) b e c]) simp
  have "paired i' (info ?s)" using *(1) q by (simp add: paired_def)
  then obtain s' where "recv_loop k c tcp_ops clk ?l ?s = Some (Done (assembled_payload ?l @ ?rest), s')"
      "transport s' = (transport ?s)\<lparr>rbuf := tl\<rparr>" "info s' = (info ?s)\<lparr>rx_seq := rx_seq (info ?s) + int (frames_of ?rest)\<rparr>"
    using rest [unfolded delivers_def, rule_format, of ?s tl k ?l] k(2) q(3) *(5) n by auto
  then show "\<exists>s'. recv_loop fuel c tcp_ops clk l s = Some (Done (assembled_payload l @ data), s') \<and>
      transport s' = (transport s)\<lparr>rbuf := tl\<rparr> \<and>
      info s' = (info s)\<lparr>rx_seq := rx_seq (info s) + int (frames_of data)\<rparr>"
    using step n by (simp add: add.assoc)
qed

text \<open>The bytes a message is sent as.\<close>

lemma tcp_send_all_delivers:
  assumes "sender_ok c (info s)" "tcp_live (transport s)" "tx_seq (info s) + int (frames_of data) \<le> 0xFFFFFFFF"
  shows "\<exists>w. send_all c tcp_ops (fragments data) s =
      (Done (), s\<lparr>info := (info s)\<lparr>tx_seq := tx_seq (info s) + int (frames_of data)\<rparr>,
                  transport := (transport s)\<lparr>wbuf := wbuf (transport s) @ w\<rparr>\<rparr>) \<and> delivers c clk (info s) w data"
  using assms
proof (induction data arbitrary: s rule: fragments.induct)
  case (1 data)
  show ?case
  proof (cases "length data \<le> USMP_MAX_DATA_LEN")
    case True
    then have n: "frames_of data = 1" "fragments data = [(DATA, data)]"
      by (simp_all add: frames_of_simps fragments.simps)
    obtain ct where ct: "seal c DATA data (info s) = Inr (ct, tx_seq (info s), (info s)\<lparr>tx_seq := tx_seq (info s) + 1\<rparr>)"
      using seal_ok [of c "info s" data DATA] 1 True n(1) by (auto simp: sender_ok_def)
    show ?thesis
      using delivers_data [OF 1(2) ct True, of clk] tcp_send_locked [OF 1(2) ct True 1(3)] n by auto
  next
    case False
    let ?hd = "take USMP_MAX_DATA_LEN data" and ?tl = "drop USMP_MAX_DATA_LEN data"
    have n: "frames_of data = Suc (frames_of ?tl)" "fragments data = (DATA_FRAG, ?hd) # fragments ?tl"
      using False by (simp_all add: frames_of_simps fragments.simps [of data])
    have len: "length ?hd \<le> USMP_MAX_DATA_LEN" by simp
    obtain ct where ct: "seal c DATA_FRAG ?hd (info s) = Inr (ct, tx_seq (info s), (info s)\<lparr>tx_seq := tx_seq (info s) + 1\<rparr>)"
      using seal_ok [of c "info s" ?hd DATA_FRAG] 1 len n(1) by (auto simp: sender_ok_def)
    let ?s = "s\<lparr>info := (info s)\<lparr>tx_seq := tx_seq (info s) + 1\<rparr>,
      transport := (transport s)\<lparr>wbuf := wbuf (transport s) @ frame_bytes USMP_VERSION DATA_FRAG (tx_seq (info s)) ct\<rparr>\<rparr>"
    have "sender_ok c (info ?s)" "tcp_live (transport ?s)" "tx_seq (info ?s) + int (frames_of ?tl) \<le> 0xFFFFFFFF"
      using 1(2-4) n(1) by (simp_all add: sender_ok_def)
    from 1(1) [OF False this] obtain w where w: "send_all c tcp_ops (fragments ?tl) ?s =
        (Done (), ?s\<lparr>info := (info ?s)\<lparr>tx_seq := tx_seq (info ?s) + int (frames_of ?tl)\<rparr>,
           transport := (transport ?s)\<lparr>wbuf := wbuf (transport ?s) @ w\<rparr>\<rparr>)" "delivers c clk (info ?s) w ?tl"
      by blast
    have "delivers c clk (info s) (frame_bytes USMP_VERSION DATA_FRAG (tx_seq (info s)) ct @ w) data"
      using 1(2) ct False w(2) by (intro delivers_frag) simp_all
    then show ?thesis
      using tcp_send_locked [OF 1(2) ct len 1(3)] w(1) n by (auto simp: add.assoc)
  qed
qed

text \<open>The same session, with \<open>w\<close> as the bytes its connection has received.\<close>

definition with_input :: "bytes \<Rightarrow> tcp_transport session \<Rightarrow> tcp_transport session" where
  "with_input w s = s\<lparr>transport := (transport s)\<lparr>rbuf := w\<rparr>\<rparr>"

lemma with_input_simps [simp]:
  "info (with_input w s) = info s" "rbuf (transport (with_input w s)) = w" "recv_timeout (with_input w s) = recv_timeout s"
  "ticks (with_input w s) = ticks s" "at_eof (transport (with_input w s)) = at_eof (transport s)"
  by (simp_all add: with_input_def)

lemma tcp_send_delivers:
  assumes "sender_ok c (info s)" "tcp_live (transport s)" "length data \<le> USMP_MAX_DATA_LEN * USMP_MAX_FRAMES"
    and "tx_seq (info s) + int USMP_MAX_FRAMES \<le> 0xFFFFFFFF"
  shows "\<exists>w. send c tcp_ops data s =
      (Done (), s\<lparr>info := (info s)\<lparr>tx_seq := tx_seq (info s) + int (frames_of data)\<rparr>,
                  transport := (transport s)\<lparr>wbuf := wbuf (transport s) @ w\<rparr>\<rparr>) \<and> delivers c clk (info s) w data"
proof -
  have "frames_of data \<le> USMP_MAX_FRAMES" using assms(3) by (intro frames_of_le) (simp_all add: USMP_MAX_FRAMES_def)
  then have "tx_seq (info s) + int (frames_of data) \<le> 0xFFFFFFFF" using assms(4) by linarith
  from tcp_send_all_delivers [OF assms(1,2) this, of clk] show ?thesis
    using assms(3) send_loop_fragments [of 0 data c tcp_ops s] by (auto simp: send_def)
qed

lemma delivers_recv:
  assumes "delivers c clk i w data" "paired i (info s)" "frames_of data \<le> USMP_MAX_FRAMES" "frames_of data \<le> fuel"
  shows "\<exists>s'. recv fuel c tcp_ops clk timeout (with_input (w @ rest) s) = Some (Done data, s') \<and>
    transport s' = (transport s)\<lparr>rbuf := rest\<rparr> \<and>
    info s' = (info s)\<lparr>rx_seq := rx_seq (info s) + int (frames_of data)\<rparr>"
proof -
  let ?l = "\<lparr>assembled_payload = [], frame_count = 0, ctrl_count = 0, ctrl_window_start = clk (ticks s),
    expected_frag_seq = 0\<rparr>"
  let ?s = "(with_input (w @ rest) s)\<lparr>ticks := Suc (ticks s)\<rparr>"
  obtain s' where "recv_loop fuel c tcp_ops clk ?l ?s = Some (Done data, s')"
      "transport s' = (transport ?s)\<lparr>rbuf := rest\<rparr>" "info s' = (info ?s)\<lparr>rx_seq := rx_seq (info ?s) + int (frames_of data)\<rparr>"
    using assms(1) [unfolded delivers_def, rule_format, of ?s rest fuel ?l] assms(2-4) by auto
  then show ?thesis by (auto simp: recv_def recv_internal_def with_input_def)
qed

definition initial_locals :: "seconds \<Rightarrow> recv_locals" where
  "initial_locals now = \<lparr>assembled_payload = [], frame_count = 0, ctrl_count = 0, ctrl_window_start = now, expected_frag_seq = 0\<rparr>"

lemma recv_internal_eq:
  "recv_internal fuel c T clk s =
    recv_loop fuel c T clk (initial_locals (clk (ticks s))) (s\<lparr>ticks := Suc (ticks s)\<rparr>)"
  by (simp add: recv_internal_def initial_locals_def)

lemma initial_locals_ok: "locals_ok (initial_locals now)"
  by (simp add: locals_ok_def USMP_MAX_FRAMES_def initial_locals_def)

lemma recv_Done_loop:
  "recv fuel c T clk timeout s = Some (Done data, s') \<Longrightarrow>
    recv_loop fuel c T clk (initial_locals (clk (ticks s))) (s\<lparr>ticks := Suc (ticks s)\<rparr>) = Some (Done data, s')"
  by (auto simp: recv_def recv_internal_eq Let_def split: option.splits if_splits io.splits)

lemma recv_total:
  assumes "\<And>l. \<exists>r. recv_loop fuel c T clk l (s\<lparr>ticks := Suc (ticks s)\<rparr>) = Some r"
  shows "\<exists>r. recv fuel c T clk timeout s = Some r \<and> (\<forall>more\<ge>fuel. recv more c T clk timeout s = Some r)"
proof -
  obtain r where r: "recv_internal fuel c T clk s = Some r" using assms unfolding recv_internal_eq by metis
  have "recv_internal more c T clk s = Some r" if "fuel \<le> more" for more
    using recv_loop_more_fuel [OF _ that] r unfolding recv_internal_eq by blast
  with r show ?thesis by (cases r) (simp add: recv_def Let_def)
qed

text \<open>Two concrete ends of a session, for the witnesses.\<close>

definition toy_a :: "tcp_transport session" where
  "toy_a = USMPSession (tcp_open PeerNone) toy_info None (\<lambda>n. 0)"

definition toy_b :: "tcp_transport session" where
  "toy_b = USMPSession (tcp_open PeerNone) (toy_info\<lparr>tx_key := replicate 32 2, rx_key := replicate 32 1\<rparr>) None (\<lambda>n. 0)"

lemma toy_ends:
  "sender_ok toy_crypto (info toy_a)" "tcp_live (transport toy_a)" "paired (info toy_a) (info toy_b)"
  "paired (info toy_b) (info toy_a)" "tx_seq (info toy_a) = 0" "\<not> at_eof (transport toy_b)" "\<not> s_closed toy_a"
  using toy_crypto_laws
  by (simp_all add: toy_a_def toy_b_def sender_ok_def paired_def USMPSession_def toy_info_def tcp_live_def tcp_open_def)

subsection \<open>Properties\<close>

text \<open>
  C1. End to end over TCP: what a session sends, fragmented if need be, is what the session at
  the other end receives, for every message of up to four frames. Exactly the bytes of the
  message are consumed, and afterwards the two ends are paired again, so the next message
  arrives in the same way.
\<close>

theorem tcp_send_recv_roundtrip:
  assumes "sender_ok c (info a)" "tcp_live (transport a)" "paired (info a) (info b)"
    and "length data \<le> USMP_MAX_DATA_LEN * USMP_MAX_FRAMES" "tx_seq (info a) + int USMP_MAX_FRAMES \<le> 0xFFFFFFFF"
    and "USMP_MAX_FRAMES \<le> fuel"
  shows "\<exists>w a' b'. send c tcp_ops data a = (Done (), a') \<and>
    transport a' = (transport a)\<lparr>wbuf := wbuf (transport a) @ w\<rparr> \<and>
    recv fuel c tcp_ops clk timeout (with_input (w @ rest) b) = Some (Done data, b') \<and>
    transport b' = (transport b)\<lparr>rbuf := rest\<rparr> \<and> paired (info a') (info b') \<and> sender_ok c (info a')"
proof -
  let ?a = "\<lambda>w. a\<lparr>info := (info a)\<lparr>tx_seq := tx_seq (info a) + int (frames_of data)\<rparr>,
    transport := (transport a)\<lparr>wbuf := wbuf (transport a) @ w\<rparr>\<rparr>"
  obtain w where w: "send c tcp_ops data a = (Done (), ?a w)" "delivers c clk (info a) w data"
    using tcp_send_delivers [OF assms(1,2,4,5), of clk] by blast
  have n: "frames_of data \<le> USMP_MAX_FRAMES" using assms(4) by (intro frames_of_le) (simp_all add: USMP_MAX_FRAMES_def)
  then obtain b' where b': "recv fuel c tcp_ops clk timeout (with_input (w @ rest) b) = Some (Done data, b')"
      "transport b' = (transport b)\<lparr>rbuf := rest\<rparr>" "info b' = (info b)\<lparr>rx_seq := rx_seq (info b) + int (frames_of data)\<rparr>"
    using delivers_recv [OF w(2) assms(3) n, of fuel timeout rest] assms(6) by auto
  have "paired (info (?a w)) (info b')" "sender_ok c (info (?a w))"
    using assms(1,3) b'(3) by (simp_all add: paired_def sender_ok_def)
  then show ?thesis using w(1) b'(1,2) by (intro exI [of _ w] exI [of _ "?a w"] exI [of _ b']) simp
qed

theorem tcp_send_recv_roundtrip_witness:
  "\<exists>w a' b'. send toy_crypto tcp_ops (replicate 500 3) toy_a = (Done (), a') \<and>
     recv 4 toy_crypto tcp_ops (\<lambda>n. 0) None (with_input w toy_b) = Some (Done (replicate 500 3), b')"
  using tcp_send_recv_roundtrip [OF toy_ends(1-3), of "replicate 500 3" 4 "\<lambda>n. 0" None "[]"] toy_ends(5)
  by (auto simp: usmp_consts)

text \<open>
  C21. On a finite input \<open>recv\<close> comes to an end, over TCP and over UDP: it returns, raises or
  is left waiting for more input after at most one turn more than there are bytes to read,
  whatever the peer sends; and with more turns allowed the outcome is the same.
\<close>

theorem recv_terminates:
  "(length (rbuf (transport s)) < fuel \<longrightarrow>
     (\<exists>r. recv fuel c tcp_ops clk timeout s = Some r \<and> (\<forall>more\<ge>fuel. recv more c tcp_ops clk timeout s = Some r))) \<and>
   (udp_pending (transport u) < fuel \<longrightarrow>
     (\<exists>r. recv fuel c udp_ops clk timeout u = Some r \<and> (\<forall>more\<ge>fuel. recv more c udp_ops clk timeout u = Some r)))"
  using recv_total [of fuel c tcp_ops clk s timeout] recv_total [of fuel c udp_ops clk u timeout]
    tcp.recv_loop_total [of "s\<lparr>ticks := Suc (ticks s)\<rparr>" fuel] udp.recv_loop_total [of "u\<lparr>ticks := Suc (ticks u)\<rparr>" fuel]
  by simp

theorem recv_terminates_witness:
  "\<exists>r. recv 1 toy_crypto tcp_ops (\<lambda>n. 0) None toy_b = Some r"
proof -
  have "length (rbuf (transport toy_b)) < 1" by (simp add: toy_b_def USMPSession_def tcp_open_def)
  then show ?thesis using recv_terminates [of toy_b 1 toy_crypto "\<lambda>n. 0" None] by blast
qed

text \<open>
  C22. Whatever arrives, a received message is never longer than four frames of 452 bytes,
  over TCP and over UDP.
\<close>

theorem recv_bounded:
  assumes "aead_plain_sized c"
  shows "(recv fuel c tcp_ops clk timeout s = Some (Done data, s') \<longrightarrow> length data \<le> USMP_MAX_DATA_LEN * USMP_MAX_FRAMES) \<and>
    (recv fuel c udp_ops clk timeout u = Some (Done data, u') \<longrightarrow> length data \<le> USMP_MAX_DATA_LEN * USMP_MAX_FRAMES)"
  using tcp.recv_loop_bounded [OF recv_Done_loop initial_locals_ok assms]
    udp.recv_loop_bounded [OF recv_Done_loop initial_locals_ok assms] by blast

theorem recv_bounded_witness:
  "\<exists>w s'. recv 4 toy_crypto tcp_ops (\<lambda>n. 0) None (with_input w toy_b) = Some (Done (replicate 500 3), s') \<and>
     length (replicate 500 (3::byte)) \<le> 1808"
proof -
  obtain w where w: "delivers toy_crypto (\<lambda>n. 0) (info toy_a) w (replicate 500 3)"
    using tcp_send_delivers [OF toy_ends(1,2), of "replicate 500 3" "\<lambda>n. 0"] toy_ends(5) by (auto simp: usmp_consts)
  have "frames_of (replicate 500 (3::byte)) \<le> USMP_MAX_FRAMES"
    by (intro frames_of_le) (simp_all add: usmp_consts)
  then obtain s' where r: "recv 4 toy_crypto tcp_ops (\<lambda>n. 0) None (with_input w toy_b) = Some (Done (replicate 500 3), s')"
    using delivers_recv [OF w toy_ends(3), of 4 None "[]"] by (auto simp: usmp_consts)
  then have "length (replicate 500 (3::byte)) \<le> USMP_MAX_DATA_LEN * USMP_MAX_FRAMES"
    using recv_bounded [OF toy_crypto_laws(6), of 4 "\<lambda>n. 0" None "with_input w toy_b" "replicate 500 3" s'] by blast
  then have "length (replicate 500 (3::byte)) \<le> 1808" unfolding usmp_consts by simp
  with r show ?thesis by blast
qed



lemma tcp_bye_run:
  assumes "sender_ok c (info a)" "tcp_live (transport a)" "\<not> s_closed a" "tx_seq (info a) < 0xFFFFFFFF"
  shows "\<exists>w a'. bye c tcp_ops a = (Done (), a') \<and> s_closed a' \<and>
    transport a' = (transport a)\<lparr>wbuf := wbuf (transport a) @ w, w_closed := True\<rparr> \<and>
    bye c tcp_ops a' = (Done (), a') \<and>
    (\<forall>b clk l rest. paired (info a) (info b) \<longrightarrow>
      (\<exists>b'. recv_turn c tcp_ops clk l (with_input (w @ rest) b) = (Raise ConnectionClosedError, b')))"
proof -
  let ?i = "(info a)\<lparr>tx_seq := tx_seq (info a) + 1\<rparr>"
  let ?a = "a\<lparr>s_closed := True\<rparr>"
  have len: "length [] \<le> USMP_MAX_DATA_LEN" by simp
  obtain ct where ct: "seal c BYE [] (info ?a) = Inr (ct, tx_seq (info a), ?i)"
    using seal_ok [of c "info a" "[]" BYE] assms(1,4) len by (auto simp: sender_ok_def)
  let ?w = "frame_bytes USMP_VERSION BYE (tx_seq (info a)) ct"
  have ok: "sender_ok c (info ?a)" "tcp_live (transport ?a)" using assms(1,2) by simp_all
  note sent = tcp_send_locked [OF ok(1) ct len ok(2)]
  have r: "\<exists>b'. recv_turn c tcp_ops clk l (with_input (?w @ rest) b) = (Raise ConnectionClosedError, b')"
    if "paired (info a) (info b)" for b clk l rest
  proof -
    have "paired (info a) (info (with_input (?w @ rest) b))" using that by simp
    from tcp_recv_turn [OF assms(1) _ len this assms(4), of BYE ct ?i rest clk l] show ?thesis
      using ct by (simp add: dispatch_frame_def coro_catch_def coro_raise_def)
  qed
  show ?thesis
    using assms(3) sent r by (auto simp: bye_def send_encrypted_def Let_def tcp_close_def)
qed

lemma recv_raises:
  assumes "\<And>l. \<exists>s'. recv_turn c T clk l (s\<lparr>ticks := Suc (ticks s)\<rparr>) = (Raise ConnectionClosedError, s')" "0 < fuel"
  shows "\<exists>s'. recv fuel c T clk timeout s = Some (Raise ConnectionClosedError, s')"
proof -
  obtain k where "fuel = Suc k" using assms(2) by (cases fuel) auto
  then show ?thesis
    using assms(1) [of "initial_locals (clk (ticks s))"]
    by (auto simp: recv_def recv_internal_eq Let_def split: option.splits)
qed

text \<open>One end sends a message and says good-bye; the other receives the message and the end of the session.\<close>

lemma tcp_send_bye_run:
  assumes "sender_ok c (info a)" "tcp_live (transport a)" "paired (info a) (info b)" "\<not> s_closed a"
    and "length data \<le> USMP_MAX_DATA_LEN * USMP_MAX_FRAMES" "tx_seq (info a) + int USMP_MAX_FRAMES < 0xFFFFFFFF"
    and "USMP_MAX_FRAMES \<le> fuel"
  shows "\<exists>w a2 a3 s1 s2. send c tcp_ops data a = (Done (), a2) \<and> bye c tcp_ops a2 = (Done (), a3) \<and>
    transport a3 = (transport a)\<lparr>wbuf := wbuf (transport a) @ w, w_closed := True\<rparr> \<and>
    recv fuel c tcp_ops clk timeout (with_input w b) = Some (Done data, s1) \<and>
    recv fuel c tcp_ops clk timeout s1 = Some (Raise ConnectionClosedError, s2)"
proof -
  let ?a = "\<lambda>w. a\<lparr>info := (info a)\<lparr>tx_seq := tx_seq (info a) + int (frames_of data)\<rparr>,
    transport := (transport a)\<lparr>wbuf := wbuf (transport a) @ w\<rparr>\<rparr>"
  obtain w where w: "send c tcp_ops data a = (Done (), ?a w)" "delivers c clk (info a) w data"
    using tcp_send_delivers [OF assms(1,2,5), of clk] assms(6) by auto
  have n: "frames_of data \<le> USMP_MAX_FRAMES" using assms(5) by (intro frames_of_le) (simp_all add: USMP_MAX_FRAMES_def)
  have ok: "sender_ok c (info (?a w))" "tcp_live (transport (?a w))" "\<not> s_closed (?a w)" "tx_seq (info (?a w)) < 0xFFFFFFFF"
    using assms(1,2,4,6) n by (simp_all add: sender_ok_def tcp_live_def)
  obtain v a3 where a3: "bye c tcp_ops (?a w) = (Done (), a3)"
      "transport a3 = (transport (?a w))\<lparr>wbuf := wbuf (transport (?a w)) @ v, w_closed := True\<rparr>"
    and bye: "\<And>s clk l rest. paired (info (?a w)) (info s) \<Longrightarrow>
      \<exists>s'. recv_turn c tcp_ops clk l (with_input (v @ rest) s) = (Raise ConnectionClosedError, s')"
    using tcp_bye_run [OF ok] by blast
  obtain s1 where s1: "recv fuel c tcp_ops clk timeout (with_input (w @ v) b) = Some (Done data, s1)"
      "transport s1 = (transport b)\<lparr>rbuf := v\<rparr>" "info s1 = (info b)\<lparr>rx_seq := rx_seq (info b) + int (frames_of data)\<rparr>"
    using delivers_recv [OF w(2) assms(3) n order.trans [OF n assms(7)], of timeout v] by blast
  let ?s = "s1\<lparr>ticks := Suc (ticks s1)\<rparr>"
  have p: "paired (info (?a w)) (info ?s)" and v: "with_input (v @ []) ?s = ?s"
    using assms(3) s1(2,3) by (simp_all add: paired_def with_input_def)
  have "0 < fuel" using assms(7) by (simp add: usmp_consts)
  then obtain s2 where "recv fuel c tcp_ops clk timeout s1 = Some (Raise ConnectionClosedError, s2)"
    using recv_raises [of c tcp_ops clk s1 fuel timeout] bye [OF p, of clk _ "[]"] unfolding v by blast
  then show ?thesis using w(1) a3 s1(1) by (intro exI [of _ "w @ v"]) auto
qed

text \<open>
  Closing over TCP: \<open>bye\<close> sends one BYE frame and closes the transport; calling it
  again does nothing; and the peer, on reading the frame, gets \<open>ConnectionClosedError\<close>,
  even in the middle of a fragmented message.
\<close>

lemma tcp_bye_closes_both:
  assumes "sender_ok c (info a)" "tcp_live (transport a)" "paired (info a) (info b)" "\<not> s_closed a"
    and "tx_seq (info a) < 0xFFFFFFFF"
  shows "\<exists>w a' b'. bye c tcp_ops a = (Done (), a') \<and> s_closed a' \<and>
    transport a' = (transport a)\<lparr>wbuf := wbuf (transport a) @ w, w_closed := True\<rparr> \<and>
    bye c tcp_ops a' = (Done (), a') \<and>
    recv_turn c tcp_ops clk l (with_input (w @ rest) b) = (Raise ConnectionClosedError, b')"
  using tcp_bye_run [OF assms(1,2,4,5)] assms(3) by metis

lemma tcp_recv_waiting:
  "rbuf (transport s) = [] \<Longrightarrow> \<not> at_eof (transport s) \<Longrightarrow> recv_loop (Suc fuel) c tcp_ops clk l s = Some (Waiting, s)"
  by (simp add: recv_turn_def receive_frame_def coro_catch_def coro_bind_def on_transport_def tcp_read_empty)

text \<open>
  C38. A \<open>recv\<close> that times out between two fragments of a message forgets the fragments it
  has read, and the next \<open>recv\<close> returns the rest of the message as if it were the whole
  message: for every message of two to four frames, a timeout after the first frame makes the
  application see \<open>USMPTimeoutError\<close> and then the message without its first 452 bytes.
\<close>

theorem timed_out_recv_loses_fragments:
  assumes "sender_ok c (info a)" "tcp_live (transport a)" "paired (info a) (info b)" "\<not> at_eof (transport b)"
    and "USMP_MAX_DATA_LEN < length data" "length data \<le> USMP_MAX_DATA_LEN * USMP_MAX_FRAMES"
    and "tx_seq (info a) + int USMP_MAX_FRAMES \<le> 0xFFFFFFFF"
  shows "\<exists>w1 w2 a' b1 b2. send c tcp_ops data a = (Done (), a') \<and>
    wbuf (transport a') = wbuf (transport a) @ w1 @ w2 \<and>
    recv 2 c tcp_ops clk (Some t) (with_input w1 b) = Some (Raise USMPTimeoutError, b1) \<and>
    recv 4 c tcp_ops clk (Some t) (with_input w2 b1) = Some (Done (drop USMP_MAX_DATA_LEN data), b2)"
proof -
  let ?hd = "take USMP_MAX_DATA_LEN data" and ?tl = "drop USMP_MAX_DATA_LEN data"
  let ?i = "(info a)\<lparr>tx_seq := tx_seq (info a) + 1\<rparr>"
  have len: "length ?hd \<le> USMP_MAX_DATA_LEN" by simp
  have frs: "fragments data = (DATA_FRAG, ?hd) # fragments ?tl" using assms(5) by (simp add: fragments.simps [of data])
  have n: "frames_of ?tl \<le> 3" using assms(6) by (intro frames_of_le) (simp_all add: usmp_consts)
  obtain ct where ct: "seal c DATA_FRAG ?hd (info a) = Inr (ct, tx_seq (info a), ?i)"
    using seal_ok [of c "info a" ?hd DATA_FRAG] assms(1,7) len by (auto simp: sender_ok_def USMP_MAX_FRAMES_def)
  let ?w = "frame_bytes USMP_VERSION DATA_FRAG (tx_seq (info a)) ct"
  let ?a = "a\<lparr>info := ?i, transport := (transport a)\<lparr>wbuf := wbuf (transport a) @ ?w\<rparr>\<rparr>"
  have a1: "sender_ok c (info ?a)" "tcp_live (transport ?a)" "tx_seq (info ?a) + int (frames_of ?tl) \<le> 0xFFFFFFFF"
    using assms(1,2,7) n by (simp_all add: sender_ok_def USMP_MAX_FRAMES_def)
  obtain w2 where w2: "send_all c tcp_ops (fragments ?tl) ?a = (Done (), ?a\<lparr>info := (info ?a)\<lparr>tx_seq := tx_seq (info ?a) + int (frames_of ?tl)\<rparr>,
      transport := (transport ?a)\<lparr>wbuf := wbuf (transport ?a) @ w2\<rparr>\<rparr>)" "delivers c clk ?i w2 ?tl"
    using tcp_send_all_delivers [OF a1, of clk] by auto
  have sent: "\<exists>a'. send c tcp_ops data a = (Done (), a') \<and> wbuf (transport a') = wbuf (transport a) @ ?w @ w2"
    using assms(5,6) send_loop_fragments [of 0 data c tcp_ops a] tcp_send_locked [OF assms(1) ct len assms(2)] w2(1)
    by (auto simp: send_def frs)
  let ?b = "(with_input ?w b)\<lparr>ticks := Suc (ticks b)\<rparr>"
  let ?b1 = "?b\<lparr>transport := (transport ?b)\<lparr>rbuf := []\<rparr>, ticks := Suc (ticks ?b), last_recv := clk (ticks ?b),
         info := (info b)\<lparr>rx_seq := rx_seq (info b) + 1\<rparr>\<rparr>"
  have p: "paired (info a) (info ?b)" using assms(3) by simp
  have "recv_loop (Suc (Suc 0)) c tcp_ops clk (initial_locals (clk (ticks b))) ?b = Some (Waiting, ?b1)"
    using tcp_recv_loop_frag [OF assms(1) ct len p, of "[]" "initial_locals (clk (ticks b))" "Suc 0" clk] assms(4)
    by (simp add: tcp_recv_waiting initial_locals_def USMP_MAX_FRAMES_def del: recv_loop.simps)
  then have r1: "recv 2 c tcp_ops clk (Some t) (with_input ?w b) = Some (Raise USMPTimeoutError, ?b1)"
    by (simp add: recv_def recv_internal_eq numeral_2_eq_2 del: recv_loop.simps)
  have "paired ?i (info ?b1)" using assms(3) by (simp add: paired_def)
  moreover have "frames_of ?tl \<le> USMP_MAX_FRAMES" "frames_of ?tl \<le> 4" using n by (simp_all add: USMP_MAX_FRAMES_def)
  ultimately obtain b2 where "recv 4 c tcp_ops clk (Some t) (with_input (w2 @ []) ?b1) = Some (Done ?tl, b2)"
    using delivers_recv [OF w2(2)] by blast
  then have "recv 4 c tcp_ops clk (Some t) (with_input w2 ?b1) = Some (Done ?tl, b2)" by (simp only: append_Nil2)
  with sent r1 show ?thesis by blast
qed

theorem timed_out_recv_loses_fragments_witness:
  "\<exists>w1 w2 b1 b2. recv 2 toy_crypto tcp_ops (\<lambda>n. 0) (Some 1) (with_input w1 toy_b) = Some (Raise USMPTimeoutError, b1) \<and>
     recv 4 toy_crypto tcp_ops (\<lambda>n. 0) (Some 1) (with_input w2 b1) = Some (Done (replicate 48 3), b2)"
  using timed_out_recv_loses_fragments [OF toy_ends(1-3,6), of "replicate 500 3" "\<lambda>n. 0" 1] toy_ends(5)
  by (auto simp: usmp_consts)

text \<open>
  What \<open>send\<close> refuses: a message longer than four frames raises \<open>PayloadError\<close> and a
  session whose sequence numbers are used up raises \<open>SequenceError\<close>, over any transport,
  before anything is sealed or written.
\<close>

lemma send_refusals:
  "(length data > USMP_MAX_DATA_LEN * USMP_MAX_FRAMES \<longrightarrow> send c T data s = (Raise PayloadError, s)) \<and>
   (length data \<le> USMP_MAX_DATA_LEN * USMP_MAX_FRAMES \<longrightarrow> 0xFFFFFFFF \<le> tx_seq (info s) \<longrightarrow>
      send c T data s = (Raise SequenceError, s))"
proof -
  have "send_encrypted_locked c T ty pt s = (Raise SequenceError, s)" if "0xFFFFFFFF \<le> tx_seq (info s)" "ty \<noteq> BYE" for ty pt
    using that by (simp add: send_encrypted_locked_def seal_def)
  then show ?thesis by (auto simp: send_def send_loop.simps [of c T data 0 s] Let_def)
qed

subsection \<open>A transport with one frame to read\<close>

definition toy_one :: "bool \<Rightarrow> usmp_frame \<Rightarrow> unit transport_ops" where
  "toy_one rel f =
     \<lparr>is_reliable = rel, t_read_frame = (\<lambda>vc t. (Done f, t)), t_write_frame = (\<lambda>ty p q t. (Done (), t)),
      t_set_session_keys = (\<lambda>a b t. t), t_confirm_authenticated = (\<lambda>q t. t), t_peername = (\<lambda>t. PeerNone),
      t_close = (\<lambda>t. t)\<rparr>"

definition toy_receiver :: "unit session" where
  "toy_receiver = USMPSession () (info toy_b) None (\<lambda>n. 0)"

lemma toy_one_receives:
  "\<exists>ct s1. receive_frame toy_crypto (toy_one rel (mk_frame DATA ct 0)) (\<lambda>n. 0) toy_receiver =
     (Done (Some (mk_frame DATA ct 0, [1])), s1) \<and> info s1 = info toy_receiver"
proof -
  obtain ct where ct: "seal toy_crypto DATA [1] toy_info = Inr (ct, 0, toy_info\<lparr>tx_seq := 1\<rparr>)"
    using seal_ok [OF toy_crypto_laws(4), of toy_info "[1]" DATA] by (auto simp: toy_info_def usmp_consts)
  have ok: "sender_ok toy_crypto toy_info" using toy_crypto_laws by (simp add: sender_ok_def toy_info_def)
  have d: "decrypt toy_crypto (tx_key toy_info) (nonce_of toy_info 0) 0 (packet_type_value DATA) USMP_VERSION USMP_MAGIC
      (int (length ct)) ct (cipher_suite toy_info) = Inr [1]"
    using sealed_frame [OF ok ct] by (simp add: usmp_consts)
  have "pack_I 0 = Inr (le_bytes 4 0)" by (simp add: I.pack_in_range)
  then show ?thesis
    using d
    by (intro exI [of _ ct]) (simp add: receive_frame_def coro_catch_def coro_bind_def on_transport_def coro_lift_def
        monotonic_def Let_def toy_one_def toy_receiver_def USMPSession_def toy_b_def nonce_of_def toy_info_def replayed_def)
qed

theorem udp_session_replay_safe_witness:
  "\<exists>ct s1 s2. receive_frame toy_crypto (toy_one False (mk_frame DATA ct 0)) (\<lambda>n. 0) toy_receiver =
      (Done (Some (mk_frame DATA ct 0, [1])), s1) \<and>
     accept_seq (toy_one False (mk_frame DATA ct 0)) 0 s1 = (Done (), s2) \<and> window_stands_for (info s2) {0}"
proof -
  obtain ct s1 where r: "receive_frame toy_crypto (toy_one False (mk_frame DATA ct 0)) (\<lambda>n. 0) toy_receiver =
      (Done (Some (mk_frame DATA ct 0, [1])), s1)"
    using toy_one_receives by blast
  let ?T = "toy_one False (mk_frame DATA ct 0)"
  have u: "\<not> is_reliable ?T" by (simp add: toy_one_def)
  have w: "window_stands_for (info toy_receiver) {}"
    by (rule window_stands_for_fresh) (simp_all add: toy_receiver_def USMPSession_def toy_b_def toy_info_def)
  obtain s2 where a: "accept_seq ?T 0 s1 = (Done (), s2)" using u by (simp add: accept_seq_def)
  show ?thesis using udp_session_replay_safe [OF u w r] r a by auto
qed

end
