(* ===== verification/Udp_Session.thy ===== *)
theory Udp_Session
  imports Reassembly
begin

text \<open>
  A message over UDP, from \<open>send\<close> at one end to \<open>recv\<close> at the other, across a network
  that loses frames and UTACKs: the retransmission loop of \<open>drain\<close>, the intake and the
  UTACKs of the peer's \<open>feed_packet\<close> and the replay window of its \<open>recv\<close> together.
\<close>

subsection \<open>The network\<close>

text \<open>
  What becomes of one frame: the attempts that fail, each with how long the sender waited and
  whether the frame itself arrived (its UTACK is then what was lost), and the round-trip time
  of the attempt that succeeds.
\<close>

type_synonym fate = "(seconds \<times> bool) list \<times> seconds"

definition fate_ok :: "fate \<Rightarrow> bool" where
  "fate_ok f \<longleftrightarrow> length (fst f) < 5 \<and> snd f \<le> 1 / 20"

text \<open>Which of the datagrams that a sender puts on the wire arrive.\<close>

definition arrivals :: "fate list \<Rightarrow> bool list" where
  "arrivals fates = concat (map (\<lambda>f. map snd (fst f) @ [True]) fates)"

definition carried :: "bool list \<Rightarrow> bytes list \<Rightarrow> bytes list" where
  "carried flags ds = map snd (filter fst (zip flags ds))"

lemma carried_append:
  "length flags = length ds \<Longrightarrow> carried (flags @ flags') (ds @ ds') = carried flags ds @ carried flags' ds'"
  by (simp add: carried_def)

lemma carried_replicate: "carried flags (replicate (length flags) d) = replicate (length (filter id flags)) d"
  by (induction flags) (simp_all add: carried_def)

lemma carried_fate:
  "carried (arrivals (f # fates)) (replicate (Suc (length (fst f))) d @ ds) =
    replicate (Suc (length (filter snd (fst f)))) d @ carried (arrivals fates) ds"
proof -
  have "carried (map snd (fst f) @ [True]) (replicate (Suc (length (fst f))) d) =
      replicate (Suc (length (filter snd (fst f)))) d"
    using carried_replicate [of "map snd (fst f) @ [True]" d] by (simp add: filter_map comp_def)
  then show ?thesis
    using carried_append [of "map snd (fst f) @ [True]" "replicate (Suc (length (fst f))) d"]
    by (simp add: arrivals_def del: replicate.simps)
qed

text \<open>The UTACK for a session frame, under the key the receiver reads with.\<close>

definition session_utack :: "bytes \<Rightarrow> packet_type \<Rightarrow> int \<Rightarrow> bytes" where
  "session_utack key ty q =
     (let header = UTACK_MAGIC @ [word_of_int (packet_type_value ty)] @ le_bytes 4 q in header @ utack_mac key header)"

text \<open>
  An exchange of the retransmission loop: the attempts that time out, then a wait in which the
  event loop delivers the datagrams \<open>ds\<close>.
\<close>

definition wait_for_answer :: "seconds list \<Rightarrow> seconds \<Rightarrow> bytes list \<Rightarrow> (seconds \<times> bytes list) list" where
  "wait_for_answer ws d ds = map (\<lambda>w. (w, [])) ws @ [(d, ds)]"

text \<open>What the sender's waits are answered with, when frame \<open>n\<close> has the sequence number \<open>q + n\<close>.\<close>

fun answers :: "bytes \<Rightarrow> int \<Rightarrow> (packet_type \<times> bytes) list \<Rightarrow> fate list \<Rightarrow> (seconds \<times> bytes list) list" where
  "answers key q ((ty, pt) # frs) (f # fates) =
     wait_for_answer (map fst (fst f)) (snd f) [session_utack key ty q] @ answers key (q + 1) frs fates"
| "answers key q _ _ = []"

subsection \<open>The sender\<close>

lemma session_utack_accepted:
  assumes "\<not> u_closed st" "u_tx_key st = Some key" "pending_send_type st = Some (packet_type_value ty)"
    and "pending_send_seq st = Some q" "ty \<in> {DATA, DATA_FRAG}" "0 \<le> q" "q < 2 ^ 32"
  shows "feed_packet (session_utack key ty q) st = (Done (), st\<lparr>ack_received := True\<rparr>)"
proof -
  let ?peer = "(UDPStream ([], 0) True)\<lparr>u_rx_key := Some key\<rparr>"
  have "build_utack (packet_type_value ty) q ?peer = Inr (session_utack key ty q)"
    using assms(5-7) by (auto simp: build_utack_def bytes_of_def I.pack_in_range session_utack_def Let_def)
  from utack_roundtrip [OF this _ assms(2-4,1)] show ?thesis by simp
qed

lemma update_rtt_fields [simp]:
  "sent (update_rtt x st) = sent st" "net (update_rtt x st) = net st" "u_closed (update_rtt x st) = u_closed st"
  "u_tx_key (update_rtt x st) = u_tx_key st" "u_rx_key (update_rtt x st) = u_rx_key st"
  "read_buffer (update_rtt x st) = read_buffer st" "last_rx_seq (update_rtt x st) = last_rx_seq st"
  by (simp_all add: update_rtt_def Let_def)

lemma sendto_more_fields [simp]: "u_rx_key (sendto d st) = u_rx_key st"
  by (simp add: sendto_def)

lemma deliver_Cons: "deliver (d # ds) st = deliver ds (snd (feed_packet d st))"
  by (simp add: deliver_def)

lemma feed_packet_ack: "ack_received st \<Longrightarrow> ack_received (snd (feed_packet d st))"
  by (auto simp: feed_packet_def feed_frame_eq feed_utack_eq UTACK_HEADER_LEN_def)

lemma deliver_ack: "ack_received st \<Longrightarrow> ack_received (deliver ds st)"
  by (induction ds arbitrary: st) (simp_all add: deliver_Cons feed_packet_ack, simp add: deliver_def)

lemma arq_loop_answered:
  assumes "\<And>s n. feed_packet u (st\<lparr>sent := s, net := n\<rparr>) = (Done (), st\<lparr>sent := s, net := n, ack_received := True\<rparr>)"
    and "\<not> ack_received st" "net st = wait_for_answer ws d (u # ds) @ rest" "length ws < left" "d \<le> 1 / 20"
  shows "arq_loop left a base data st =
    (Done (), (if a = 0 \<and> ws = [] then update_rtt d else id)
       (deliver ds (st\<lparr>sent := sent st @ replicate (Suc (length ws)) data, net := rest, ack_received := True\<rparr>)))"
  using assms
proof (induction ws arbitrary: left a st)
  case Nil
  then obtain k where left: "left = Suc k" by (cases left) auto
  have t: "d \<le> arq_timeout base a" using arq_timeouts_bounded [of base a] Nil.prems(5) by simp
  have "(sendto data st)\<lparr>net := rest\<rparr> = st\<lparr>sent := sent st @ [data], net := rest\<rparr>" by (simp add: sendto_def)
  then have "await_network (sendto data st) =
      (Some d, deliver ds (st\<lparr>sent := sent st @ [data], net := rest, ack_received := True\<rparr>))"
    using Nil.prems(1,3) by (simp add: await_network_def wait_for_answer_def deliver_Cons)
  then show ?case using Nil.prems(2) t by (simp add: left deliver_ack)
next
  case (Cons w ws)
  then obtain k where left: "left = Suc k" by (cases left) auto
  let ?st = "st\<lparr>sent := sent st @ [data], net := wait_for_answer ws d (u # ds) @ rest\<rparr>"
  have w: "await_network (sendto data st) = (Some w, ?st)"
    using Cons.prems(3) by (simp add: await_network_def wait_for_answer_def deliver_def sendto_def)
  have "arq_loop k (Suc a) base data ?st =
      (Done (), (if Suc a = 0 \<and> ws = [] then update_rtt d else id)
         (deliver ds (?st\<lparr>sent := sent ?st @ replicate (Suc (length ws)) data, net := rest, ack_received := True\<rparr>)))"
    using Cons.prems left by (intro Cons.IH) simp_all
  then show ?case using w Cons.prems(2) by (simp add: left)
qed

text \<open>The fields of the stream that sending leaves alone.\<close>

definition same_reader :: "udp_stream \<Rightarrow> udp_stream \<Rightarrow> bool" where
  "same_reader st st' \<longleftrightarrow>
     u_closed st' = u_closed st \<and> u_tx_key st' = u_tx_key st \<and> u_rx_key st' = u_rx_key st \<and>
     read_buffer st' = read_buffer st \<and> last_rx_seq st' = last_rx_seq st"

lemma udp_ops_simps [simp]:
  "t_read_frame udp_ops = udp_read_frame" "t_write_frame udp_ops = udp_write_frame"
  "t_set_session_keys udp_ops = udp_set_session_keys" "t_confirm_authenticated udp_ops = udp_confirm_authenticated"
  "\<not> is_reliable udp_ops"
  by (simp_all add: udp_ops_def)

text \<open>A frame written in such an exchange.\<close>

lemma udp_write_frame_answered:
  assumes "\<not> u_closed st" "length p \<le> USMP_MAX_PAYLOAD" "0 \<le> q" "q < 2 ^ 32"
    and "net st = wait_for_answer ws d (u # ds) @ rest" "length ws < 5" "d \<le> 1 / 20"
    and "\<And>st'. \<not> u_closed st' \<Longrightarrow> u_tx_key st' = u_tx_key st \<Longrightarrow> pending_send_type st' = Some (packet_type_value ty) \<Longrightarrow>
      pending_send_seq st' = Some q \<Longrightarrow> feed_packet u st' = (Done (), st'\<lparr>ack_received := True\<rparr>)"
  shows "udp_write_frame ty p q st =
    (Done (), (if ws = [] then update_rtt d else id)
       (deliver ds (st\<lparr>pending_send_type := Some (packet_type_value ty), pending_send_seq := Some q,
          pending_send_data := None, sent := sent st @ replicate (Suc (length ws)) (frame_bytes USMP_VERSION ty q p),
          net := rest, ack_received := True\<rparr>)))"
proof -
  let ?st = "st\<lparr>pending_send_type := Some (packet_type_value ty), pending_send_seq := Some q, pending_send_data := None,
    ack_received := False\<rparr>"
  have "feed_packet u (?st\<lparr>sent := s, net := n\<rparr>) = (Done (), ?st\<lparr>sent := s, net := n, ack_received := True\<rparr>)" for s n
    using assms(1,8) by simp
  from arq_loop_answered [OF this, where ws = ws and d = d and ds = ds and rest = rest and left = 5 and a = 0]
  show ?thesis using udp_write_frame_eq [OF assms(1-4), of ty] assms(5-7) by simp
qed

lemma udp_write_frame_fate:
  assumes "\<not> u_closed st" "u_tx_key st = Some key" "ty \<in> {DATA, DATA_FRAG}" "0 \<le> q" "q < 2 ^ 32"
    and "length ct \<le> USMP_MAX_PAYLOAD" "fate_ok f"
    and "net st = wait_for_answer (map fst (fst f)) (snd f) [session_utack key ty q] @ rest"
  shows "\<exists>st'. udp_write_frame ty ct q st = (Done (), st') \<and>
    sent st' = sent st @ replicate (Suc (length (fst f))) (frame_bytes USMP_VERSION ty q ct) \<and> net st' = rest \<and>
    same_reader st st'"
  using udp_write_frame_answered [OF assms(1,6,4,5,8), of ty] assms(2,3,5,7) session_utack_accepted [of _ key ty q] assms(4)
  by (auto simp: same_reader_def fate_ok_def deliver_def)

subsection \<open>The receiver\<close>

text \<open>Everything the sender \<open>i\<close> seals from now on is new to the receiver \<open>j\<close>.\<close>

definition in_step :: "session_info \<Rightarrow> session_info \<Rightarrow> bool" where
  "in_step i j \<longleftrightarrow>
     rx_key j = tx_key i \<and> session_id j = session_id i \<and> cipher_suite j = cipher_suite i \<and>
     (rx_seq j < tx_seq i \<or> (tx_seq i = 0 \<and> rx_seq j = 0 \<and> rx_window_bitmap j = 0))"

text \<open>A frame of the session that the receiver has seen already.\<close>

definition spent :: "session_info \<Rightarrow> bytes \<Rightarrow> bool" where
  "spent j d \<longleftrightarrow>
     (\<exists>ty q ct. d = frame_bytes USMP_VERSION ty q ct \<and> length ct \<le> USMP_MAX_PAYLOAD \<and> 0 \<le> q \<and> q < 2 ^ 32 \<and>
        replayed q j)"

lemma in_step_accept:
  assumes "in_step i j" "tx_seq i = q" "0 \<le> q"
  shows "\<not> replayed q j" "in_step (i\<lparr>tx_seq := q + 1\<rparr>) (window_update q j)" "replayed q (window_update q j)"
proof -
  show n: "\<not> replayed q j" using assms by (auto simp: in_step_def replayed_def)
  have m: "max (rx_seq j) q = q" using assms by (auto simp: in_step_def)
  show "in_step (i\<lparr>tx_seq := q + 1\<rparr>) (window_update q j)" using assms m by (auto simp: in_step_def)
  have "bit (rx_window_bitmap (window_update q j)) 0"
    using assms by (auto simp: in_step_def window_update_bits window_update_old_bits)
  then show "replayed q (window_update q j)" using m by (simp add: replayed_iff)
qed

lemma udp_read_frame_frame:
  assumes "length p \<le> USMP_MAX_PAYLOAD" "0 \<le> s" "s < 2 ^ 32" "read_buffer t = frame_bytes USMP_VERSION ty s p @ rest"
  shows "udp_read_frame vc t = (Done (mk_frame ty p s), t\<lparr>read_buffer := rest\<rparr>)"
proof -
  have "udp_advance (12 + length p) t = t\<lparr>read_buffer := rest\<rparr>"
    using assms(4) by (simp add: udp_advance_def USMP_HEADER_SIZE_def)
  then show ?thesis using udp_reader.read_frame_frame [OF assms, of vc] by (simp add: udp_read_frame_def)
qed

text \<open>A copy of a frame that was read before: dropped, and nothing else changes.\<close>

lemma udp_recv_turn_spent:
  assumes "spent (info s) d" "read_buffer (transport s) = d @ rest"
  shows "recv_turn c udp_ops clk l s = (Done (Continue l), s\<lparr>transport := (transport s)\<lparr>read_buffer := rest\<rparr>\<rparr>)"
proof -
  obtain ty q ct where d: "d = frame_bytes USMP_VERSION ty q ct" "length ct \<le> USMP_MAX_PAYLOAD" "0 \<le> q" "q < 2 ^ 32"
      "replayed q (info s)" using assms(1) by (auto simp: spent_def)
  have "udp_read_frame True (transport s) = (Done (mk_frame ty ct q), (transport s)\<lparr>read_buffer := rest\<rparr>)"
    using d assms(2) by (intro udp_read_frame_frame) simp_all
  then show ?thesis
    using d(5) by (simp add: recv_turn_def receive_frame_def coro_catch_def coro_bind_def on_transport_def coro_return_def)
qed

lemma udp_recv_loop_spent:
  assumes "\<forall>d\<in>set ds. spent (info s) d" "read_buffer (transport s) = concat ds @ rest"
  shows "recv_loop (length ds + k) c udp_ops clk l s =
    recv_loop k c udp_ops clk l (s\<lparr>transport := (transport s)\<lparr>read_buffer := rest\<rparr>\<rparr>)"
  using assms
proof (induction ds arbitrary: s)
  case Nil
  then have "s\<lparr>transport := (transport s)\<lparr>read_buffer := rest\<rparr>\<rparr> = s" by simp
  then show ?case by simp
next
  case (Cons d ds)
  then have t: "recv_turn c udp_ops clk l s =
      (Done (Continue l), s\<lparr>transport := (transport s)\<lparr>read_buffer := concat ds @ rest\<rparr>\<rparr>)"
    by (intro udp_recv_turn_spent [of _ d]) simp_all
  show ?case using Cons.IH [of "s\<lparr>transport := (transport s)\<lparr>read_buffer := concat ds @ rest\<rparr>\<rparr>"] Cons.prems(1)
    by (simp add: t)
qed

lemma udp_recv_turn_new:
  assumes "sender_ok c i" "seal c ty pt i = Inr (ct, q, i')" "length pt \<le> USMP_MAX_DATA_LEN" "in_step i (info s)"
    and "q < 0xFFFFFFFF" "read_buffer (transport s) = frame_bytes USMP_VERSION ty q ct @ rest"
  shows "recv_turn c udp_ops clk l s =
    dispatch_frame c udp_ops clk (mk_frame ty ct q) pt l
      (s\<lparr>ticks := Suc (ticks s), last_recv := clk (ticks s), info := window_update q (info s),
         transport := udp_confirm_authenticated q ((transport s)\<lparr>read_buffer := rest\<rparr>)\<rparr>)"
proof -
  note d = sealed_frame [OF assms(1-3)]
  have r: "udp_read_frame True (transport s) = (Done (mk_frame ty ct q), (transport s)\<lparr>read_buffer := rest\<rparr>)"
    using d assms(6) by (intro udp_read_frame_frame) simp_all
  have p: "pack_I q = Inr (le_bytes 4 q)" using d by (simp add: I.pack_in_range)
  have n: "\<not> replayed q (info s)"
    using in_step_accept(1) [OF assms(4)] d seal_InrD [OF assms(2)] by simp
  have "receive_frame c udp_ops clk s = (Done (Some (mk_frame ty ct q, pt)),
      s\<lparr>transport := (transport s)\<lparr>read_buffer := rest\<rparr>, ticks := Suc (ticks s), last_recv := clk (ticks s)\<rparr>)"
    using d assms(4) r p n
    by (simp add: receive_frame_def coro_catch_def coro_bind_def on_transport_def coro_lift_def monotonic_def Let_def
        in_step_def nonce_of_def)
  then show ?thesis
    using assms(5) by (simp add: recv_turn_def coro_bind_def accept_seq_def)
qed

definition receiver_open :: "bytes \<Rightarrow> session_info \<Rightarrow> udp_stream session \<Rightarrow> bool" where
  "receiver_open key i s \<longleftrightarrow>
     in_step i (info s) \<and> \<not> u_closed (transport s) \<and> u_rx_key (transport s) = Some key \<and>
     last_rx_seq (transport s) < tx_seq i + 64"

lemma receiver_open_accept:
  assumes "receiver_open key i s" "tx_seq i = q" "0 \<le> q" "info s' = window_update q (info s)"
    and "transport s' = udp_confirm_authenticated q ((transport s)\<lparr>read_buffer := buf\<rparr>)"
  shows "receiver_open key (i\<lparr>tx_seq := q + 1\<rparr>) s'"
  using assms in_step_accept(2) [of i "info s" q] by (auto simp: receiver_open_def udp_confirm_authenticated_def)

text \<open>
  The receiver of the datagrams \<open>ds\<close>, some of them copies: from any state of the loop that is
  ready for a message of sender \<open>i\<close> it returns \<open>data\<close>, appended to what was assembled before,
  and leaves at most copies of frames it has read.
\<close>

definition udp_delivers :: "bytes \<Rightarrow> crypto \<Rightarrow> (nat \<Rightarrow> seconds) \<Rightarrow> session_info \<Rightarrow> bytes list \<Rightarrow> bytes \<Rightarrow> bool" where
  "udp_delivers key c clk i ds data \<longleftrightarrow>
     (\<forall>l s rest fuel. receiver_open key i s \<longrightarrow> read_buffer (transport s) = concat ds @ rest \<longrightarrow> length ds \<le> fuel \<longrightarrow>
        (frame_count l = 0 \<or> expected_frag_seq l = tx_seq i) \<longrightarrow> frame_count l + frames_of data \<le> USMP_MAX_FRAMES \<longrightarrow>
        (\<exists>s' copies. recv_loop fuel c udp_ops clk l s = Some (Done (assembled_payload l @ data), s') \<and>
           read_buffer (transport s') = concat copies @ rest \<and>
           length copies < length ds \<and> (\<forall>d\<in>set copies. spent (info s') d) \<and>
           receiver_open key (i\<lparr>tx_seq := tx_seq i + int (frames_of data)\<rparr>) s'))"

lemma confirm_fields [simp]:
  "read_buffer (udp_confirm_authenticated q t) = read_buffer t" "u_closed (udp_confirm_authenticated q t) = u_closed t"
  by (simp_all add: udp_confirm_authenticated_def)

lemma udp_delivers_data:
  assumes "sender_ok c i" "seal c DATA data i = Inr (ct, q, i')" "length data \<le> USMP_MAX_DATA_LEN"
  shows "udp_delivers key c clk i (replicate (Suc n) (frame_bytes USMP_VERSION DATA q ct)) data"
  unfolding udp_delivers_def
proof (intro allI impI)
  fix l :: recv_locals and s :: "udp_stream session" and rest fuel
  let ?d = "frame_bytes USMP_VERSION DATA q ct"
  assume *: "receiver_open key i s" "read_buffer (transport s) = concat (replicate (Suc n) ?d) @ rest"
    "length (replicate (Suc n) ?d) \<le> fuel" "frame_count l = 0 \<or> expected_frag_seq l = tx_seq i"
  obtain k where k: "fuel = Suc k" using *(3) by (cases fuel) auto
  have q: "q = tx_seq i" "q < 0xFFFFFFFF" using seal_InrD [OF assms(2)] by auto
  have d: "length ct \<le> USMP_MAX_PAYLOAD" "0 \<le> q" "q < 2 ^ 32" using sealed_frame [OF assms] by auto
  have st: "in_step i (info s)" using *(1) by (simp add: receiver_open_def)
  have b: "read_buffer (transport s) = ?d @ concat (replicate n ?d) @ rest" using *(2) by simp
  let ?s = "s\<lparr>ticks := Suc (ticks s), last_recv := clk (ticks s), info := window_update q (info s),
    transport := udp_confirm_authenticated q ((transport s)\<lparr>read_buffer := concat (replicate n ?d) @ rest\<rparr>)\<rparr>"
  have "recv_loop fuel c udp_ops clk l s = Some (Done (assembled_payload l @ data), ?s)"
    using udp_recv_turn_new [OF assms st q(2) b, of clk l] *(4) q(1)
    by (auto simp: k dispatch_frame_def coro_catch_def coro_lift_def handle_data_def Let_def)
  then show "\<exists>s' copies. recv_loop fuel c udp_ops clk l s = Some (Done (assembled_payload l @ data), s') \<and>
      read_buffer (transport s') = concat copies @ rest \<and>
      length copies < length (replicate (Suc n) ?d) \<and> (\<forall>d\<in>set copies. spent (info s') d) \<and>
      receiver_open key (i\<lparr>tx_seq := tx_seq i + int (frames_of data)\<rparr>) s'"
    using receiver_open_accept [OF *(1) q(1) [symmetric] d(2), of ?s] in_step_accept(3) [OF st q(1) [symmetric] d(2)]
      d assms(3) q(1)
    by (intro exI [of _ ?s] exI [of _ "replicate n ?d"]) (auto simp: frames_of_simps spent_def)
qed

lemma udp_delivers_frag:
  assumes ok: "sender_ok c i" and ct: "seal c DATA_FRAG (take USMP_MAX_DATA_LEN data) i = Inr (ct, q, i')"
    and long: "\<not> length data \<le> USMP_MAX_DATA_LEN" and rest: "udp_delivers key c clk i' ds (drop USMP_MAX_DATA_LEN data)"
  shows "udp_delivers key c clk i (replicate (Suc n) (frame_bytes USMP_VERSION DATA_FRAG q ct) @ ds) data"
  unfolding udp_delivers_def
proof (intro allI impI)
  fix l :: recv_locals and s :: "udp_stream session" and tl fuel
  let ?d = "frame_bytes USMP_VERSION DATA_FRAG q ct" and ?rest = "drop USMP_MAX_DATA_LEN data"
  assume *: "receiver_open key i s" "read_buffer (transport s) = concat (replicate (Suc n) ?d @ ds) @ tl"
    "length (replicate (Suc n) ?d @ ds) \<le> fuel" "frame_count l = 0 \<or> expected_frag_seq l = tx_seq i"
    "frame_count l + frames_of data \<le> USMP_MAX_FRAMES"
  have m: "frames_of data = Suc (frames_of ?rest)" using long by (rule frames_of_simps)
  obtain k where k: "fuel = Suc (n + k)" "length ds \<le> k"
    using *(3) le_Suc_ex [of "Suc n + length ds" fuel] by (auto simp: add.assoc)
  have hd: "length (take USMP_MAX_DATA_LEN data) \<le> USMP_MAX_DATA_LEN" by simp
  have q: "q = tx_seq i" "q < 0xFFFFFFFF" "i' = i\<lparr>tx_seq := q + 1\<rparr>" using seal_InrD [OF ct] by auto
  have d: "length ct \<le> USMP_MAX_PAYLOAD" "0 \<le> q" "q < 2 ^ 32" using sealed_frame [OF ok ct hd] by auto
  have st: "in_step i (info s)" using *(1) by (simp add: receiver_open_def)
  have b: "read_buffer (transport s) = ?d @ concat (replicate n ?d) @ concat ds @ tl" using *(2) by simp
  have c: "frame_count l + 1 < USMP_MAX_FRAMES" using *(5) m frames_of_pos [of ?rest] by simp
  have e: "frame_count l = 0 \<or> expected_frag_seq l = q" using *(4) q(1) by simp
  let ?l = "l\<lparr>expected_frag_seq := q + 1, assembled_payload := assembled_payload l @ take USMP_MAX_DATA_LEN data,
    frame_count := frame_count l + 1\<rparr>"
  let ?s = "s\<lparr>ticks := Suc (ticks s), last_recv := clk (ticks s), info := window_update q (info s),
    transport := udp_confirm_authenticated q ((transport s)\<lparr>read_buffer := concat (replicate n ?d) @ concat ds @ tl\<rparr>)\<rparr>"
  let ?s2 = "?s\<lparr>transport := (transport ?s)\<lparr>read_buffer := concat ds @ tl\<rparr>\<rparr>"
  have "recv_loop fuel c udp_ops clk l s = recv_loop (n + k) c udp_ops clk ?l ?s"
    using udp_recv_turn_new [OF ok ct hd st q(2) b, of clk l] e c
    by (auto simp: k(1) dispatch_frame_def coro_catch_def coro_lift_def handle_data_def Let_def)
  also have "\<dots> = recv_loop k c udp_ops clk ?l ?s2"
  proof -
    have "\<forall>d\<in>set (replicate n ?d). spent (info ?s) d" using in_step_accept(3) [OF st q(1) [symmetric] d(2)] d by (auto simp: spent_def)
    from udp_recv_loop_spent [OF this, of "concat ds @ tl" k c clk ?l] show ?thesis by simp
  qed
  finally have step: "recv_loop fuel c udp_ops clk l s = recv_loop k c udp_ops clk ?l ?s2" .
  have "receiver_open key (i\<lparr>tx_seq := q + 1\<rparr>) ?s"
    using *(1) q(1) [symmetric] d(2) by (rule receiver_open_accept) simp_all
  then have "receiver_open key i' ?s2" using q(3) by (simp add: receiver_open_def)
  then obtain s' copies where "recv_loop k c udp_ops clk ?l ?s2 = Some (Done (assembled_payload ?l @ ?rest), s')"
      "read_buffer (transport s') = concat copies @ tl"
      "length copies < length ds" "\<forall>d\<in>set copies. spent (info s') d"
      "receiver_open key (i'\<lparr>tx_seq := tx_seq i' + int (frames_of ?rest)\<rparr>) s'"
    using rest [unfolded udp_delivers_def, rule_format, of ?s2 tl k ?l] k(2) q(3) *(5) m by auto
  then show "\<exists>s' copies. recv_loop fuel c udp_ops clk l s = Some (Done (assembled_payload l @ data), s') \<and>
      read_buffer (transport s') = concat copies @ tl \<and>
      length copies < length (replicate (Suc n) ?d @ ds) \<and> (\<forall>d\<in>set copies. spent (info s') d) \<and>
      receiver_open key (i\<lparr>tx_seq := tx_seq i + int (frames_of data)\<rparr>) s'"
    using step m q by (intro exI [of _ s'] exI [of _ copies]) (simp add: add.assoc)
qed

subsection \<open>Intake\<close>

text \<open>A session datagram the intake accepts from a sender whose next sequence number is \<open>q\<close>.\<close>

definition session_datagram :: "int \<Rightarrow> bytes \<Rightarrow> bool" where
  "session_datagram q d \<longleftrightarrow> datagram_ok d \<and> 5 \<le> dg_type d \<and> dg_type d \<noteq> 0x0A \<and> q \<le> dg_seq d"

definition answer_to :: "bytes \<Rightarrow> bytes \<Rightarrow> bytes" where
  "answer_to key d = (let header = UTACK_MAGIC @ [word_of_int (dg_type d)] @ le_bytes 4 (dg_seq d) in header @ utack_mac key header)"

lemma session_frame:
  assumes "ty \<in> {DATA, DATA_FRAG}" "length ct \<le> USMP_MAX_PAYLOAD" "0 \<le> q" "q < 2 ^ 32"
  shows "session_datagram q (frame_bytes USMP_VERSION ty q ct)"
    "answer_to key (frame_bytes USMP_VERSION ty q ct) = session_utack key ty q"
  using assms
  by (auto simp: session_datagram_def datagram_ok_frame_bytes dg_frame_bytes answer_to_def session_utack_def usmp_consts)

lemma feed_session_datagram:
  assumes "session_datagram q d" "\<not> u_closed st" "u_rx_key st = Some key" "last_rx_seq st < q + 64"
    and "length (read_buffer st) + length d \<le> MAX_READ_BUFFER"
  shows "snd (feed_packet d st) = st\<lparr>read_buffer := read_buffer st @ d, sent := sent st @ [answer_to key d]\<rparr>"
proof -
  have "take 2 d \<noteq> UTACK_MAGIC"
    using assms(1) by (simp add: session_datagram_def datagram_ok_def UTACK_MAGIC_def USMP_MAGIC_def numeral_2_eq_2)
  then show ?thesis
    using assms
    by (simp add: feed_packet_def feed_frame_eq session_datagram_def buffered_def utack_bytes_def answer_to_def
        Let_def sendto_def)
qed

lemma deliver_session_datagrams:
  assumes "\<forall>d\<in>set ds. session_datagram q d" "\<not> u_closed st" "u_rx_key st = Some key" "last_rx_seq st < q + 64"
    and "length (read_buffer st @ concat ds) \<le> MAX_READ_BUFFER"
  shows "deliver ds st = st\<lparr>read_buffer := read_buffer st @ concat ds, sent := sent st @ map (answer_to key) ds\<rparr>"
  using assms
proof (induction ds arbitrary: st)
  case (Cons d ds)
  then have "snd (feed_packet d st) = st\<lparr>read_buffer := read_buffer st @ d, sent := sent st @ [answer_to key d]\<rparr>"
    by (intro feed_session_datagram [of q]) auto
  then show ?case using Cons by (simp add: deliver_def)
qed (simp add: deliver_def)

subsection \<open>The bytes a message is sent as\<close>

definition sender_open :: "bytes \<Rightarrow> udp_stream session \<Rightarrow> bool" where
  "sender_open key s \<longleftrightarrow> \<not> u_closed (transport s) \<and> u_tx_key (transport s) = Some key"

lemma udp_send_locked:
  assumes "sender_ok c (info s)" "seal c ty pt (info s) = Inr (ct, q, i')" "length pt \<le> USMP_MAX_DATA_LEN"
    and "sender_open key s" "ty \<in> {DATA, DATA_FRAG}" "fate_ok f"
    and "net (transport s) = answers key q ((ty, pt) # frs) (f # fates) @ rest"
  shows "\<exists>s'. send_encrypted_locked c udp_ops ty pt s = (Done (), s') \<and> info s' = i' \<and>
    sent (transport s') = sent (transport s) @ replicate (Suc (length (fst f))) (frame_bytes USMP_VERSION ty q ct) \<and>
    net (transport s') = answers key (q + 1) frs fates @ rest \<and> same_reader (transport s) (transport s')"
proof -
  note d = sealed_frame [OF assms(1-3)]
  obtain st' where "udp_write_frame ty ct q (transport s) = (Done (), st')"
      "sent st' = sent (transport s) @ replicate (Suc (length (fst f))) (frame_bytes USMP_VERSION ty q ct)"
      "net st' = answers key (q + 1) frs fates @ rest" "same_reader (transport s) st'"
    using udp_write_frame_fate [of "transport s" key ty q ct f "answers key (q + 1) frs fates @ rest"] d assms(4-7)
    by (auto simp: sender_open_def)
  then show ?thesis
    using assms(2) by (intro exI [of _ "s\<lparr>info := i', transport := st'\<rparr>"]) (simp add: send_encrypted_locked_def on_transport_def)
qed

lemma same_reader_trans: "same_reader a b \<Longrightarrow> same_reader b d \<Longrightarrow> same_reader a d"
  by (simp add: same_reader_def)

lemma sender_open_same: "sender_open key s \<Longrightarrow> same_reader (transport s) (transport s') \<Longrightarrow> sender_open key s'"
  by (simp add: sender_open_def same_reader_def)

lemma answers_in:
  assumes "u \<in> set (concat (map snd (answers key q ((ty, pt) # frs) (f # fates))))"
  shows "u = session_utack key ty q \<or> u \<in> set (concat (map snd (answers key (q + 1) frs fates)))"
  using assms by (auto simp: wait_for_answer_def)

text \<open>
  The transfer of \<open>data\<close> from state \<open>s\<close>: all its frames are acknowledged, what arrives at the
  peer delivers \<open>data\<close> there, and every UTACK of the script answers a datagram that arrived.
\<close>

definition udp_transfer ::
  "crypto \<Rightarrow> (nat \<Rightarrow> seconds) \<Rightarrow> bytes \<Rightarrow> udp_stream session \<Rightarrow> bytes \<Rightarrow> fate list \<Rightarrow> (seconds \<times> bytes list) list \<Rightarrow> bool"
where
  "udp_transfer c clk key s data fates rest \<longleftrightarrow>
     (\<exists>s' ds. send_all c udp_ops (fragments data) s = (Done (), s') \<and>
        info s' = (info s)\<lparr>tx_seq := tx_seq (info s) + int (frames_of data)\<rparr> \<and>
        sent (transport s') = sent (transport s) @ ds \<and> net (transport s') = rest \<and>
        same_reader (transport s) (transport s') \<and>
        udp_delivers key c clk (info s) (carried (arrivals fates) ds) data \<and>
        (\<forall>d\<in>set (carried (arrivals fates) ds). session_datagram (tx_seq (info s)) d) \<and>
        set (concat (map snd (answers key (tx_seq (info s)) (fragments data) fates)))
          \<subseteq> answer_to key ` set (carried (arrivals fates) ds))"

lemma udp_transferI:
  assumes "send_all c udp_ops (fragments data) s = (Done (), s')"
    and "info s' = (info s)\<lparr>tx_seq := tx_seq (info s) + int (frames_of data)\<rparr>"
    and "sent (transport s') = sent (transport s) @ ds" "net (transport s') = rest"
    and "same_reader (transport s) (transport s')" "carried (arrivals fates) ds = got"
    and "udp_delivers key c clk (info s) got data" "\<forall>d\<in>set got. session_datagram (tx_seq (info s)) d"
    and "set (concat (map snd (answers key (tx_seq (info s)) (fragments data) fates))) \<subseteq> answer_to key ` set got"
  shows "udp_transfer c clk key s data fates rest"
  using assms unfolding udp_transfer_def by blast

lemma udp_transfer_data:
  assumes "sender_ok c (info s)" "sender_open key s" "tx_seq (info s) < 0xFFFFFFFF" "fate_ok f"
    and short: "length data \<le> USMP_MAX_DATA_LEN"
    and net: "net (transport s) = answers key (tx_seq (info s)) (fragments data) [f] @ rest"
  shows "udp_transfer c clk key s data [f] rest"
proof -
  let ?q = "tx_seq (info s)" and ?n = "length (fst f)" and ?m = "length (filter snd (fst f))"
  have n: "frames_of data = 1" "fragments data = [(DATA, data)]"
    using short by (simp_all add: frames_of_simps fragments.simps)
  obtain ct where ct: "seal c DATA data (info s) = Inr (ct, ?q, (info s)\<lparr>tx_seq := ?q + 1\<rparr>)"
    using seal_ok [of c "info s" data DATA] assms(1,3) short by (auto simp: sender_ok_def)
  note d = sealed_frame [OF assms(1) ct short]
  let ?d = "frame_bytes USMP_VERSION DATA ?q ct"
  have ds: "carried (arrivals [f]) (replicate (Suc ?n) ?d) = replicate (Suc ?m) ?d"
    using carried_fate [of f "[]" ?d "[]"] by (simp add: arrivals_def carried_def del: replicate.simps)
  have "net (transport s) = answers key ?q ((DATA, data) # []) (f # []) @ rest" using net n by simp
  from udp_send_locked [OF assms(1) ct short assms(2) _ assms(4) this] obtain s' where
    s': "send_encrypted_locked c udp_ops DATA data s = (Done (), s')" "info s' = (info s)\<lparr>tx_seq := ?q + 1\<rparr>"
      "sent (transport s') = sent (transport s) @ replicate (Suc ?n) ?d" "net (transport s') = rest"
      "same_reader (transport s) (transport s')" by auto
  have u: "set (concat (map snd (answers key ?q (fragments data) [f]))) \<subseteq> answer_to key ` set (replicate (Suc ?m) ?d)"
    using answers_in [of _ key ?q DATA data "[]" f "[]"] session_frame(2) [of DATA ct ?q key] d
    unfolding set_replicate_Suc by (auto simp: n simp del: answers.simps(1))
  have g: "\<forall>d\<in>set (replicate (Suc ?m) ?d). session_datagram ?q d" using session_frame(1) [of DATA ct ?q] d by auto
  have "send_all c udp_ops (fragments data) s = (Done (), s')" using s'(1) n(2) by simp
  moreover have "info s' = (info s)\<lparr>tx_seq := ?q + int (frames_of data)\<rparr>" using s'(2) n(1) by simp
  ultimately show ?thesis
    using s'(3-5) ds udp_delivers_data [OF assms(1) ct short] g u by (rule udp_transferI)
qed

lemma udp_transfer_frag:
  assumes "sender_ok c (info s)" "sender_open key s" "tx_seq (info s) < 0xFFFFFFFF" "fate_ok f"
    and long: "\<not> length data \<le> USMP_MAX_DATA_LEN"
    and net: "net (transport s) = answers key (tx_seq (info s)) (fragments data) (f # fs) @ rest"
    and rest: "\<And>s1. info s1 = (info s)\<lparr>tx_seq := tx_seq (info s) + 1\<rparr> \<Longrightarrow> sender_open key s1 \<Longrightarrow>
      net (transport s1) = answers key (tx_seq (info s1)) (fragments (drop USMP_MAX_DATA_LEN data)) fs @ rest \<Longrightarrow>
      udp_transfer c clk key s1 (drop USMP_MAX_DATA_LEN data) fs rest"
  shows "udp_transfer c clk key s data (f # fs) rest"
proof -
  let ?hd = "take USMP_MAX_DATA_LEN data" and ?tl = "drop USMP_MAX_DATA_LEN data" and ?q = "tx_seq (info s)"
  let ?n = "length (fst f)" and ?m = "length (filter snd (fst f))" and ?fs = "arrivals (f # fs)"
  have n: "frames_of data = Suc (frames_of ?tl)" "fragments data = (DATA_FRAG, ?hd) # fragments ?tl"
    using long by (simp_all add: frames_of_simps fragments.simps [of data])
  have len: "length ?hd \<le> USMP_MAX_DATA_LEN" by simp
  obtain ct where ct: "seal c DATA_FRAG ?hd (info s) = Inr (ct, ?q, (info s)\<lparr>tx_seq := ?q + 1\<rparr>)"
    using seal_ok [of c "info s" ?hd DATA_FRAG] assms(1,3) len by (auto simp: sender_ok_def)
  note d = sealed_frame [OF assms(1) ct len]
  let ?d = "frame_bytes USMP_VERSION DATA_FRAG ?q ct"
  have "net (transport s) = answers key ?q ((DATA_FRAG, ?hd) # fragments ?tl) (f # fs) @ rest" using net n by simp
  from udp_send_locked [OF assms(1) ct len assms(2) _ assms(4) this] obtain s1 where
    s1: "send_encrypted_locked c udp_ops DATA_FRAG ?hd s = (Done (), s1)" "info s1 = (info s)\<lparr>tx_seq := ?q + 1\<rparr>"
      "sent (transport s1) = sent (transport s) @ replicate (Suc ?n) ?d"
      "net (transport s1) = answers key (?q + 1) (fragments ?tl) fs @ rest" "same_reader (transport s) (transport s1)"
    by auto
  have "udp_transfer c clk key s1 ?tl fs rest"
    using s1 sender_open_same [OF assms(2) s1(5)] by (intro rest) simp_all
  then obtain s' ds where
    s': "send_all c udp_ops (fragments ?tl) s1 = (Done (), s')"
      "info s' = (info s1)\<lparr>tx_seq := tx_seq (info s1) + int (frames_of ?tl)\<rparr>"
      "sent (transport s') = sent (transport s1) @ ds" "net (transport s') = rest"
      "same_reader (transport s1) (transport s')"
    and del: "udp_delivers key c clk (info s1) (carried (arrivals fs) ds) ?tl"
    and dg: "\<forall>d\<in>set (carried (arrivals fs) ds). session_datagram (tx_seq (info s1)) d"
    and ans: "set (concat (map snd (answers key (tx_seq (info s1)) (fragments ?tl) fs)))
        \<subseteq> answer_to key ` set (carried (arrivals fs) ds)"
    unfolding udp_transfer_def by blast
  have ds: "carried ?fs (replicate (Suc ?n) ?d @ ds) = replicate (Suc ?m) ?d @ carried (arrivals fs) ds"
    by (rule carried_fate)
  have got: "set (replicate (Suc ?m) ?d @ carried (arrivals fs) ds) = insert ?d (set (carried (arrivals fs) ds))" by auto
  have u: "set (concat (map snd (answers key ?q (fragments data) (f # fs))))
      \<subseteq> answer_to key ` set (replicate (Suc ?m) ?d @ carried (arrivals fs) ds)"
  proof
    fix u
    assume "u \<in> set (concat (map snd (answers key ?q (fragments data) (f # fs))))"
    then have "u = session_utack key DATA_FRAG ?q \<or> u \<in> set (concat (map snd (answers key (?q + 1) (fragments ?tl) fs)))"
      unfolding n by (rule answers_in)
    then show "u \<in> answer_to key ` set (replicate (Suc ?m) ?d @ carried (arrivals fs) ds)"
      unfolding got using session_frame(2) [of DATA_FRAG ct ?q key] d ans s1(2) by auto
  qed
  have g: "session_datagram ?q ?d" "\<And>d. session_datagram (?q + 1) d \<Longrightarrow> session_datagram ?q d"
    using session_frame(1) [of DATA_FRAG ct ?q] d by (auto simp: session_datagram_def)
  have del': "udp_delivers key c clk (info s) (replicate (Suc ?m) ?d @ carried (arrivals fs) ds) data"
    using udp_delivers_frag [OF assms(1) ct long] del s1(2) by simp
  have dg': "\<forall>d\<in>set (replicate (Suc ?m) ?d @ carried (arrivals fs) ds). session_datagram ?q d"
    unfolding got using g dg s1(2) by auto
  have "send_all c udp_ops (fragments data) s = (Done (), s')"
      "info s' = (info s)\<lparr>tx_seq := ?q + int (frames_of data)\<rparr>"
      "sent (transport s') = sent (transport s) @ replicate (Suc ?n) ?d @ ds"
    using s1 s' n by (simp_all add: add.assoc)
  then show ?thesis
    using s'(4) same_reader_trans [OF s1(5) s'(5)] ds del' dg' u by (rule udp_transferI)
qed

lemma udp_send_all_transfer:
  assumes "sender_ok c (info s)" "sender_open key s" "tx_seq (info s) + int (frames_of data) \<le> 0xFFFFFFFF"
    and "length fates = frames_of data" "list_all fate_ok fates"
    and "net (transport s) = answers key (tx_seq (info s)) (fragments data) fates @ rest"
  shows "udp_transfer c clk key s data fates rest"
  using assms
proof (induction data arbitrary: s fates rule: fragments.induct)
  case (1 data)
  obtain f fs where f: "fates = f # fs" "fate_ok f" "list_all fate_ok fs"
    using 1(5,6) frames_of_pos [of data] by (cases fates) auto
  have q: "tx_seq (info s) < 0xFFFFFFFF" using 1(4) frames_of_pos [of data] by linarith
  show ?case
  proof (cases "length data \<le> USMP_MAX_DATA_LEN")
    case True
    then have "fs = []" using 1(5) f(1) by (simp add: frames_of_simps)
    then show ?thesis using udp_transfer_data [OF 1(2,3) q f(2) True] 1(7) f(1) by simp
  next
    case False
    then have n: "frames_of data = Suc (frames_of (drop USMP_MAX_DATA_LEN data))" by (rule frames_of_simps)
    show ?thesis
      unfolding f(1)
    proof (rule udp_transfer_frag [OF 1(2,3) q f(2) False])
      show "net (transport s) = answers key (tx_seq (info s)) (fragments data) (f # fs) @ rest" using 1(7) f(1) by simp
      fix s1 :: "udp_stream session"
      assume "info s1 = (info s)\<lparr>tx_seq := tx_seq (info s) + 1\<rparr>" "sender_open key s1"
        "net (transport s1) = answers key (tx_seq (info s1)) (fragments (drop USMP_MAX_DATA_LEN data)) fs @ rest"
      then show "udp_transfer c clk key s1 (drop USMP_MAX_DATA_LEN data) fs rest"
        using 1(1) [OF False, of s1 fs] 1(2,4,5) n f by (simp add: sender_ok_def)
    qed
  qed
qed

subsection \<open>End to end\<close>

text \<open>The sender \<open>a\<close> and the receiver \<open>b\<close> of one direction, with nothing left to read at \<open>b\<close>.\<close>

definition udp_paired :: "bytes \<Rightarrow> udp_stream session \<Rightarrow> udp_stream session \<Rightarrow> bool" where
  "udp_paired key a b \<longleftrightarrow> sender_open key a \<and> receiver_open key (info a) b \<and> read_buffer (transport b) = []"

text \<open>What is left of a message, copies of frames read before, is read and dropped.\<close>

lemma udp_recv_copies:
  assumes "\<forall>d\<in>set ds. spent (info s) d" "read_buffer (transport s) = concat ds" "length ds < fuel" "\<not> u_closed (transport s)"
  shows "\<exists>r s'. recv fuel c udp_ops clk timeout s = Some (r, s') \<and> r \<in> {Waiting, Raise USMPTimeoutError} \<and>
    info s' = info s \<and> transport s' = (transport s)\<lparr>read_buffer := []\<rparr>"
proof -
  obtain k where k: "fuel = length ds + Suc k" using assms(3) less_iff_Suc_add by auto
  let ?s = "s\<lparr>ticks := Suc (ticks s)\<rparr>" and ?s2 = "s\<lparr>ticks := Suc (ticks s), transport := (transport s)\<lparr>read_buffer := []\<rparr>\<rparr>"
  have "udp_read_frame True (transport ?s2) = (Waiting, transport ?s2)"
  proof -
    have "framed (read_buffer (transport ?s2))" by (auto simp: framed_def intro: exI [of _ "[]"])
    then show ?thesis using assms(4) by (cases rule: read_frame_framed [where vc = True]) (auto simp: datagram_ok_def)
  qed
  then have "recv_turn c udp_ops clk l ?s2 = (Waiting, ?s2)" for l
    by (simp add: recv_turn_def receive_frame_def coro_catch_def coro_bind_def on_transport_def)
  then have "recv_loop fuel c udp_ops clk l ?s = Some (Waiting, ?s2)" for l
    using udp_recv_loop_spent [of ds ?s "[]" "Suc k" c clk l] assms(1,2) by (simp add: k)
  then show ?thesis by (auto simp: recv_def recv_internal_eq Let_def)
qed

lemma udp_delivers_recv:
  assumes "udp_delivers key c clk i ds data" "receiver_open key i s" "frames_of data \<le> USMP_MAX_FRAMES"
    and "length ds \<le> fuel" "read_buffer (transport s) = concat ds"
  shows "\<exists>s' copies. recv fuel c udp_ops clk timeout s = Some (Done data, s') \<and>
    read_buffer (transport s') = concat copies \<and> length copies < length ds \<and> (\<forall>d\<in>set copies. spent (info s') d) \<and>
    receiver_open key (i\<lparr>tx_seq := tx_seq i + int (frames_of data)\<rparr>) s'"
proof -
  let ?s = "s\<lparr>ticks := Suc (ticks s)\<rparr>" and ?l = "initial_locals (clk (ticks s))"
  have "receiver_open key i ?s" "read_buffer (transport ?s) = concat ds @ []" "frame_count ?l = 0"
    using assms(2,5) by (simp_all add: receiver_open_def initial_locals_def)
  then obtain s' copies where "recv_loop fuel c udp_ops clk ?l ?s = Some (Done (assembled_payload ?l @ data), s')"
      "read_buffer (transport s') = concat copies @ []" "length copies < length ds" "\<forall>d\<in>set copies. spent (info s') d"
      "receiver_open key (i\<lparr>tx_seq := tx_seq i + int (frames_of data)\<rparr>) s'"
    using assms(1) [unfolded udp_delivers_def, rule_format, of ?s "[]" fuel ?l] assms(3,4) by auto
  then show ?thesis by (auto simp: recv_def recv_internal_eq Let_def initial_locals_def)
qed

lemma length_carried: "length (carried flags ds) \<le> length (filter id flags)"
  by (induction flags arbitrary: ds) (auto simp: carried_def zip_Cons1 split: list.splits intro: le_SucI)


text \<open>Two concrete ends, for the witness: the first frame's UTACK is lost once.\<close>

definition toy_fates :: "fate list" where
  "toy_fates = [([(1 / 2, True)], 0), ([], 0)]"

definition toy_udp_a :: "udp_stream session" where
  "toy_udp_a = USMPSession
     ((udp_set_session_keys [1] [2] (UDPStream (''a'', 1) False))
        \<lparr>net := answers [1] 0 (fragments (replicate 500 3)) toy_fates\<rparr>) toy_info None (\<lambda>n. 0)"

definition toy_udp_b :: "udp_stream session" where
  "toy_udp_b = USMPSession (udp_set_session_keys [2] [1] (UDPStream (''b'', 2) True)) (info toy_b) None (\<lambda>n. 0)"


end
