(* ===== verification/Counting.thy ===== *)
theory Counting
  imports Pydict
begin

text \<open>
  Tables that count live objects per key, as the server keeps them for TCP connections and
  for UDP handshakes (\<open>src/src/usmp/_server.py\<close>): an entry is incremented when an object
  appears, decremented when it goes, and removed when it reaches zero. The locale
  \<open>live_counter\<close> is the contract of such a table.
\<close>

type_synonym counters = "(string, int) dict"

definition dict_get_or :: "('k, 'v) dict \<Rightarrow> 'k \<Rightarrow> 'v \<Rightarrow> 'v" where
  "dict_get_or d k v = (case dict_get d k of Some x \<Rightarrow> x | None \<Rightarrow> v)"

text \<open>
  \<open>if k in d: d[k] -= 1; if d[k] <= 0: d.pop(k, None)\<close>.
\<close>

definition dict_decrement :: "counters \<Rightarrow> string \<Rightarrow> counters" where
  "dict_decrement d k =
     (case dict_get d k of
        None \<Rightarrow> d
      | Some n \<Rightarrow> if n - 1 \<le> 0 then dict_pop (dict_set d k (n - 1)) k else dict_set d k (n - 1))"

text \<open>The table holds, for every key, the number of live objects with that key.\<close>

definition count_of :: "('i \<Rightarrow> string) \<Rightarrow> 'i set \<Rightarrow> string \<Rightarrow> nat" where
  "count_of key L k = card {i \<in> L. key i = k}"

definition counts :: "counters \<Rightarrow> ('i \<Rightarrow> string) \<Rightarrow> 'i set \<Rightarrow> bool" where
  "counts d key L \<longleftrightarrow> dict_ok d \<and> finite L \<and>
     (\<forall>k. dict_get d k = (if count_of key L k = 0 then None else Some (int (count_of key L k))))"

lemma countsD:
  assumes "counts d key L"
  shows "dict_ok d" "finite L" "dict_get_or d k 0 = int (count_of key L k)"
  using assms by (auto simp: counts_def dict_get_or_def)

lemma counts_empty: "counts [] key {}"
  by (simp add: counts_def dict_ok_def dict_get_def count_of_def)

lemma counts_none: "counts d key {} \<Longrightarrow> d = []"
proof -
  assume "counts d key {}"
  then have "dict_get d k = None" for k by (simp add: counts_def count_of_def)
  then have "dom (dict_get d) = {}" by auto
  then show "d = []" by (simp add: dom_dict_get)
qed

lemma counts_cong: "counts d key L \<Longrightarrow> (\<And>i. i \<in> L \<Longrightarrow> key i = key' i) \<Longrightarrow> counts d key' L"
proof -
  assume d: "counts d key L" and k: "\<And>i. i \<in> L \<Longrightarrow> key i = key' i"
  have "{i \<in> L. key i = k} = {i \<in> L. key' i = k}" for k using k by auto
  then have "count_of key' L k = count_of key L k" for k by (simp add: count_of_def)
  with d show ?thesis by (simp add: counts_def)
qed

lemma count_of_insert:
  assumes "finite L" "i \<notin> L"
  shows "count_of key (insert i L) k = count_of key L k + (if key i = k then 1 else 0)"
proof -
  have "{j \<in> insert i L. key j = k} = (if key i = k then insert i {j \<in> L. key j = k} else {j \<in> L. key j = k})"
    by auto
  then show ?thesis using assms by (simp add: count_of_def)
qed

lemma count_of_remove:
  assumes "finite L" "i \<in> L"
  shows "count_of key L k = count_of key (L - {i}) k + (if key i = k then 1 else 0)"
  using count_of_insert [of "L - {i}" i key k] assms by (simp add: insert_absorb)

lemma counts_insert:
  assumes "counts d key L" "i \<notin> L"
  shows "counts (dict_set d (key i) (dict_get_or d (key i) 0 + 1)) key (insert i L)"
  using assms countsD(3) [OF assms(1), of "key i"]
  by (auto simp: counts_def dict_simps count_of_insert)

lemma counts_remove:
  assumes "counts d key L" "i \<in> L"
  shows "counts (dict_decrement d (key i)) key (L - {i})"
proof -
  note fin = countsD(2) [OF assms(1)]
  let ?n = "count_of key (L - {i}) (key i)"
  have c: "count_of key L k = count_of key (L - {i}) k + (if key i = k then 1 else 0)" for k
    using fin assms(2) by (rule count_of_remove)
  have "dict_get d (key i) = Some (int ?n + 1)" using assms(1) c [of "key i"] by (simp add: counts_def)
  then show ?thesis
    using assms(1) c by (auto simp: counts_def dict_decrement_def dict_simps)
qed

text \<open>The sum of the entries is the number of live objects.\<close>

lemma sum_dict_set:
  "dict_ok d \<Longrightarrow> sum_list (map snd (dict_set d k v)) = sum_list (map snd d) - dict_get_or d k 0 + (v :: int)"
proof (induction d k v rule: dict_set.induct)
  case (2 kv d k v)
  have "map_of d k = None" if "fst kv = k" using 2(2) that by (simp add: dict_ok_def map_of_eq_None_iff)
  then show ?case using 2 by (auto simp: dict_get_or_def dict_get_def dict_ok_def)
qed (simp add: dict_get_or_def dict_get_def)

lemma sum_dict_pop:
  "dict_ok d \<Longrightarrow> sum_list (map snd (dict_pop d k)) = sum_list (map snd d) - (dict_get_or d k 0 :: int)"
proof (induction d)
  case (Cons kv d)
  have "map_of d k = None" "filter (\<lambda>kv. fst kv \<noteq> k) d = d" if "fst kv = k"
    using Cons(2) that by (auto simp: dict_ok_def map_of_eq_None_iff filter_id_conv image_iff)
  then show ?case using Cons by (auto simp: dict_pop_def dict_get_or_def dict_get_def dict_ok_def)
qed (simp add: dict_get_or_def dict_get_def dict_pop_def)

lemma counts_sum: "counts d key L \<Longrightarrow> sum_list (map snd d) = int (card L)"
proof -
  assume "counts d key L"
  moreover from this have "finite L" by (rule countsD)
  ultimately show ?thesis
  proof (induction "card L" arbitrary: d L)
    case 0
    then have "L = {}" by simp
    then show ?case using 0 counts_none [of d key] by simp
  next
    case (Suc n)
    then obtain i where i: "i \<in> L" by fastforce
    have "counts (dict_decrement d (key i)) key (L - {i})" using Suc.prems(1) i by (rule counts_remove)
    moreover have "n = card (L - {i})" using Suc i by simp
    ultimately have "sum_list (map snd (dict_decrement d (key i))) = int n" using Suc by simp
    moreover obtain y where "dict_get d (key i) = Some y" "1 \<le> y"
      using Suc.prems i count_of_remove [of L i key "key i"] by (simp add: counts_def)
    ultimately have "sum_list (map snd d) - 1 = int n"
      using countsD(1) [OF Suc.prems(1)]
      by (auto simp: dict_decrement_def sum_dict_set sum_dict_pop dict_simps dict_get_or_def split: if_splits)
    then show ?case using Suc.hyps(2) by linarith
  qed
qed

subsection \<open>The contract\<close>

text \<open>
  Clients of such a table rely on this: with \<open>enter\<close> on every arrival and \<open>leave\<close> on every
  departure it stays exact, its total is the number of objects, and it is empty when they
  have all gone.
\<close>

locale live_counter =
  fixes exact :: "'d \<Rightarrow> ('i \<Rightarrow> 'k) \<Rightarrow> 'i set \<Rightarrow> bool"
    and empty_table :: 'd
    and look :: "'d \<Rightarrow> 'k \<Rightarrow> int"
    and enter :: "'d \<Rightarrow> 'k \<Rightarrow> 'd"
    and leave :: "'d \<Rightarrow> 'k \<Rightarrow> 'd"
    and total :: "'d \<Rightarrow> int"
  assumes exact_empty: "exact empty_table key {}"
    and exact_none: "exact d key {} \<Longrightarrow> d = empty_table"
    and exact_enter: "exact d key L \<Longrightarrow> i \<notin> L \<Longrightarrow> exact (enter d (key i)) key (insert i L)"
    and exact_leave: "exact d key L \<Longrightarrow> i \<in> L \<Longrightarrow> exact (leave d (key i)) key (L - {i})"
    and exact_look: "exact d key L \<Longrightarrow> look d k = int (card {i \<in> L. key i = k})"
    and exact_total: "exact d key L \<Longrightarrow> total d = int (card L)"
    and exact_finite: "exact d key L \<Longrightarrow> finite L"
begin

text \<open>Arrivals guarded by a limit on the total and one per key keep both limits.\<close>

definition within_limits :: "int \<Rightarrow> int \<Rightarrow> 'd \<Rightarrow> bool" where
  "within_limits n m d \<longleftrightarrow> total d \<le> n \<and> (\<forall>k. look d k \<le> m)"

lemma within_limits_enter:
  assumes "exact d key L" "i \<notin> L" "within_limits n m d" "total d < n" "look d (key i) < m"
  shows "within_limits n m (enter d (key i))"
proof -
  have e: "exact (enter d (key i)) key (insert i L)" using assms(1,2) by (rule exact_enter)
  have fin: "finite L" using assms(1) by (rule exact_finite)
  have "{j \<in> insert i L. key j = k} = (if key i = k then insert i {j \<in> L. key j = k} else {j \<in> L. key j = k})" for k
    by auto
  then have "look (enter d (key i)) k = look d k + (if key i = k then 1 else 0)" for k
    using assms(2) fin by (simp add: exact_look [OF e] exact_look [OF assms(1)])
  moreover have "total (enter d (key i)) = total d + 1"
    using assms(2) fin by (simp add: exact_total [OF e] exact_total [OF assms(1)])
  ultimately show ?thesis using assms(3-5) by (auto simp: within_limits_def)
qed

lemma within_limits_leave:
  assumes "exact d key L" "i \<in> L" "within_limits n m d"
  shows "within_limits n m (leave d (key i))"
proof -
  have e: "exact (leave d (key i)) key (L - {i})" using assms(1,2) by (rule exact_leave)
  have fin: "finite L" using assms(1) by (rule exact_finite)
  have "card {j \<in> L - {i}. key j = k} \<le> card {j \<in> L. key j = k}" for k
    using fin by (intro card_mono) auto
  then have "look (leave d (key i)) k \<le> look d k" for k
    by (simp add: exact_look [OF e] exact_look [OF assms(1)])
  moreover have "total (leave d (key i)) \<le> total d"
    using fin by (simp add: exact_total [OF e] exact_total [OF assms(1)] card_Diff1_le)
  ultimately show ?thesis using assms(3) unfolding within_limits_def by (meson order_trans)
qed

end

interpretation lc: live_counter counts "[]" "\<lambda>d k. dict_get_or d k 0"
  "\<lambda>d k. dict_set d k (dict_get_or d k 0 + 1)" dict_decrement "\<lambda>d. sum_list (map snd d)"
  by (unfold_locales; (rule counts_empty counts_insert counts_remove counts_sum countsD(2) countsD(3) [unfolded count_of_def] counts_none; assumption)?)

end
