(* ===== verification/Cookie_Limiter.thy ===== *)
theory Cookie_Limiter
  imports Pydict "HOL-Library.Multiset"
begin

text \<open>
  \<open>USMPServer._allow_udp_cookie\<close> of \<open>src/src/usmp/_server.py\<close>: a token bucket per source
  address in front of the issuing of UDP cookies, in a dict from the address to (tokens,
  last). The clock value is an argument.
\<close>

type_synonym buckets = "(string, seconds \<times> seconds) dict"

definition capacity :: seconds where "capacity = 10"
definition refill_per_sec :: seconds where "refill_per_sec = 5"

definition refilled :: "seconds \<Rightarrow> seconds \<times> seconds \<Rightarrow> seconds" where
  "refilled now v = (case v of (tokens, last_at) \<Rightarrow> min capacity (tokens + (now - last_at) * refill_per_sec))"

text \<open>The eviction of the oldest entries above 1000; \<open>sorted\<close> is stable, as \<open>sort_key\<close> is.\<close>

definition evict_oldest :: "buckets \<Rightarrow> buckets" where
  "evict_oldest tbl =
     (if length tbl > 1000 then
        let oldest = map fst (sort_key (\<lambda>kv. snd (snd kv)) tbl)
        in fold (\<lambda>k d. dict_pop d k) (take (length tbl - 1000) oldest) tbl
      else tbl)"

definition allow_udp_cookie :: "seconds \<Rightarrow> string \<Rightarrow> buckets \<Rightarrow> bool \<times> buckets" where
  "allow_udp_cookie now ip tbl =
     (let v = (case dict_get tbl ip of Some v \<Rightarrow> v | None \<Rightarrow> (capacity, now));
          tokens = refilled now v in
      if tokens < 1 then (False, dict_set tbl ip (tokens, now))
      else
        let tbl1 = dict_set tbl ip (tokens - 1, now) in
        if length tbl1 > 1000
        then (True, evict_oldest (dict_filter (\<lambda>k v. refilled now v < capacity) tbl1))
        else (True, tbl1))"

subsection \<open>The table\<close>

fun bucket_ok :: "seconds \<Rightarrow> string \<times> seconds \<times> seconds \<Rightarrow> bool" where
  "bucket_ok now (k, tokens, last_at) \<longleftrightarrow> 0 \<le> tokens \<and> tokens \<le> capacity - 1 \<and> last_at \<le> now"

definition buckets_inv :: "seconds \<Rightarrow> buckets \<Rightarrow> bool" where
  "buckets_inv now tbl \<longleftrightarrow> dict_ok tbl \<and> length tbl \<le> 1000 \<and> list_all (bucket_ok now) tbl"

text \<open>How many tokens an address has at a time, whether or not it has an entry.\<close>

definition level :: "buckets \<Rightarrow> string \<Rightarrow> seconds \<Rightarrow> seconds" where
  "level tbl ip now = (case dict_get tbl ip of Some v \<Rightarrow> refilled now v | None \<Rightarrow> capacity)"

lemma allow_level:
  "allow_udp_cookie now ip tbl =
     (if level tbl ip now < 1 then (False, dict_set tbl ip (level tbl ip now, now))
      else
        let tbl1 = dict_set tbl ip (level tbl ip now - 1, now) in
        (True, if length tbl1 > 1000 then evict_oldest (dict_filter (\<lambda>k v. refilled now v < capacity) tbl1) else tbl1))"
  by (auto simp: allow_udp_cookie_def level_def Let_def refilled_def split: option.splits)

lemma set_fold_pop: "set (fold (\<lambda>k d. dict_pop d k) ks d) = {kv \<in> set d. fst kv \<notin> set ks}"
  by (induction ks arbitrary: d) (auto simp: dict_pop_def)

lemma fold_pop_filter: "fold (\<lambda>k d. dict_pop d k) ks d = filter (\<lambda>kv. fst kv \<notin> set ks) d"
  by (induction ks arbitrary: d) (auto simp: dict_pop_def conj_commute intro: filter_cong)

lemma length_filter_out:
  assumes "distinct xs" "set ks \<subseteq> set xs" "distinct ks"
  shows "length (filter (\<lambda>x. x \<notin> set ks) xs) = length xs - length ks"
proof -
  have "distinct (filter (\<lambda>x. x \<notin> set ks) xs)" using assms(1) by simp
  then have "length (filter (\<lambda>x. x \<notin> set ks) xs) = card (set xs - set ks)"
    by (metis distinct_card set_diff_eq set_filter)
  then show ?thesis using assms by (simp add: card_Diff_subset distinct_card)
qed

lemma length_evict_oldest:
  assumes "dict_ok tbl"
  shows "length (evict_oldest tbl) = min 1000 (length tbl)"
proof (cases "length tbl > 1000")
  case True
  let ?sorted = "sort_key (\<lambda>kv. snd (snd kv)) tbl"
  let ?ks = "take (length tbl - 1000) (map fst ?sorted)"
  have mset: "mset (map fst ?sorted) = mset (map fst tbl)" by (simp only: mset_map mset_sort)
  then have "distinct (map fst ?sorted)" using assms unfolding dict_ok_def by (metis mset_eq_imp_distinct_iff)
  then have d: "distinct ?ks" by (rule distinct_take)
  have "set ?ks \<subseteq> set (map fst tbl)" using set_take_subset [of _ "map fst ?sorted"] by auto
  then have "length (filter (\<lambda>k. k \<notin> set ?ks) (map fst tbl)) = length (map fst tbl) - length ?ks"
    using assms d unfolding dict_ok_def by (intro length_filter_out)
  then show ?thesis
    using True by (simp add: evict_oldest_def Let_def fold_pop_filter filter_map comp_def del: take_map)
next
  case False
  then show ?thesis by (simp add: evict_oldest_def)
qed

lemma evict_oldest_subset: "set (evict_oldest tbl) \<subseteq> set tbl"
  by (auto simp: evict_oldest_def Let_def set_fold_pop)

lemma dict_ok_evict_oldest: "dict_ok tbl \<Longrightarrow> dict_ok (evict_oldest tbl)"
  by (simp add: evict_oldest_def Let_def fold_pop_filter dict_ok_filter)

lemma level_bounds:
  assumes "list_all (bucket_ok t) tbl" "t \<le> now"
  shows "0 \<le> level tbl ip now" "level tbl ip now \<le> capacity"
proof -
  have "0 \<le> tokens + (now - last_at) * refill_per_sec" if "dict_get tbl ip = Some (tokens, last_at)" for tokens last_at
    using dict_get_mem [OF that] assms by (auto simp: list_all_iff refill_per_sec_def)
  then show "0 \<le> level tbl ip now"
    by (auto simp: level_def refilled_def capacity_def split: option.splits)
  show "level tbl ip now \<le> capacity" by (auto simp: level_def refilled_def split: option.splits)
qed

lemma bucket_ok_later: "list_all (bucket_ok t) tbl \<Longrightarrow> t \<le> now \<Longrightarrow> list_all (bucket_ok now) tbl"
  by (fastforce simp: list_all_iff)

lemma bucket_ok_set:
  assumes "list_all (bucket_ok t) tbl" "t \<le> now" "bucket_ok now (ip, v)"
  shows "list_all (bucket_ok now) (dict_set tbl ip v)"
  using bucket_ok_later [OF assms(1,2)] assms(3)
  by (induction tbl ip v rule: dict_set.induct) auto

lemma length_dict_set_present: "dict_get d k \<noteq> None \<Longrightarrow> length (dict_set d k v) = length d"
  by (induction d k v rule: dict_set.induct) (auto simp: dict_get_def)

lemma buckets_inv_allow:
  assumes "buckets_inv t tbl" "t \<le> now"
  shows "buckets_inv now (snd (allow_udp_cookie now ip tbl))"
proof -
  note inv = assms(1) [unfolded buckets_inv_def]
  have lv: "0 \<le> level tbl ip now" "level tbl ip now \<le> capacity" using inv assms(2) level_bounds by blast+
  show ?thesis
  proof (cases "level tbl ip now < 1")
    case True
    then have "dict_get tbl ip \<noteq> None" by (auto simp: level_def capacity_def split: option.splits)
    moreover have "list_all (bucket_ok now) (dict_set tbl ip (level tbl ip now, now))"
      using True lv inv assms(2) by (intro bucket_ok_set [of t]) (auto simp: capacity_def)
    ultimately show ?thesis
      using True inv by (simp add: allow_level buckets_inv_def dict_simps length_dict_set_present)
  next
    case False
    let ?t1 = "dict_set tbl ip (level tbl ip now - 1, now)"
    have ok: "list_all (bucket_ok now) ?t1" using False lv inv assms(2) by (intro bucket_ok_set [of t]) auto
    let ?f = "dict_filter (\<lambda>k v. refilled now v < capacity) ?t1"
    have d: "dict_ok ?t1" "dict_ok ?f" using inv by (simp_all add: dict_simps dict_filter_def dict_ok_filter)
    have "set (evict_oldest ?f) \<subseteq> set ?t1" using evict_oldest_subset [of ?f] by (auto simp: dict_filter_def)
    then have "list_all (bucket_ok now) (evict_oldest ?f)" using ok by (auto simp: list_all_iff)
    then show ?thesis
      using False d ok by (simp add: allow_level buckets_inv_def Let_def dict_ok_evict_oldest length_evict_oldest)
  qed
qed

subsection \<open>Runs of calls\<close>

text \<open>A sequence of calls with their times and addresses: how many of those for \<open>ip\<close> are allowed.\<close>

fun granted :: "string \<Rightarrow> (seconds \<times> string) list \<Rightarrow> buckets \<Rightarrow> nat" where
  "granted ip [] tbl = 0"
| "granted ip ((now, i) # calls) tbl =
     (let (allowed, tbl') = allow_udp_cookie now i tbl
      in (if allowed \<and> i = ip then 1 else 0) + granted ip calls tbl')"

fun table_after :: "(seconds \<times> string) list \<Rightarrow> buckets \<Rightarrow> buckets" where
  "table_after [] tbl = tbl"
| "table_after ((now, i) # calls) tbl = table_after calls (snd (allow_udp_cookie now i tbl))"

lemma level_later: "t \<le> now \<Longrightarrow> level tbl ip now \<le> level tbl ip t + 5 * (now - t)"
  by (auto simp: level_def refilled_def refill_per_sec_def capacity_def min_def algebra_simps split: option.splits)

lemma level_set_other: "i \<noteq> ip \<Longrightarrow> level (dict_set tbl i v) ip now = level tbl ip now"
  by (simp add: level_def dict_simps)

lemma level_set_same: "x \<le> capacity \<Longrightarrow> level (dict_set tbl ip (x, now)) ip now = x"
  by (simp add: level_def dict_simps refilled_def)

lemma level_le_capacity: "level tbl ip now \<le> capacity"
  by (auto simp: level_def refilled_def split: option.splits)

text \<open>While the addresses fit into the table nothing is pruned, and a call is one bucket operation.\<close>

lemma allow_in_table:
  assumes "dict_ok tbl" "set (map fst tbl) \<subseteq> ips" "i \<in> ips" "finite ips" "card ips \<le> 1000"
  shows "allow_udp_cookie now i tbl =
    (\<not> level tbl i now < 1,
     dict_set tbl i (if level tbl i now < 1 then level tbl i now else level tbl i now - 1, now))"
proof -
  have "length (dict_set tbl i v) \<le> 1000" for v
  proof -
    have "length (dict_set tbl i v) = card (set (map fst (dict_set tbl i v)))"
      using assms(1) by (metis dict_ok_def dict_ok_set distinct_card length_map)
    also have "\<dots> \<le> card ips" using assms by (intro card_mono) (auto simp: set_keys_dict_set simp del: set_map)
    finally show ?thesis using assms(5) by simp
  qed
  then have "\<not> 1000 < length (dict_set tbl i v)" for v by (simp add: not_less)
  then show ?thesis by (simp add: allow_level Let_def)
qed

lemma granted_le_level:
  assumes "dict_ok tbl" "set (map fst tbl) \<subseteq> ips" "snd ` set calls \<subseteq> ips" "finite ips" "card ips \<le> 1000"
    and "sorted (t # map fst calls)" "\<forall>c\<in>set calls. fst c \<le> t_end" "t \<le> t_end" "0 \<le> level tbl ip t"
  shows "of_nat (granted ip calls tbl) \<le> level tbl ip t + 5 * (t_end - t)"
  using assms
proof (induction calls arbitrary: tbl t)
  case Nil
  then show ?case by simp
next
  case (Cons call calls)
  obtain now i where c: "call = (now, i)" by fastforce
  have t: "t \<le> now" "now \<le> t_end" using Cons.prems(6,7) c by auto
  let ?l = "level tbl i now"
  let ?tbl = "dict_set tbl i (if ?l < 1 then ?l else ?l - 1, now)"
  have a: "allow_udp_cookie now i tbl = (\<not> ?l < 1, ?tbl)"
    using Cons.prems c by (intro allow_in_table) auto
  have later: "level tbl ip now \<le> level tbl ip t + 5 * (now - t)" using t(1) by (rule level_later)
  have pos: "0 \<le> level tbl ip now"
    using Cons.prems(9) t(1)
    by (auto simp: level_def refilled_def refill_per_sec_def capacity_def min_def algebra_simps split: option.splits if_splits)
  have new: "level ?tbl ip now = level tbl ip now - (if i = ip \<and> \<not> ?l < 1 then 1 else 0)"
    using level_le_capacity [of tbl i now] by (cases "i = ip") (simp_all add: level_set_other level_set_same)
  have "of_nat (granted ip calls ?tbl) \<le> level ?tbl ip now + 5 * (t_end - now)"
  proof (rule Cons.IH)
    show "dict_ok ?tbl" using Cons.prems(1) by (rule dict_ok_set)
    show "set (map fst ?tbl) \<subseteq> ips" using Cons.prems(2,3) c by (simp add: set_keys_dict_set del: set_map)
    show "0 \<le> level ?tbl ip now" using new pos by auto
  qed (use Cons.prems c t in auto)
  then show ?case using c a new later by auto
qed

subsection \<open>Properties\<close>

text \<open>
  C23. Cookies are rate limited: as long as at most 1000 addresses ask, an address is granted at
  most ten cookies and five more for every second between the first and the last call,
  however many calls there are and however they are interleaved with those of others.
\<close>

theorem cookie_rate_bounded:
  assumes "sorted (t0 # map fst calls)" "\<forall>c\<in>set calls. fst c \<le> t_end" "t0 \<le> t_end"
    and "card (snd ` set calls) \<le> 1000"
  shows "of_nat (granted ip calls []) \<le> 10 + 5 * (t_end - t0)"
  using granted_le_level [of "[]" "snd ` set calls" calls t0 t_end ip] assms
  by (simp add: dict_ok_def level_def dict_get_def capacity_def)

theorem cookie_rate_bounded_witness:
  "of_nat (granted ''a'' (replicate 99 (0, ''a'') @ [(1, ''a'')]) []) \<le> (15 :: seconds)"
proof -
  let ?calls = "replicate 99 (0 :: seconds, ''a'') @ [(1, ''a'')]"
  have "card (snd ` set ?calls) \<le> card {''a''}" by (intro card_mono) auto
  then show ?thesis using cookie_rate_bounded [of 0 ?calls 1 "''a''"] by (simp add: sorted_append)
qed

text \<open>
  The memory of the cookie limiter is bounded under a flood of forged sources: after any
  sequence of calls at non-decreasing times it holds at most 1000 addresses, each with
  between 0 and 9 tokens.
\<close>

lemma cookie_table_bounded:
  assumes "sorted (t0 # map fst calls)"
  shows "length (table_after calls []) \<le> 1000 \<and>
    (\<forall>(k, tokens, last_at) \<in> set (table_after calls []). 0 \<le> tokens \<and> tokens \<le> 9)"
proof -
  have "buckets_inv t tbl \<Longrightarrow> sorted (t # map fst calls) \<Longrightarrow>
      buckets_inv (last (t # map fst calls)) (table_after calls tbl)" for t tbl
  proof (induction calls arbitrary: t tbl)
    case (Cons call calls)
    then show ?case using buckets_inv_allow [of t tbl "fst call" "snd call"] by (cases call) auto
  qed simp
  moreover have "buckets_inv t0 []" by (simp add: buckets_inv_def dict_ok_def)
  ultimately have "buckets_inv (last (t0 # map fst calls)) (table_after calls [])" using assms by blast
  then show ?thesis by (auto simp: buckets_inv_def list_all_iff capacity_def)
qed

end
