(* ===== verification/Printing.thy ===== *)
theory Printing
  imports Types
begin

text \<open>
  What \<open>src/src/usmp/types.py\<close> prints: \<open>bytes.hex\<close>, the integer formats of its f-strings,
  frames, and the identifiers of a session, which the application's callbacks and the log
  see. Last the enumerations whose members are texts or wire codes.
\<close>

subsection \<open>Hexadecimal\<close>

definition hex_digits :: string where
  "hex_digits = ''0123456789abcdef''"

definition hex_byte :: "byte \<Rightarrow> string" where
  "hex_byte b = [hex_digits ! (unat b div 16), hex_digits ! (unat b mod 16)]"

text \<open>\<open>data.hex()\<close> and \<open>data.hex(sep)\<close>.\<close>

definition bytes_hex :: "bytes \<Rightarrow> string" where
  "bytes_hex data = concat (map hex_byte data)"

fun bytes_hex_sep :: "char \<Rightarrow> bytes \<Rightarrow> string" where
  "bytes_hex_sep sep [] = []"
| "bytes_hex_sep sep [b] = hex_byte b"
| "bytes_hex_sep sep (b # bs) = hex_byte b @ sep # bytes_hex_sep sep bs"

text \<open>The digits of a natural number, at least one, in a base up to sixteen.\<close>

fun digits_upto :: "nat \<Rightarrow> string \<Rightarrow> nat \<Rightarrow> string" where
  "digits_upto base ds n =
     (if n < base \<or> base < 2 then [ds ! n] else digits_upto base ds (n div base) @ [ds ! (n mod base)])"

declare digits_upto.simps [simp del]

text \<open>\<open>f"{n}"\<close>, and \<open>f"{n:0wX}"\<close>: the sign counts towards the width.\<close>

definition format_int :: "int \<Rightarrow> string" where
  "format_int n = (if n < 0 then ''-'' else []) @ digits_upto 10 hex_digits (nat \<bar>n\<bar>)"

definition format_hex :: "nat \<Rightarrow> int \<Rightarrow> string" where
  "format_hex w n =
     (let sign = (if n < 0 then ''-'' else []);
          ds = digits_upto 16 ''0123456789ABCDEF'' (nat \<bar>n\<bar>)
      in sign @ replicate (w - length sign - length ds) (CHR ''0'') @ ds)"

subsection \<open>Frames\<close>

fun packet_type_name :: "packet_type \<Rightarrow> string" where
  "packet_type_name HELLO = ''HELLO''"
| "packet_type_name CHALLENGE = ''CHALLENGE''"
| "packet_type_name HELLO_ACK = ''HELLO_ACK''"
| "packet_type_name SESSION_OK = ''SESSION_OK''"
| "packet_type_name DATA = ''DATA''"
| "packet_type_name PING = ''PING''"
| "packet_type_name PONG = ''PONG''"
| "packet_type_name BYE = ''BYE''"
| "packet_type_name DATA_FRAG = ''DATA_FRAG''"
| "packet_type_name HELLO_RETRY = ''HELLO_RETRY''"
| "packet_type_name REKEY = ''REKEY''"
| "packet_type_name ERROR = ''ERROR''"

text \<open>
  \<open>type_name\<close> of a frame whose \<open>type\<close> field is the integer \<open>v\<close>: the dataclass does not check
  the field, so it need not be a member of the enumeration.
\<close>

definition type_name :: "int \<Rightarrow> string" where
  "type_name v =
     (case PacketType v of
        Inr t \<Rightarrow> packet_type_name t
      | Inl _ \<Rightarrow> ''UNKNOWN(0x'' @ format_hex 2 v @ '')'')"

definition frame_str :: "usmp_frame \<Rightarrow> string" where
  "frame_str f =
     ''USMPFrame('' @ ''type='' @ type_name (packet_type_value (f_type f)) @ '', '' @
     ''seq='' @ format_int (f_seq f) @ '', '' @ ''version='' @ format_int (f_version f) @ '', '' @
     ''length='' @ format_int (f_length f) @ '', '' @ ''crc=0x'' @ format_hex 4 (f_crc f) @ '', '' @
     ''payload='' @ bytes_hex (f_payload f) @ '')''"

subsection \<open>Identifiers\<close>

definition device_id_str :: "session_info \<Rightarrow> string" where
  "device_id_str i = bytes_hex_sep (CHR '':'') (device_id i)"

definition session_id_str :: "session_info \<Rightarrow> string" where
  "session_id_str i = bytes_hex (session_id i)"

subsection \<open>Enumerations\<close>

datatype usmp_protocol = TCP | UDP

fun usmp_protocol_value :: "usmp_protocol \<Rightarrow> string" where
  "usmp_protocol_value TCP = ''tcp''"
| "usmp_protocol_value UDP = ''udp''"

datatype error_code =
    ERR_VERSION | ERR_AUTH | ERR_SEQ | ERR_CRYPTO | ERR_BAD_FRAME | ERR_TIMEOUT | ERR_INTERNAL

fun error_code_value :: "error_code \<Rightarrow> int" where
  "error_code_value ERR_VERSION = 0x01"
| "error_code_value ERR_AUTH = 0x02"
| "error_code_value ERR_SEQ = 0x03"
| "error_code_value ERR_CRYPTO = 0x04"
| "error_code_value ERR_BAD_FRAME = 0x05"
| "error_code_value ERR_TIMEOUT = 0x06"
| "error_code_value ERR_INTERNAL = 0x07"

fun usmp_error_code_value :: "usmp_error_code \<Rightarrow> int" where
  "usmp_error_code_value OK = 0"
| "usmp_error_code_value INVALID_ARG = -1"
| "usmp_error_code_value TRANSPORT_FAILED = -2"
| "usmp_error_code_value AUTH_FAILED = -3"
| "usmp_error_code_value TIMEOUT = -4"
| "usmp_error_code_value REPLAY_DETECTED = -5"
| "usmp_error_code_value BUFFER_OVERFLOW = -6"
| "usmp_error_code_value SEQ_EXHAUSTED = -7"
| "usmp_error_code_value CRYPTO_FAILED = -8"
| "usmp_error_code_value NOT_CONNECTED = -9"

subsection \<open>Printed identifiers are unambiguous\<close>

lemma hex_digits_inj: "i < 16 \<Longrightarrow> j < 16 \<Longrightarrow> hex_digits ! i = hex_digits ! j \<longleftrightarrow> i = j"
  by (rule nth_eq_iff_index_eq) (simp_all add: hex_digits_def)

lemma hex_byte_inj [simp]: "hex_byte a = hex_byte b \<longleftrightarrow> a = b"
proof -
  have lt: "unat x div 16 < 16" for x :: byte
    using unsigned_less [of x, where ?'a = nat] by (simp add: less_mult_imp_div_less)
  have "a = b" if "unat a div 16 = unat b div 16" "unat a mod 16 = unat b mod 16"
    using that by (metis div_mult_mod_eq word_unat_eq_iff)
  then show ?thesis using lt [of a] lt [of b] by (auto simp: hex_byte_def hex_digits_inj)
qed

lemma length_hex_byte [simp]: "length (hex_byte b) = 2"
  by (simp add: hex_byte_def)

lemma length_bytes_hex [simp]: "length (bytes_hex data) = 2 * length data"
  by (induction data) (simp_all add: bytes_hex_def)

lemma bytes_hex_inj [simp]: "bytes_hex xs = bytes_hex ys \<longleftrightarrow> xs = ys"
proof (induction xs arbitrary: ys)
  case Nil
  show ?case by (cases ys) (simp_all add: bytes_hex_def hex_byte_def)
next
  case (Cons x xs)
  then show ?case by (cases ys) (simp_all add: bytes_hex_def, simp add: hex_byte_def)
qed

lemma length_bytes_hex_sep: "length (bytes_hex_sep sep data) = 3 * length data - 1"
  by (induction sep data rule: bytes_hex_sep.induct) auto

lemma bytes_hex_sep_inj: "length xs = length ys \<Longrightarrow> bytes_hex_sep sep xs = bytes_hex_sep sep ys \<longleftrightarrow> xs = ys"
proof (induction sep xs arbitrary: ys rule: bytes_hex_sep.induct)
  case (2 sep b)
  then show ?case by (cases ys) auto
next
  case (3 sep b b' bs)
  then obtain y y' zs where "ys = y # y' # zs" by (metis Suc_length_conv length_Cons)
  then show ?case using 3 by simp
qed simp

text \<open>A validated session is named by 17 and by 32 characters, and its names tell it from every other.\<close>

lemma identifiers_exact:
  assumes "SessionInfo dev sid k1 k2 = Inr i" "SessionInfo dev' sid' k1' k2' = Inr j"
  shows "length (device_id_str i) = 17" "length (session_id_str i) = 32"
    "device_id_str i = device_id_str j \<longleftrightarrow> dev = dev'" "session_id_str i = session_id_str j \<longleftrightarrow> sid = sid'"
  using assms by (simp_all add: SessionInfo_Inr device_id_str_def session_id_str_def bytes_hex_sep_inj length_bytes_hex_sep)

lemma type_name_member [simp]: "type_name (packet_type_value t) = packet_type_name t"
  by (simp add: type_name_def)

lemma printing_examples:
  "bytes_hex [0, 0xAB, 0xFF] = ''00abff''" "bytes_hex_sep (CHR '':'') [0xDE, 0xAD, 0x01] = ''de:ad:01''"
  "type_name 0x42 = ''UNKNOWN(0x42)''" "format_hex 4 0xBEE = ''0BEE''" "format_int (- 120) = ''-120''"
  by code_simp+

end
