(* ===== verification/Server.thy ===== *)
theory Server
  imports Handshake Udp Session Counting Cookie_Limiter Printing
begin

text \<open>
  \<open>USMPServer\<close> of \<open>src/src/usmp/_server.py\<close>: construction, the life of a connection
  (\<open>_on_transport_connect\<close>) and the idle watchdog. Transports are objects shared by the
  connection's task, the tables of the server and the listener, so they live in a heap and
  are referred to by number. \<open>_on_transport_connect\<close> is given as the parts between two
  \<open>await\<close>s, each atomic under asyncio, and as their composition for a connection that runs
  without interference; \<open>Server_Runs\<close> considers every interleaving of the parts.
\<close>

subsection \<open>State\<close>

datatype endpoint = TcpEnd tcp_transport | UdpEnd udp_stream

fun end_peername :: "endpoint \<Rightarrow> peername" where
  "end_peername (TcpEnd t) = t_peername tcp_ops t"
| "end_peername (UdpEnd st) = t_peername udp_ops st"

fun end_close :: "endpoint \<Rightarrow> endpoint" where
  "end_close (TcpEnd t) = TcpEnd (t_close tcp_ops t)"
| "end_close (UdpEnd st) = UdpEnd (t_close udp_ops st)"

text \<open>\<open>addr[0] if addr and isinstance(addr, tuple) else str(addr)\<close>.\<close>

fun peer_ip :: "peername \<Rightarrow> string" where
  "peer_ip (PeerTuple (host, port)) = host"
| "peer_ip (PeerOther s) = s"
| "peer_ip PeerNone = ''None''"

record server =
  srv_psk :: psk_source
  srv_session_timeout :: seconds
  max_connections :: int
  max_connections_per_ip :: int
  tcp_connections :: counters
  udp_sessions :: "(addr, nat) dict"
  udp_handshakes :: "(addr, nat) dict"
  udp_in_progress :: counters
  cookie_secret :: bytes
  cookie_buckets :: buckets
  conn_tasks :: "nat list"
  failed_handshakes :: limiter
  heap :: "nat \<Rightarrow> endpoint"
  next_id :: nat
  udp_out :: "(bytes \<times> addr) list"

text \<open>
  \<open>USMPServer(...)\<close>; \<open>secret\<close> is what \<open>os.urandom(32)\<close> returned. The module-level
  table of failed handshakes exists before the server does.
\<close>

definition psk_truthy :: "psk_source \<Rightarrow> bool" where
  "psk_truthy src =
     (case src of PskDict d \<Rightarrow> d \<noteq> [] | PskBytes b \<Rightarrow> b \<noteq> [] | PskCallable f \<Rightarrow> True | PskOther b \<Rightarrow> b)"

definition psk_value_short :: "psk_value \<Rightarrow> bool" where
  "psk_value_short v = (case v of PyBytes b \<Rightarrow> length b < 16 | PyNone \<Rightarrow> True | PyOther n \<Rightarrow> n < 16)"

definition check_psk :: "psk_source \<Rightarrow> unit result" where
  "check_psk src =
     (if \<not> psk_truthy src then Inl ValueError
      else
        case src of
          PskDict d \<Rightarrow> if list_ex (\<lambda>kv. psk_value_short (snd kv)) d then Inl ValueError else Inr ()
        | PskBytes b \<Rightarrow> if length b < 16 then Inl ValueError else Inr ()
        | _ \<Rightarrow> Inr ())"

definition USMPServer :: "psk_source \<Rightarrow> seconds \<Rightarrow> int \<Rightarrow> int \<Rightarrow> bytes \<Rightarrow> limiter \<Rightarrow> server result" where
  "USMPServer src timeout max_conn max_per_ip secret tbl =
     bind_result (check_psk src) (\<lambda>_.
       Inr \<lparr>srv_psk = src, srv_session_timeout = timeout, max_connections = max_conn,
            max_connections_per_ip = max_per_ip, tcp_connections = [], udp_sessions = [], udp_handshakes = [],
            udp_in_progress = [], cookie_secret = secret, cookie_buckets = [], conn_tasks = [],
            failed_handshakes = tbl, heap = (\<lambda>_. TcpEnd (tcp_open PeerNone)), next_id = 0, udp_out = []\<rparr>)"

definition set_end :: "nat \<Rightarrow> endpoint \<Rightarrow> server \<Rightarrow> server" where
  "set_end tid e s = s\<lparr>heap := (heap s)(tid := e)\<rparr>"

definition close_transport :: "nat \<Rightarrow> server \<Rightarrow> server" where
  "close_transport tid s = set_end tid (end_close (heap s tid)) s"

definition add_task :: "nat \<Rightarrow> server \<Rightarrow> server" where
  "add_task tid s = s\<lparr>conn_tasks := List.insert tid (conn_tasks s)\<rparr>"

definition discard_task :: "nat \<Rightarrow> server \<Rightarrow> server" where
  "discard_task tid s = s\<lparr>conn_tasks := removeAll tid (conn_tasks s)\<rparr>"

subsection \<open>The parts of a connection\<close>

text \<open>From the start to the handshake: admission of TCP connections. \<open>False\<close>: rejected.\<close>

definition connect_begin :: "nat \<Rightarrow> server \<Rightarrow> bool \<times> server" where
  "connect_begin tid s =
     (let s = add_task tid s in
      case heap s tid of
        TcpEnd t \<Rightarrow>
          (let ip = peer_ip (tcp_peer t);
               global_count = sum_list (map snd (tcp_connections s)) in
           if global_count \<ge> max_connections s then (False, discard_task tid (close_transport tid s))
           else
             let ip_count = dict_get_or (tcp_connections s) ip 0 in
             if ip_count \<ge> max_connections_per_ip s then (False, discard_task tid (close_transport tid s))
             else (True, s\<lparr>tcp_connections := dict_set (tcp_connections s) ip (ip_count + 1)\<rparr>))
      | UdpEnd st \<Rightarrow> (True, s))"

text \<open>\<open>_run_handshake\<close> on the connection's transport.\<close>

definition run_handshake ::
  "crypto \<Rightarrow> psk_source \<Rightarrow> string \<Rightarrow> bytes \<Rightarrow> bytes \<Rightarrow> bytes \<Rightarrow> seconds \<Rightarrow> seconds
     \<Rightarrow> (endpoint \<times> limiter, session_info) coro"
where
  "run_handshake c src conn_id priv nonce sid now now_failed = (\<lambda>(e, tbl).
     case e of
       TcpEnd t \<Rightarrow>
         (case server_handshake c tcp_ops src conn_id priv nonce sid now now_failed (t, tbl) of
            (r, t', tbl') \<Rightarrow> (r, TcpEnd t', tbl'))
     | UdpEnd st \<Rightarrow>
         (case server_handshake c udp_ops src conn_id priv nonce sid now now_failed (st, tbl) of
            (r, st', tbl') \<Rightarrow> (r, UdpEnd st', tbl')))"

text \<open>
  From a successful handshake to the session handler: a UDP session is registered under its
  address, within the limits. \<open>False\<close>: the method returns here.
\<close>

definition sessions_of_ip :: "string \<Rightarrow> (addr, nat) dict \<Rightarrow> int" where
  "sessions_of_ip ip d = int (length (filter (\<lambda>kv. fst (fst kv) = ip) d))"

definition connect_established :: "nat \<Rightarrow> server \<Rightarrow> bool \<times> server" where
  "connect_established tid s =
     (case heap s tid of
        TcpEnd t \<Rightarrow> (True, s)
      | UdpEnd st \<Rightarrow>
          (let addr = remote_addr st;
               s1 = s\<lparr>udp_in_progress := dict_decrement (udp_in_progress s) (fst addr)\<rparr> in
           if int (length (udp_sessions s1)) \<ge> max_connections s1 then (False, close_transport tid s1)
           else if sessions_of_ip (fst addr) (udp_sessions s1) \<ge> max_connections_per_ip s1
           then (False, close_transport tid s1)
           else
             let s2 = (case dict_get (udp_sessions s1) addr of
                         None \<Rightarrow> s1
                       | Some old_session_stream \<Rightarrow> close_transport old_session_stream s1)
             in (True, s2\<lparr>udp_sessions := dict_set (udp_sessions s2) addr tid,
                          udp_handshakes := dict_pop (udp_handshakes s2) addr\<rparr>)))"

text \<open>
  The \<open>except\<close> clauses. \<open>Some e\<close>: the exception \<open>e\<close> leaves the method after the clean-up.
  Every class but \<open>CancelledError\<close> is an \<open>Exception\<close> and is caught by one of them.
\<close>

definition connect_except :: "seconds \<Rightarrow> nat \<Rightarrow> exn \<Rightarrow> server \<Rightarrow> exn option \<times> server" where
  "connect_except now tid e s =
     (if catches [HandshakeError] e then (None, s)
      else if catches [TimeoutError, USMPTimeoutError] e then
        (case record_failed_handshake now (peer_ip (end_peername (heap s tid))) (failed_handshakes s) of
           Inl e' \<Rightarrow> (Some e', s)
         | Inr tbl \<Rightarrow> (None, s\<lparr>failed_handshakes := tbl\<rparr>))
      else if e = CancelledError then (Some e, s)
      else (None, s))"

text \<open>
  The \<open>finally\<close> block up to its first \<open>await\<close>. \<open>decremented\<close> is the local
  \<open>handshake_decremented\<close>.
\<close>

definition pop_if_same :: "(addr, nat) dict \<Rightarrow> addr \<Rightarrow> nat \<Rightarrow> (addr, nat) dict" where
  "pop_if_same d addr tid = (if dict_get d addr = Some tid then dict_pop d addr else d)"

definition connect_finally :: "nat \<Rightarrow> bool \<Rightarrow> server \<Rightarrow> server" where
  "connect_finally tid decremented s =
     (let s = discard_task tid s in
      case heap s tid of
        TcpEnd t \<Rightarrow> s\<lparr>tcp_connections := dict_decrement (tcp_connections s) (peer_ip (tcp_peer t))\<rparr>
      | UdpEnd st \<Rightarrow>
          (let addr = remote_addr st;
               s = (if decremented then s
                    else s\<lparr>udp_in_progress := dict_decrement (udp_in_progress s) (fst addr)\<rparr>);
               s = s\<lparr>udp_handshakes := pop_if_same (udp_handshakes s) addr tid\<rparr>
           in s\<lparr>udp_sessions := pop_if_same (udp_sessions s) addr tid\<rparr>))"

fun is_udp :: "endpoint \<Rightarrow> bool" where
  "is_udp (UdpEnd st) = True"
| "is_udp (TcpEnd t) = False"

text \<open>
  The whole method for one connection that is not interfered with. The application's
  \<open>handler\<close> is an argument; a handshake left waiting runs into the handshake timeout; a
  handler left waiting leaves the connection open (\<open>Waiting\<close>).
\<close>

definition connect_end :: "nat \<Rightarrow> bool \<Rightarrow> exn option \<times> server \<Rightarrow> unit io \<times> server" where
  "connect_end tid decremented r =
     (case r of (out, s) \<Rightarrow>
        (case out of None \<Rightarrow> Done () | Some e \<Rightarrow> Raise e, close_transport tid (connect_finally tid decremented s)))"

definition serve_session ::
  "seconds \<Rightarrow> (endpoint session \<Rightarrow> unit io \<times> endpoint session) \<Rightarrow> (nat \<Rightarrow> seconds) \<Rightarrow> session_info \<Rightarrow> nat \<Rightarrow> (server, unit) coro"
where
  "serve_session now_failed handler clk i tid s =
     (let decremented = is_udp (heap s tid) in
      case connect_established tid s of
        (False, s1) \<Rightarrow> connect_end tid decremented (None, s1)
      | (True, s1) \<Rightarrow>
          (case handler (USMPSession (heap s1 tid) i None clk) of
             (r, se) \<Rightarrow>
               (let s2 = set_end tid (transport se) s1 in
                case r of
                  Done _ \<Rightarrow> connect_end tid decremented (None, s2)
                | Raise x \<Rightarrow> connect_end tid decremented (connect_except now_failed tid x s2)
                | Waiting \<Rightarrow> (Waiting, s2))))"

definition on_transport_connect ::
  "crypto \<Rightarrow> string \<Rightarrow> bytes \<Rightarrow> bytes \<Rightarrow> bytes \<Rightarrow> seconds \<Rightarrow> seconds
     \<Rightarrow> (endpoint session \<Rightarrow> unit io \<times> endpoint session) \<Rightarrow> (nat \<Rightarrow> seconds) \<Rightarrow> nat \<Rightarrow> (server, unit) coro"
where
  "on_transport_connect c conn_id priv nonce sid now now_failed handler clk tid s =
     (case connect_begin tid s of
        (False, s1) \<Rightarrow> (Done (), s1)
      | (True, s1) \<Rightarrow>
          (case run_handshake c (srv_psk s1) conn_id priv nonce sid now now_failed (heap s1 tid, failed_handshakes s1) of
             (r, e, tbl) \<Rightarrow>
               (let s2 = (set_end tid e s1)\<lparr>failed_handshakes := tbl\<rparr> in
                case r of
                  Raise x \<Rightarrow> connect_end tid False (connect_except now_failed tid x s2)
                | Waiting \<Rightarrow> connect_end tid False (connect_except now_failed tid TimeoutError s2)
                | Done i \<Rightarrow> serve_session now_failed handler clk i tid s2)))"

subsection \<open>The watchdog\<close>

text \<open>
  \<open>_watchdog\<close>: at every wake-up the clock and the session's \<open>_last_recv\<close> are read; the
  observations are an argument. \<open>on_timeout\<close> is the application's callback, with the
  exception it raises, if any. The sleep between two wake-ups is \<open>watchdog_interval\<close>.
\<close>

definition watchdog_interval :: "seconds \<Rightarrow> seconds" where
  "watchdog_interval timeout = timeout / 2"

fun watchdog ::
  "seconds \<Rightarrow> (string \<Rightarrow> string \<Rightarrow> exn option) option \<Rightarrow> session_info \<Rightarrow> (seconds \<times> seconds) list \<Rightarrow> (endpoint, unit) coro"
where
  "watchdog timeout on_timeout i [] e = (Waiting, e)"
| "watchdog timeout on_timeout i ((now, last_at) # wakeups) e =
     (if now - last_at > timeout then
        (case on_timeout of
           None \<Rightarrow> (Done (), end_close e)
         | Some callback \<Rightarrow>
             (case callback (device_id_str i) (session_id_str i) of
                Some x \<Rightarrow> if x = CancelledError then (Raise x, e) else (Done (), end_close e)
              | None \<Rightarrow> (Done (), end_close e)))
      else watchdog timeout on_timeout i wakeups e)"

subsection \<open>A handshake keeps the peer\<close>

lemma keeps_read_frame:
  "(\<And>n. coro_keeps f (rd n)) \<Longrightarrow> coro_keeps f (read_frame rd vc)"
  unfolding read_frame_def by (intro keeps_intros)

lemma tcp_keeps_peer:
  "coro_keeps tcp_peer (tcp_read_frame vc)" "coro_keeps tcp_peer (tcp_write_frame ty p q)"
  unfolding tcp_read_frame_def tcp_write_frame_def write_frame_def
  by (intro keeps_read_frame keeps_intros; simp add: coro_keeps_def tcp_readexactly_def tcp_write_def tcp_drain_def)+

lemma udp_fields_keep_addr [simp]:
  "remote_addr (sendto d st) = remote_addr st" "remote_addr (buffered d st) = remote_addr st"
  "remote_addr (update_rtt x st) = remote_addr st"
  by (simp_all add: sendto_def buffered_def update_rtt_def Let_def)

lemma feed_packet_addr [simp]: "remote_addr (snd (feed_packet d st)) = remote_addr st"
  by (simp add: feed_packet_def feed_frame_eq feed_utack_eq UTACK_HEADER_LEN_def)

lemma await_network_addr [simp]: "remote_addr (snd (await_network st)) = remote_addr st"
proof -
  have "remote_addr (deliver ds st) = remote_addr st" for ds st
    unfolding deliver_def by (induction ds arbitrary: st) simp_all
  then show ?thesis by (simp add: await_network_def split: list.splits prod.splits)
qed

lemma arq_loop_addr: "remote_addr (snd (arq_loop k a b d st)) = remote_addr st"
proof (induction k a b d st rule: arq_loop.induct)
  case (2 left attempt base data st)
  obtain e st1 where w: "await_network (sendto data st) = (e, st1)" by fastforce
  moreover have "remote_addr st1 = remote_addr st" using await_network_addr [of "sendto data st"] w by simp
  ultimately show ?case using 2 by (auto split: option.splits)
qed simp

lemma udp_keeps_addr:
  "coro_keeps remote_addr (udp_read_frame vc)" "coro_keeps remote_addr (udp_write_frame ty p q)"
proof -
  have "coro_keeps remote_addr (udp_readexactly n)" for n by (simp add: coro_keeps_def udp_readexactly_def)
  then show "coro_keeps remote_addr (udp_read_frame vc)" by (simp add: udp_read_frame_def keeps_read_frame)
  have "coro_keeps remote_addr (udp_write d)" for d
    by (auto simp: coro_keeps_def udp_write_def Let_def coro_bind_def coro_lift_def split: sum.splits)
  moreover have "coro_keeps remote_addr udp_drain"
    by (auto simp: coro_keeps_def udp_drain_def Let_def arq_loop_addr split: option.splits)
  ultimately show "coro_keeps remote_addr (udp_write_frame ty p q)"
    unfolding udp_write_frame_def by (intro keeps_intros)
qed

text \<open>A transport whose reads, writes and key installation keep its peer name keeps it through a handshake.\<close>

lemma server_exchange_keeps:
  assumes "\<And>vc. coro_keeps f (t_read_frame T vc)" "\<And>ty p q. coro_keeps f (t_write_frame T ty p q)"
    and "\<And>a b t. f (t_set_session_keys T a b t) = f t"
  shows "coro_keeps f (server_exchange c T src priv nonce sid)"
proof -
  have m: "coro_keeps f (coro_modify (t_set_session_keys T a b))" for a b
    using assms(3) by (simp add: coro_keeps_def coro_modify_def)
  have q: "coro_keeps f (coro_require b e)" for b e by (simp add: coro_require_def keeps_intros)
  show ?thesis
    unfolding server_exchange_def server_verify_def read_handshake_frame_def Let_def generate_keypair_def
    by (auto intro!: keeps_intros assms(1,2) m q split: prod.splits)
qed

lemma server_handshake_keeps:
  assumes "server_handshake c T src conn priv nonce sid now nf (t, tbl) = (r, t', tbl')"
    and "coro_keeps f (server_exchange c T src priv nonce sid)"
  shows "f t' = f t"
proof -
  obtain x t1 where x: "server_exchange c T src priv nonce sid t = (x, t1)" by fastforce
  have "f t1 = f t" using assms(2) x by (rule coro_keepsD)
  moreover have "t' = t \<or> t' = t1"
    using assms(1) x
    by (auto simp: server_handshake_def Let_def handshake_failed_def split: if_splits io.splits sum.splits option.splits prod.splits)
  ultimately show ?thesis by auto
qed

definition same_peer :: "endpoint \<Rightarrow> endpoint \<Rightarrow> bool" where
  "same_peer e e' \<longleftrightarrow> is_udp e = is_udp e' \<and> end_peername e = end_peername e'"

lemma same_peer_simps [simp]:
  "same_peer e e" "same_peer (end_close e) e" "same_peer (UdpEnd st) (UdpEnd st') \<longleftrightarrow> remote_addr st = remote_addr st'"
  "same_peer (TcpEnd t) (TcpEnd t') \<longleftrightarrow> tcp_peer t = tcp_peer t'"
  by (cases e; simp add: same_peer_def udp_ops_def tcp_ops_def tcp_close_def udp_close_def)+

lemma run_handshake_same_peer:
  assumes "run_handshake c src conn priv nonce sid now nf (e, tbl) = (r, e', tbl')"
  shows "same_peer e' e"
proof (cases e)
  case (TcpEnd t)
  obtain t' where t: "server_handshake c tcp_ops src conn priv nonce sid now nf (t, tbl) = (r, t', tbl')" "e' = TcpEnd t'"
    using assms TcpEnd by (auto simp: run_handshake_def split: prod.splits)
  have "coro_keeps tcp_peer (server_exchange c tcp_ops src priv nonce sid)"
    by (rule server_exchange_keeps) (simp_all add: tcp_keeps_peer)
  then show ?thesis using server_handshake_keeps [OF t(1)] t(2) TcpEnd by simp
next
  case (UdpEnd st)
  obtain st' where t: "server_handshake c udp_ops src conn priv nonce sid now nf (st, tbl) = (r, st', tbl')" "e' = UdpEnd st'"
    using assms UdpEnd by (auto simp: run_handshake_def split: prod.splits)
  have "coro_keeps remote_addr (server_exchange c udp_ops src priv nonce sid)"
    by (rule server_exchange_keeps) (simp_all add: udp_ops_def udp_keeps_addr udp_set_session_keys_def)
  then show ?thesis using server_handshake_keeps [OF t(1)] t(2) UdpEnd by simp
qed

subsection \<open>Properties\<close>

text \<open>A fresh server, for the examples.\<close>

definition toy_listener :: server where
  "toy_listener =
     \<lparr>srv_psk = PskBytes (replicate 16 7), srv_session_timeout = 60, max_connections = 100,
      max_connections_per_ip = 5, tcp_connections = [], udp_sessions = [], udp_handshakes = [],
      udp_in_progress = [], cookie_secret = [1], cookie_buckets = [], conn_tasks = [],
      failed_handshakes = [], heap = (\<lambda>_. TcpEnd (tcp_open PeerNone)), next_id = 0, udp_out = []\<rparr>"

text \<open>Wake-ups that come at most \<open>g\<close> after one another, the first at most \<open>g\<close> after \<open>t\<close>.\<close>

fun paced :: "seconds \<Rightarrow> seconds \<Rightarrow> seconds list \<Rightarrow> bool" where
  "paced g t [] \<longleftrightarrow> True"
| "paced g t (u # us) \<longleftrightarrow> t \<le> u \<and> u \<le> t + g \<and> paced g u us"

lemma paced_mono: "paced g t us \<Longrightarrow> u \<in> set us \<Longrightarrow> t \<le> u"
  by (induction g t us rule: paced.induct) auto



text \<open>
  C40. A timeout inside an established session is booked as a failed handshake: when the
  application's handler ends with \<open>USMPTimeoutError\<close> (a \<open>recv\<close> with a timeout, say), the
  peer, whose handshake has just succeeded, has one failure in the limiter's table.
\<close>

theorem handler_timeout_counted:
  assumes "heap s tid = TcpEnd t" "tcp_peer t = PeerTuple (ip, port)" "connect_begin tid s = (True, s1)"
    and "limiter_inv (failed_handshakes s)"
    and "run_handshake c (srv_psk s1) conn priv nonce sid now nf (heap s1 tid, failed_handshakes s1) = (Done i, e, tbl)"
    and "handler (USMPSession e i None clk) = (Raise USMPTimeoutError, se)" "same_peer (transport se) e"
  shows "\<exists>s'. on_transport_connect c conn priv nonce sid now nf handler clk tid s = (Done (), s') \<and>
    dict_get (failed_handshakes s') ip = Some (1, 0, nf)"
proof -
  have s1: "heap s1 tid = TcpEnd t" "failed_handshakes s1 = failed_handshakes s"
    using assms(1,3) by (auto simp: connect_begin_def Let_def add_task_def split: if_splits)
  obtain t' where t': "e = TcpEnd t'" "server_handshake c tcp_ops (srv_psk s1) conn priv nonce sid now nf (t, failed_handshakes s) = (Done i, t', tbl)"
    using assms(5) by (auto simp: run_handshake_def s1 split: prod.splits)
  have key: "limiter_key conn (t_peername tcp_ops t) = ip" by (simp add: limiter_key_def assms(2))
  have tbl: "tbl = dict_pop (failed_handshakes s) ip"
    using t'(2) key
    by (cases rule: server_handshake_cases) (auto simp: handshake_failed_def split: if_splits sum.splits)
  have inv: "limiter_inv tbl" using assms(4) tbl by (simp add: limiter_inv_pop)
  have fails: "fails_of tbl ip = 0" by (simp add: fails_of_def tbl dict_simps)
  let ?s3 = "set_end tid (transport se) ((set_end tid e s1)\<lparr>failed_handshakes := tbl\<rparr>)"
  have p: "peer_ip (end_peername (transport se)) = ip" "\<not> is_udp (transport se)"
    using assms(2,7) run_handshake_same_peer [OF assms(5)] by (simp_all add: same_peer_def t'(1) s1(1))
  obtain tbl' where r: "record_failed_handshake nf ip tbl = Inr tbl'"
    using record_succeeds [of tbl ip nf] fails by auto
  have "dict_get tbl' ip = Some (1, 0, nf)"
    using record_get_key [OF _ r] inv fails by (auto simp: limiter_inv_def lockout_for_def)
  moreover have "connect_except nf tid USMPTimeoutError ?s3 = (None, ?s3\<lparr>failed_handshakes := tbl'\<rparr>)"
    using r by (simp add: connect_except_def set_end_def p)
  moreover have "failed_handshakes (close_transport tid (connect_finally tid False s)) = failed_handshakes s" for s
    by (auto simp: close_transport_def set_end_def connect_finally_def Let_def discard_task_def split: endpoint.splits)
  ultimately show ?thesis
    using assms(3,5,6)
    by (simp add: on_transport_connect_def serve_session_def connect_established_def Let_def t'(1) set_end_def connect_end_def)
qed

theorem handler_timeout_counted_witness:
  "\<exists>s'. on_transport_connect toy_crypto ''c'' [2] (replicate 32 9) (replicate 16 8) 0 0 (\<lambda>se. (Raise USMPTimeoutError, se)) (\<lambda>n. 0) 0
       (toy_listener\<lparr>heap := \<lambda>_. TcpEnd ((tcp_open (PeerTuple (''h'', 1)))\<lparr>rbuf := toy_client_bytes\<rparr>)\<rparr>) = (Done (), s') \<and>
     dict_get (failed_handshakes s') ''h'' = Some (1, 0, 0)"
proof -
  let ?t = "(tcp_open (PeerTuple (''h'', 1)))\<lparr>rbuf := toy_client_bytes\<rparr>"
  let ?s = "toy_listener\<lparr>heap := \<lambda>_. TcpEnd ?t\<rparr>"
  obtain s1 where b: "connect_begin 0 ?s = (True, s1)"
    by (simp add: connect_begin_def Let_def add_task_def toy_listener_def dict_get_or_def tcp_open_def)
  then have s1: "srv_psk s1 = PskBytes (replicate 16 7)" "heap s1 0 = TcpEnd ?t" "failed_handshakes s1 = []"
    by (auto simp: connect_begin_def Let_def add_task_def toy_listener_def split: if_splits)
  obtain si st where "toy_server toy_client_bytes [] = (Done si, st, [])" using toy_runs(1) by blast
  then have "run_handshake toy_crypto (srv_psk s1) ''c'' [2] (replicate 32 9) (replicate 16 8) 0 0 (heap s1 0, failed_handshakes s1) =
      (Done si, TcpEnd st, [])"
    by (simp add: run_handshake_def s1 toy_server_def)
  from handler_timeout_counted [OF _ _ b _ this] show ?thesis
    by (simp add: tcp_open_def toy_listener_def USMPSession_def)
qed

end
