(* ===== verification/Cookies.thy ===== *)
theory Cookies
  imports Transport
begin

text \<open>
  The stateless cookies of the UDP listener (\<open>src/src/usmp/transport/udp.py\<close>): a truncated
  HMAC over the text of the client's address and a 30-second time bucket. The text is shown
  to determine the address and the bucket.
\<close>

text \<open>\<open>str\<close> of an integer, and UTF-8 for characters below 256.\<close>

fun digits :: "nat \<Rightarrow> string" where
  "digits n = (if n < 10 then [char_of (48 + n)] else digits (n div 10) @ [char_of (48 + n mod 10)])"

declare digits.simps [simp del]

definition str_int :: "int \<Rightarrow> string" where
  "str_int i = (if i < 0 then CHR ''-'' # digits (nat (- i)) else digits (nat i))"

definition utf8_char :: "char \<Rightarrow> bytes" where
  "utf8_char ch =
     (let n = of_char ch :: nat in
      if n < 128 then [word_of_nat n] else [word_of_nat (0xC0 + n div 64), word_of_nat (0x80 + n mod 64)])"

definition utf8 :: "string \<Rightarrow> bytes" where
  "utf8 s = concat (map utf8_char s)"

definition time_bucket :: "seconds \<Rightarrow> int" where
  "time_bucket wall = \<lfloor>wall / 30\<rfloor>"

definition cookie_msg :: "addr \<Rightarrow> int \<Rightarrow> bytes" where
  "cookie_msg addr bucket = utf8 (fst addr @ '':'' @ str_int (snd addr) @ '':'' @ str_int bucket)"

definition cookie_for :: "bytes \<Rightarrow> addr \<Rightarrow> int \<Rightarrow> bytes" where
  "cookie_for secret addr bucket = take 16 (hmac_sha256 secret (cookie_msg addr bucket))"

subsection \<open>What a cookie binds\<close>

lemma digit_char_code: "n < 10 \<Longrightarrow> of_char (char_of (48 + n) :: char) = (48 + n :: nat)"
  by (simp add: of_char_of)

lemma digit_char: "n < (10 :: nat) \<Longrightarrow> CHR '':'' \<noteq> char_of (48 + n) \<and> CHR ''-'' \<noteq> char_of (48 + n)"
  using digit_char_code [of n] by (auto dest!: arg_cong [where f = "of_char :: char \<Rightarrow> nat"])

lemma digit_char_inj: "n < 10 \<Longrightarrow> m < 10 \<Longrightarrow> char_of (48 + n) = (char_of (48 + m) :: char) \<longleftrightarrow> n = (m :: nat)"
  using digit_char_code [of n] digit_char_code [of m] by force

lemma digits_no_sep: "CHR '':'' \<notin> set (digits n) \<and> CHR ''-'' \<notin> set (digits n)"
proof (induction n rule: digits.induct)
  case (1 n)
  then show ?case using digit_char [of n] digit_char [of "n mod 10"] by (auto simp: digits.simps [of n])
qed

lemma digits_nonempty: "digits n \<noteq> []"
  by (simp add: digits.simps [of n])

lemma digits_inj: "digits n = digits m \<Longrightarrow> n = m"
proof (induction n arbitrary: m rule: digits.induct)
  case (1 n)
  show ?case
  proof (cases "n < 10 \<or> m < 10")
    case True
    then show ?thesis
      using 1(2) digits_nonempty [of "n div 10"] digits_nonempty [of "m div 10"]
      by (auto simp: digits.simps [of n] digits.simps [of m] digit_char_inj append_eq_Cons_conv Cons_eq_append_conv split: if_splits)
  next
    case False
    then have "digits (n div 10) = digits (m div 10)" "n mod 10 = m mod 10"
      using 1(2) by (simp_all add: digits.simps [of n] digits.simps [of m] digit_char_inj)
    then show ?thesis using 1(1) False by (metis div_mult_mod_eq)
  qed
qed

lemma str_int_no_colon: "CHR '':'' \<notin> set (str_int i)"
  using digits_no_sep by (simp add: str_int_def)

lemma str_int_inj: "str_int i = str_int j \<Longrightarrow> i = j"
proof -
  assume e: "str_int i = str_int j"
  have "CHR ''-'' # digits n \<noteq> digits m" "digits m \<noteq> CHR ''-'' # digits n" for n m
    using digits_no_sep [of m] by (metis list.set_intros(1))+
  then consider "i < 0" "j < 0" "nat (- i) = nat (- j)" | "\<not> i < 0" "\<not> j < 0" "nat i = nat j"
    using e digits_inj by (auto simp: str_int_def split: if_splits)
  then show "i = j" by cases simp_all
qed

lemma append_sep_inj:
  assumes "a @ x # b = c @ x # d" "x \<notin> set b" "x \<notin> set d"
  shows "a = c \<and> b = d"
proof -
  let ?p = "\<lambda>y. y \<noteq> x"
  have "rev (a @ x # b) = rev (c @ x # d)" using assms(1) by simp
  then have r: "rev b @ x # rev a = rev d @ x # rev c" by simp
  have t: "takeWhile ?p (rev b @ x # rev a) = rev b" "takeWhile ?p (rev d @ x # rev c) = rev d"
    using assms(2,3) by (auto simp: takeWhile_tail takeWhile_eq_all_conv)
  have "rev b = rev d" using t r by simp
  then show ?thesis using assms(1) by simp
qed

lemma utf8_char_nonempty: "utf8_char ch \<noteq> []"
  by (simp add: utf8_char_def Let_def)

lemma utf8_char_prefix: "utf8_char a @ xs = utf8_char b @ ys \<Longrightarrow> a = b \<and> xs = ys"
proof -
  assume e: "utf8_char a @ xs = utf8_char b @ ys"
  let ?a = "of_char a :: nat" and ?b = "of_char b :: nat"
  have r: "?a < 256" "?b < 256" by simp_all
  have w: "(word_of_nat n :: byte) = word_of_nat m \<longleftrightarrow> n = m" if "n < 256" "m < 256" for n m
  proof -
    have "unat (word_of_nat n :: byte) = n" "unat (word_of_nat m :: byte) = m"
      using that by (simp_all add: unat_of_nat)
    then show ?thesis by metis
  qed
  have lead: "0xC0 + n div 64 < 256" "0x80 + n mod 64 < 256" if "n < 256" for n :: nat using that by linarith+
  have "?a = ?b \<and> xs = ys"
  proof (cases "?a < 128"; cases "?b < 128")
    assume "\<not> ?a < 128" "\<not> ?b < 128"
    then have "0xC0 + ?a div 64 = 0xC0 + ?b div 64" "0x80 + ?a mod 64 = 0x80 + ?b mod 64" "xs = ys"
      using e r lead [OF r(1)] lead [OF r(2)] w by (simp_all add: utf8_char_def Let_def del: of_nat_add)
    then show ?thesis by (metis add_left_cancel div_mult_mod_eq)
  next
    assume "?a < 128" "?b < 128"
    then show ?thesis using e r w by (simp add: utf8_char_def Let_def del: of_nat_add)
  next
    assume h: "?a < 128" "\<not> ?b < 128"
    then have "?a = 0xC0 + ?b div 64" using e r lead [OF r(2)] w by (simp add: utf8_char_def Let_def del: of_nat_add)
    then show ?thesis using h by simp
  next
    assume h: "\<not> ?a < 128" "?b < 128"
    then have "0xC0 + ?a div 64 = ?b" using e r lead [OF r(1)] w by (simp add: utf8_char_def Let_def del: of_nat_add)
    then show ?thesis using h by simp
  qed
  then show ?thesis by simp
qed

lemma utf8_inj: "utf8 s = utf8 t \<Longrightarrow> s = t"
proof (induction s arbitrary: t)
  case Nil
  then show ?case using utf8_char_nonempty by (cases t) (auto simp: utf8_def)
next
  case (Cons a s)
  then obtain b t' where t: "t = b # t'" using utf8_char_nonempty by (cases t) (auto simp: utf8_def)
  then have "a = b \<and> utf8 s = utf8 t'"
    using Cons.prems utf8_char_prefix [of a "utf8 s" b "utf8 t'"] by (simp add: utf8_def)
  then show ?case using Cons.IH t by simp
qed

lemma cookie_msg_inj: "cookie_msg addr b = cookie_msg addr' b' \<longleftrightarrow> addr = addr' \<and> b = b'"
proof
  assume "cookie_msg addr b = cookie_msg addr' b'"
  then have "(fst addr @ CHR '':'' # str_int (snd addr)) @ CHR '':'' # str_int b =
      (fst addr' @ CHR '':'' # str_int (snd addr')) @ CHR '':'' # str_int b'"
    by (auto simp: cookie_msg_def dest!: utf8_inj)
  then have "fst addr @ CHR '':'' # str_int (snd addr) = fst addr' @ CHR '':'' # str_int (snd addr')" "str_int b = str_int b'"
    using append_sep_inj [OF _ str_int_no_colon str_int_no_colon] by blast+
  moreover from this(1) have "fst addr = fst addr'" "str_int (snd addr) = str_int (snd addr')"
    using append_sep_inj [OF _ str_int_no_colon str_int_no_colon] by blast+
  ultimately show "addr = addr' \<and> b = b'" using str_int_inj by (metis prod.expand)
qed simp

end
