(* ===== verification/Udp_Listener.thy ===== *)
theory Udp_Listener
  imports Server Cookies
begin

text \<open>
  \<open>UDPListener\<close> of \<open>src/src/usmp/transport/udp.py\<close>: every datagram the server's socket
  receives is given to a stream, answered with a stateless cookie, starts a handshake, or is
  dropped. The listener's tables are the server's. \<open>now\<close> is a reading of
  \<open>time.monotonic()\<close>, \<open>wall\<close> one of \<open>time.time()\<close>.
\<close>

subsection \<open>Datagrams\<close>

definition listener_sendto :: "bytes \<Rightarrow> addr \<Rightarrow> server \<Rightarrow> server" where
  "listener_sendto data addr s = s\<lparr>udp_out := udp_out s @ [(data, addr)]\<rparr>"

definition feed_stream :: "nat \<Rightarrow> bytes \<Rightarrow> (server, unit) coro" where
  "feed_stream tid data s =
     (case heap s tid of
        UdpEnd st \<Rightarrow> (case feed_packet data st of (r, st') \<Rightarrow> (r, set_end tid (UdpEnd st') s))
      | TcpEnd t \<Rightarrow> (Raise TypeError, s))"

text \<open>The branch for a first HELLO without a cookie: acknowledge it and send HELLO_RETRY.\<close>

definition issue_cookie :: "seconds \<Rightarrow> seconds \<Rightarrow> bytes \<Rightarrow> addr \<Rightarrow> (server, unit) coro" where
  "issue_cookie now wall data addr s =
     (let (allowed, buckets) = allow_udp_cookie now (fst addr) (cookie_buckets s);
          s = s\<lparr>cookie_buckets := buckets\<rparr> in
      if \<not> allowed then (Done (), s)
      else
        coro_bind (coro_lift (unpack_I (py_slice 4 8 data) 0)) (\<lambda>seq_val.
        coro_bind (coro_lift (bytes_of [uint (data ! 3)])) (\<lambda>tb.
        coro_bind (coro_lift (pack_I seq_val)) (\<lambda>sb.
        coro_bind (coro_modify (listener_sendto (UTACK_MAGIC @ tb @ sb) addr)) (\<lambda>_.
        coro_bind (coro_lift (encode_frame HELLO_RETRY (cookie_for (cookie_secret s) addr (time_bucket wall)) 0 USMP_VERSION))
          (\<lambda>retry_packet.
        coro_modify (listener_sendto retry_packet addr)))))) s)"

definition cookie_valid :: "seconds \<Rightarrow> bytes \<Rightarrow> addr \<Rightarrow> server \<Rightarrow> bool" where
  "cookie_valid wall data addr s =
     (let cookie = py_slice 50 66 data;
          bucket = time_bucket wall
      in cookie = cookie_for (cookie_secret s) addr bucket \<or> cookie = cookie_for (cookie_secret s) addr (bucket - 1))"

definition peer_locked_out :: "seconds \<Rightarrow> string \<Rightarrow> server \<Rightarrow> bool" where
  "peer_locked_out now ip s =
     (case dict_get (failed_handshakes s) ip of Some (_, lockout_until, _) \<Rightarrow> lockout_until > now | None \<Rightarrow> False)"

text \<open>A HELLO with a valid cookie: the remaining limits, then a new stream and its task.\<close>

definition start_handshake :: "seconds \<Rightarrow> bytes \<Rightarrow> addr \<Rightarrow> (server, nat option) coro" where
  "start_handshake now data addr s =
     (let limiter_key = fst addr in
      if peer_locked_out now limiter_key s then (Done None, s)
      else
        let in_progress = dict_get_or (udp_in_progress s) limiter_key 0 in
        if in_progress \<ge> 3 then (Done None, s)
        else if int (length (udp_handshakes s)) \<ge> max_connections s * 2 then (Done None, s)
        else
          let tid = next_id s;
              s1 = s\<lparr>udp_in_progress := dict_set (udp_in_progress s) limiter_key (in_progress + 1),
                     heap := (heap s)(tid := UdpEnd (UDPStream addr True)), next_id := Suc tid,
                     udp_handshakes := dict_set (udp_handshakes s) addr tid\<rparr>
          in coro_bind (feed_stream tid data) (\<lambda>_. coro_return (Some tid)) s1)"

definition datagram_type :: "bytes \<Rightarrow> int option" where
  "datagram_type data =
     (let is_utack = length data \<ge> 7 \<and> take 2 data = [0xAC, 0xAC] in
      if is_utack then Some (uint (data ! 2))
      else if length data \<ge> 12 then Some (uint (data ! 3)) else None)"

text \<open>
  \<open>_handle_udp_datagram\<close>. The result is the number of the stream a connection task was
  created for, if any.
\<close>

definition handle_udp_datagram :: "seconds \<Rightarrow> seconds \<Rightarrow> bytes \<Rightarrow> addr \<Rightarrow> (server, nat option) coro" where
  "handle_udp_datagram now wall data addr s =
     (let type_val = datagram_type data in
      if (case type_val of Some t \<Rightarrow> t < 5 | None \<Rightarrow> False) then
        (case dict_get (udp_handshakes s) addr of
           Some tid \<Rightarrow> coro_bind (feed_stream tid data) (\<lambda>_. coro_return None) s
         | None \<Rightarrow>
             if type_val \<noteq> Some 0x01 then (Done None, s)
             else if length data = 50 then coro_bind (issue_cookie now wall data addr) (\<lambda>_. coro_return None) s
             else if length data = 66 then
               (if \<not> cookie_valid wall data addr s then (Done None, s) else start_handshake now data addr s)
             else (Done None, s))
      else
        (case (case dict_get (udp_handshakes s) addr of Some tid \<Rightarrow> Some tid | None \<Rightarrow> dict_get (udp_sessions s) addr) of
           Some tid \<Rightarrow> coro_bind (feed_stream tid data) (\<lambda>_. coro_return None) s
         | None \<Rightarrow> (Done None, s)))"

text \<open>
  \<open>stop\<close> up to the cancellation of the tasks: every stream in the tables is closed and the
  tables are cleared.
\<close>

definition udp_listener_stop :: "server \<Rightarrow> server" where
  "udp_listener_stop s =
     (let s1 = fold close_transport (map snd (udp_sessions s)) s;
          s2 = fold close_transport (map snd (udp_handshakes s1)) s1
      in s2\<lparr>udp_sessions := [], udp_handshakes := []\<rparr>)"

subsection \<open>Feeding a stream\<close>

lemma feed_packet_pair: "feed_packet d st = (Done (), snd (feed_packet d st))"
  using feed_packet_Done [of d st] by (metis prod.collapse)

lemma feed_stream_udp:
  "heap s tid = UdpEnd st \<Longrightarrow> feed_stream tid data s = (Done (), set_end tid (UdpEnd (snd (feed_packet data st))) s)"
  using feed_packet_pair [of data st] by (auto simp: feed_stream_def split: prod.splits)

subsection \<open>Issuing\<close>

lemma length_cookie_for [simp]: "length (cookie_for secret addr b) = 16"
  by (simp add: cookie_for_def)

definition retry_frame :: "bytes \<Rightarrow> addr \<Rightarrow> int \<Rightarrow> bytes" where
  "retry_frame secret addr b = frame_bytes USMP_VERSION HELLO_RETRY 0 (cookie_for secret addr b)"

text \<open>The two datagrams that answer a HELLO without a cookie.\<close>

definition cookie_answer :: "seconds \<Rightarrow> bytes \<Rightarrow> addr \<Rightarrow> server \<Rightarrow> (bytes \<times> addr) list" where
  "cookie_answer wall data addr s =
     [(UTACK_MAGIC @ data ! 3 # py_slice 4 8 data, addr),
      (retry_frame (cookie_secret s) addr (time_bucket wall), addr)]"

lemma issue_cookie_eq:
  assumes "length data = 50"
  shows "issue_cookie now wall data addr s =
    (let (allowed, buckets) = allow_udp_cookie now (fst addr) (cookie_buckets s) in
     (Done (), if allowed
       then s\<lparr>cookie_buckets := buckets,
              udp_out := udp_out s @ cookie_answer wall data addr s\<rparr>
       else s\<lparr>cookie_buckets := buckets\<rparr>))"
proof -
  have l: "length (py_slice 4 8 data) = 4" using assms by (simp add: length_py_slice)
  have u: "unpack_I (py_slice 4 8 data) 0 = Inr (le_value (py_slice 4 8 data))"
    using l by (simp add: I.unpack_ok)
  have p: "pack_I (le_value (py_slice 4 8 data)) = Inr (py_slice 4 8 data)"
    using l le_value_bounds [of "py_slice 4 8 data"] le_bytes_le_value [of "py_slice 4 8 data"] by (simp add: I.pack_in_range)
  show ?thesis
    by (simp add: issue_cookie_def Let_def coro_bind_def coro_lift_def u p bytes_of_def coro_modify_def listener_sendto_def
        encode_frame_ok USMP_MAX_PAYLOAD_def retry_frame_def cookie_answer_def split: prod.splits)
qed

subsection \<open>The four things a datagram can do\<close>

definition registered :: "addr \<Rightarrow> nat \<Rightarrow> server \<Rightarrow> bool" where
  "registered addr tid s \<longleftrightarrow> dict_get (udp_handshakes s) addr = Some tid \<or> dict_get (udp_sessions s) addr = Some tid"

lemma set_end_same: "set_end tid (heap s tid) s = s"
  by (simp add: set_end_def)

lemma feed_stream_cases:
  assumes "feed_stream tid data s = (r, s')"
  obtains e where "s' = set_end tid e s" "same_peer e (heap s tid)"
proof (cases "heap s tid")
  case (TcpEnd t)
  then have "s' = s" using assms by (simp add: feed_stream_def)
  then show ?thesis by (intro that [of "heap s tid"]) (simp_all add: set_end_same)
next
  case (UdpEnd st)
  then show ?thesis using assms by (intro that) (auto simp: feed_stream_udp)
qed

lemma fed_cases:
  assumes "coro_bind (feed_stream tid data) (\<lambda>_. coro_return None) s = (r, s')"
  obtains e where "s' = set_end tid e s" "same_peer e (heap s tid)" "\<forall>i. r \<noteq> Done (Some i)"
proof -
  obtain r' s1 where f: "feed_stream tid data s = (r', s1)" by fastforce
  from feed_stream_cases [OF f] obtain e where "s1 = set_end tid e s" "same_peer e (heap s tid)" .
  then show ?thesis using assms f by (intro that) (auto simp: coro_bind_def coro_return_def split: io.splits)
qed

lemma issue_cookie_cases:
  assumes "issue_cookie now wall data addr s = (r, s')" "length data = 50"
  obtains buckets out where "r = Done ()" "s' = s\<lparr>cookie_buckets := buckets, udp_out := udp_out s @ out\<rparr>"
    "buckets = snd (allow_udp_cookie now (fst addr) (cookie_buckets s))"
    "out = [] \<or> out = cookie_answer wall data addr s"
proof -
  obtain allowed buckets where a: "allow_udp_cookie now (fst addr) (cookie_buckets s) = (allowed, buckets)" by fastforce
  show ?thesis
  proof (cases allowed)
    case True
    show ?thesis by (rule that [where out = "cookie_answer wall data addr s"]) (use assms True in \<open>simp_all add: issue_cookie_eq a\<close>)
  next
    case False
    show ?thesis by (rule that [where out = "[]"]) (use assms False in \<open>auto simp: issue_cookie_eq a\<close>)
  qed
qed

definition opened :: "bytes \<Rightarrow> addr \<Rightarrow> server \<Rightarrow> server" where
  "opened data addr s =
     s\<lparr>udp_in_progress := dict_set (udp_in_progress s) (fst addr) (dict_get_or (udp_in_progress s) (fst addr) 0 + 1),
       heap := (heap s)(next_id s := UdpEnd (snd (feed_packet data (UDPStream addr True)))), next_id := Suc (next_id s),
       udp_handshakes := dict_set (udp_handshakes s) addr (next_id s)\<rparr>"

lemma start_handshake_eq:
  "start_handshake now data addr s =
     (if peer_locked_out now (fst addr) s \<or> dict_get_or (udp_in_progress s) (fst addr) 0 \<ge> 3 \<or>
         int (length (udp_handshakes s)) \<ge> max_connections s * 2
      then (Done None, s) else (Done (Some (next_id s)), opened data addr s))"
  by (simp add: start_handshake_def Let_def coro_bind_def feed_stream_udp coro_return_def opened_def set_end_def)

lemma handle_udp_datagram_cases:
  assumes "handle_udp_datagram now wall data addr s = (r, s')"
  obtains
    (dropped) "r = Done None" "s' = s"
  | (fed) tid e where "registered addr tid s" "s' = set_end tid e s" "same_peer e (heap s tid)" "\<forall>i. r \<noteq> Done (Some i)"
  | (issued) buckets out where "length data = 50" "r = Done None"
      "s' = s\<lparr>cookie_buckets := buckets, udp_out := udp_out s @ out\<rparr>"
      "buckets = snd (allow_udp_cookie now (fst addr) (cookie_buckets s))"
      "out = [] \<or> out = cookie_answer wall data addr s"
  | (started) "r = Done (Some (next_id s))" "s' = opened data addr s" "length data = 66" "cookie_valid wall data addr s"
      "\<not> peer_locked_out now (fst addr) s" "dict_get_or (udp_in_progress s) (fst addr) 0 < 3"
      "int (length (udp_handshakes s)) < max_connections s * 2" "dict_get (udp_handshakes s) addr = None"
proof (cases "dict_get (udp_handshakes s) addr")
  case (Some tid)
  then have "coro_bind (feed_stream tid data) (\<lambda>_. coro_return None) s = (r, s')"
    using assms by (simp add: handle_udp_datagram_def Let_def split: if_splits)
  then obtain e where e: "s' = set_end tid e s" "same_peer e (heap s tid)" "\<forall>i. r \<noteq> Done (Some i)" by (rule fed_cases)
  show ?thesis by (rule fed [OF _ e]) (simp add: registered_def Some)
next
  case None
  note h = assms [unfolded handle_udp_datagram_def Let_def, simplified None option.case]
  consider (low) "case datagram_type data of Some t \<Rightarrow> t < 5 | None \<Rightarrow> False"
    | (high) "\<not> (case datagram_type data of Some t \<Rightarrow> t < 5 | None \<Rightarrow> False)" by blast
  then show ?thesis
  proof cases
    case low
    consider (ignored) "r = Done None" "s' = s"
      | (cookie) "length data = 50" "coro_bind (issue_cookie now wall data addr) (\<lambda>_. coro_return None) s = (r, s')"
      | (hello) "length data = 66" "cookie_valid wall data addr s" "start_handshake now data addr s = (r, s')"
      using h low by (auto split: if_splits)
    then show ?thesis
    proof cases
      case ignored
      then show ?thesis by (rule dropped)
    next
      case cookie
      obtain r' s1 where i: "issue_cookie now wall data addr s = (r', s1)" by fastforce
      from issue_cookie_cases [OF i cookie(1)] obtain buckets out where
        o: "r' = Done ()" "s1 = s\<lparr>cookie_buckets := buckets, udp_out := udp_out s @ out\<rparr>"
          "buckets = snd (allow_udp_cookie now (fst addr) (cookie_buckets s))"
          "out = [] \<or> out = cookie_answer wall data addr s" .
      have "r = Done None" "s' = s1" using cookie(2) i o(1) by (auto simp: coro_bind_def coro_return_def)
      then show ?thesis using issued cookie(1) o(2-4) by blast
    next
      case hello
      then show ?thesis using None by (auto simp: start_handshake_eq split: if_splits intro: dropped started)
    qed
  next
    case high
    show ?thesis
    proof (cases "dict_get (udp_sessions s) addr")
      case None
      then show ?thesis using h high by (auto intro: dropped)
    next
      case (Some tid)
      then have "coro_bind (feed_stream tid data) (\<lambda>_. coro_return None) s = (r, s')" using h high by simp
      then obtain e where e: "s' = set_end tid e s" "same_peer e (heap s tid)" "\<forall>i. r \<noteq> Done (Some i)" by (rule fed_cases)
      show ?thesis by (rule fed [OF _ e]) (simp add: registered_def Some)
    qed
  qed
qed

subsection \<open>Datagrams that carry a frame\<close>

lemma datagram_type_frame [simp]: "datagram_type (frame_bytes v t q p) = Some (packet_type_value t)"
  using frame_bytes_not_utack [of v t q p] dg_frame_bytes(1) [of v t q p]
  by (simp add: datagram_type_def Let_def UTACK_MAGIC_def dg_type_def USMP_HEADER_SIZE_def)

lemma frame_bytes_tail: "py_slice (12 + a) (12 + b) (frame_bytes v t q p) = py_slice a b p"
proof -
  have "drop 12 (frame_bytes v t q p) = p" by (simp add: frame_bytes_def drop12_raw_frame)
  then show ?thesis by (metis add_diff_cancel_left add.commute drop_drop py_slice_def)
qed

lemma frame_bytes_type_seq:
  "frame_bytes v t q p ! 3 = word_of_int (packet_type_value t)" "py_slice 4 8 (frame_bytes v t q p) = le_bytes 4 q"
  by (simp_all add: frame_bytes_def raw_frame_def header10_def py_slice_def nth_append)

lemma time_bucket_next:
  assumes "wall \<le> wall'" "wall' \<le> wall + 30"
  shows "time_bucket wall = time_bucket wall' \<or> time_bucket wall = time_bucket wall' - 1"
proof -
  have "wall' / 30 \<le> wall / 30 + 1" using assms(2) by (simp add: field_simps)
  then have "\<lfloor>wall' / 30\<rfloor> \<le> \<lfloor>wall / 30 + 1\<rfloor>" by (rule floor_mono)
  then have "\<lfloor>wall' / 30\<rfloor> \<le> \<lfloor>wall / 30\<rfloor> + 1" by simp
  moreover have "\<lfloor>wall / 30\<rfloor> \<le> \<lfloor>wall' / 30\<rfloor>" using assms(1) by (intro floor_mono) (simp add: divide_right_mono)
  ultimately show ?thesis by (auto simp: time_bucket_def)
qed

lemma fresh_stream_buffers:
  assumes "length p \<le> 480" "packet_type_value t < 5"
  shows "read_buffer (snd (feed_packet (frame_bytes v t q p) (UDPStream addr True))) = frame_bytes v t q p"
proof -
  let ?d = "frame_bytes v t q p"
  have "\<not> handshake_duplicate (dg_type ?d) (UDPStream addr True)"
    using packet_type_value_range [of t] by (auto simp: handshake_duplicate_def dg_frame_bytes UDPStream_def)
  then show ?thesis
    using assms frame_bytes_not_utack [of v t q p]
    by (simp add: feed_packet_def feed_frame_eq datagram_ok_frame_bytes dg_frame_bytes buffered_def UDPStream_def
        MAX_READ_BUFFER_def USMP_HEADER_SIZE_def)
qed

lemma hello_with_cookie_starts:
  assumes "length dev = 6" "length pc = 32" "dict_get (udp_handshakes s) addr = None" "wall \<le> wall'" "wall' \<le> wall + 30"
    and "\<not> peer_locked_out now (fst addr) s" "dict_get_or (udp_in_progress s) (fst addr) 0 < 3"
    and "int (length (udp_handshakes s)) < max_connections s * 2"
    and "data = frame_bytes USMP_VERSION HELLO 1 (dev @ pc @ cookie_for (cookie_secret s) addr (time_bucket wall))"
  shows "handle_udp_datagram now wall' data addr s = (Done (Some (next_id s)), opened data addr s)"
proof -
  have l: "length data = 66" using assms(1,2,9) by (simp add: USMP_HEADER_SIZE_def)
  have "py_slice 50 66 data = py_slice 38 54 (dev @ pc @ cookie_for (cookie_secret s) addr (time_bucket wall))"
    using frame_bytes_tail [of 38 54] by (simp add: assms(9))
  also have "\<dots> = cookie_for (cookie_secret s) addr (time_bucket wall)" using assms(1,2) by (simp add: py_slice_def)
  finally have "cookie_valid wall' data addr s"
    using time_bucket_next [OF assms(4,5)] by (auto simp: cookie_valid_def Let_def)
  moreover have "start_handshake now data addr s = (Done (Some (next_id s)), opened data addr s)"
    using assms(6-8) by (simp add: start_handshake_eq)
  moreover have "datagram_type data = Some 1" by (simp add: assms(9))
  ultimately show ?thesis using assms(3) l by (simp add: handle_udp_datagram_def Let_def)
qed

lemma toy_listener_fields:
  "dict_get (udp_handshakes toy_listener) addr = None" "\<not> peer_locked_out now ip toy_listener"
  "dict_get_or (udp_in_progress toy_listener) ip 0 = 0" "udp_handshakes toy_listener = []" "max_connections toy_listener = 100"
  "fst (allow_udp_cookie now ip (cookie_buckets toy_listener))" "next_id toy_listener = 0" "cookie_secret toy_listener = [1]"
  by (simp_all add: toy_listener_def peer_locked_out_def dict_get_def dict_get_or_def allow_udp_cookie_def refilled_def
      capacity_def Let_def)

definition toy_hello :: bytes where
  "toy_hello =
     frame_bytes USMP_VERSION HELLO 1 (replicate 6 1 @ replicate 32 2 @ cookie_for [1] (''h'', 5) (time_bucket 100))"

lemma toy_hello_starts:
  "handle_udp_datagram 0 110 toy_hello (''h'', 5) toy_listener = (Done (Some 0), opened toy_hello (''h'', 5) toy_listener)"
  using hello_with_cookie_starts [of "replicate 6 1" "replicate 32 2" toy_listener "(''h'', 5)" 100 110 0 toy_hello]
  by (simp add: toy_listener_fields toy_hello_def)

subsection \<open>Properties\<close>

text \<open>
  C10. A UDP handshake is started only for a peer that has shown it receives what is sent to its
  address: the datagram carries the cookie of exactly this address, issued in the current or
  the previous 30-second bucket under the server's secret, and no other address or bucket has
  the same MAC input. The peer is not locked out, has fewer than three handshakes in
  progress and none from this port, and fewer than twice the connection limit are running.
\<close>

theorem handshake_needs_cookie:
  assumes "handle_udp_datagram now wall data addr s = (Done (Some tid), s')"
  shows "\<exists>b. (b = \<lfloor>wall / 30\<rfloor> \<or> b = \<lfloor>wall / 30\<rfloor> - 1) \<and> length data = 66 \<and>
      drop 50 data = take 16 (hmac_sha256 (cookie_secret s) (cookie_msg addr b)) \<and>
      (\<forall>addr' b'. cookie_msg addr' b' = cookie_msg addr b \<longrightarrow> addr' = addr \<and> b' = b) \<and>
      \<not> peer_locked_out now (fst addr) s \<and> dict_get_or (udp_in_progress s) (fst addr) 0 < 3 \<and>
      dict_get (udp_handshakes s) addr = None \<and> int (length (udp_handshakes s)) < 2 * max_connections s"
  using assms
proof (cases rule: handle_udp_datagram_cases)
  case started
  have "py_slice 50 66 data = drop 50 data" using started(3) by (simp add: py_slice_def)
  then obtain b where "b = \<lfloor>wall / 30\<rfloor> \<or> b = \<lfloor>wall / 30\<rfloor> - 1" "drop 50 data = cookie_for (cookie_secret s) addr b"
    using started(4) by (auto simp: cookie_valid_def Let_def time_bucket_def)
  then show ?thesis using started by (intro exI [of _ b]) (auto simp: cookie_for_def cookie_msg_inj)
qed auto

theorem handshake_needs_cookie_witness:
  "\<exists>b. (b = \<lfloor>110 / 30 :: rat\<rfloor> \<or> b = \<lfloor>110 / 30 :: rat\<rfloor> - 1) \<and> drop 50 toy_hello = take 16 (hmac_sha256 [1] (cookie_msg (''h'', 5) b))"
  using handshake_needs_cookie [OF toy_hello_starts] by (auto simp: toy_listener_fields)

lemma udp_cookie_exchange:
  assumes "length dev = 6" "length pc = 32" "dict_get (udp_handshakes s) addr = None"
    and "fst (allow_udp_cookie now (fst addr) (cookie_buckets s))" "wall \<le> wall'" "wall' \<le> wall + 30"
    and "\<not> peer_locked_out now' (fst addr) s" "dict_get_or (udp_in_progress s) (fst addr) 0 < 3"
    and "int (length (udp_handshakes s)) < max_connections s * 2"
  shows "\<exists>cookie s1 s2 st. length cookie = 16 \<and>
    handle_udp_datagram now wall (frame_bytes USMP_VERSION HELLO 0 (dev @ pc)) addr s = (Done None, s1) \<and>
    udp_out s1 = udp_out s @ [(UTACK_MAGIC @ [1] @ le_bytes 4 0, addr), (frame_bytes USMP_VERSION HELLO_RETRY 0 cookie, addr)] \<and>
    heap s1 = heap s \<and> udp_handshakes s1 = udp_handshakes s \<and> udp_in_progress s1 = udp_in_progress s \<and>
    handle_udp_datagram now' wall' (frame_bytes USMP_VERSION HELLO 1 (dev @ pc @ cookie)) addr s1 = (Done (Some (next_id s)), s2) \<and>
    heap s2 (next_id s) = UdpEnd st \<and> failed_handshakes s2 = failed_handshakes s \<and>
    st = snd (feed_packet (frame_bytes USMP_VERSION HELLO 1 (dev @ pc @ cookie)) (UDPStream addr True)) \<and>
    read_buffer st = frame_bytes USMP_VERSION HELLO 1 (dev @ pc @ cookie)"
proof -
  let ?h1 = "frame_bytes USMP_VERSION HELLO 0 (dev @ pc)"
  let ?cookie = "cookie_for (cookie_secret s) addr (time_bucket wall)"
  let ?h2 = "frame_bytes USMP_VERSION HELLO 1 (dev @ pc @ ?cookie)"
  let ?s1 = "s\<lparr>cookie_buckets := snd (allow_udp_cookie now (fst addr) (cookie_buckets s)),
    udp_out := udp_out s @ cookie_answer wall ?h1 addr s\<rparr>"
  let ?st = "snd (feed_packet ?h2 (UDPStream addr True))"
  have l: "length ?h1 = 50" "length ?h2 = 66" using assms(1,2) by (simp_all add: USMP_HEADER_SIZE_def)
  obtain buckets where "allow_udp_cookie now (fst addr) (cookie_buckets s) = (True, buckets)"
    using assms(4) by (metis prod.collapse)
  then have 1: "handle_udp_datagram now wall ?h1 addr s = (Done None, ?s1)"
    using assms(3) l(1)
    by (simp add: handle_udp_datagram_def Let_def coro_bind_def issue_cookie_eq coro_return_def)
  have out: "cookie_answer wall ?h1 addr s =
      [(UTACK_MAGIC @ [1] @ le_bytes 4 0, addr), (frame_bytes USMP_VERSION HELLO_RETRY 0 ?cookie, addr)]"
    by (simp add: cookie_answer_def frame_bytes_type_seq retry_frame_def)
  have 2: "handle_udp_datagram now' wall' ?h2 addr ?s1 = (Done (Some (next_id s)), opened ?h2 addr ?s1)"
    using assms hello_with_cookie_starts [of dev pc ?s1 addr wall wall' now'] by (simp add: peer_locked_out_def)
  have "heap (opened ?h2 addr ?s1) (next_id s) = UdpEnd ?st" "failed_handshakes (opened ?h2 addr ?s1) = failed_handshakes s"
    by (simp_all add: opened_def)
  moreover have "read_buffer ?st = ?h2" using assms(1,2) by (intro fresh_stream_buffers) simp_all
  ultimately show ?thesis using 1 2 out
    by (intro exI [of _ ?cookie] exI [of _ ?s1] exI [of _ "opened ?h2 addr ?s1"] exI [of _ ?st]) simp
qed

text \<open>
  The cookie exchange works and keeps no state before the cookie comes back: a HELLO is
  acknowledged and answered with HELLO_RETRY, no stream or table entry being made; the second
  HELLO, with the cookie and from the same address within 30 seconds, starts a handshake whose
  stream holds that HELLO.
\<close>

lemma cookie_roundtrip:
  assumes "length dev = 6" "length pc = 32" "dict_get (udp_handshakes s) addr = None"
    and "fst (allow_udp_cookie now (fst addr) (cookie_buckets s))" "wall \<le> wall'" "wall' \<le> wall + 30"
    and "\<not> peer_locked_out now' (fst addr) s" "dict_get_or (udp_in_progress s) (fst addr) 0 < 3"
    and "int (length (udp_handshakes s)) < max_connections s * 2"
  shows "\<exists>cookie s1 s2 st. length cookie = 16 \<and>
    handle_udp_datagram now wall (frame_bytes USMP_VERSION HELLO 0 (dev @ pc)) addr s = (Done None, s1) \<and>
    udp_out s1 = udp_out s @ [(UTACK_MAGIC @ [1] @ le_bytes 4 0, addr), (frame_bytes USMP_VERSION HELLO_RETRY 0 cookie, addr)] \<and>
    heap s1 = heap s \<and> udp_handshakes s1 = udp_handshakes s \<and> udp_in_progress s1 = udp_in_progress s \<and>
    handle_udp_datagram now' wall' (frame_bytes USMP_VERSION HELLO 1 (dev @ pc @ cookie)) addr s1 = (Done (Some (next_id s)), s2) \<and>
    heap s2 (next_id s) = UdpEnd st \<and> read_buffer st = frame_bytes USMP_VERSION HELLO 1 (dev @ pc @ cookie)"
  using udp_cookie_exchange [OF assms] by blast

text \<open>
  C24. The listener does not amplify: what it sends itself in answer to a datagram (a stream's
  own acknowledgements apart) goes to the source of that datagram and is never more bytes than
  were received.
\<close>

theorem listener_no_amplification:
  "\<exists>out. udp_out (snd (handle_udp_datagram now wall data addr s)) = udp_out s @ out \<and>
     list_all (\<lambda>d. snd d = addr) out \<and> sum_list (map (\<lambda>d. length (fst d)) out) \<le> length data"
proof -
  obtain r s' where h: "handle_udp_datagram now wall data addr s = (r, s')" by fastforce
  then show ?thesis
  proof (cases rule: handle_udp_datagram_cases)
    case (issued buckets out)
    have "sum_list (map (\<lambda>d. length (fst d)) (cookie_answer wall data addr s)) \<le> length data"
      using issued(1) by (simp add: cookie_answer_def retry_frame_def UTACK_MAGIC_def length_py_slice USMP_HEADER_SIZE_def)
    then show ?thesis using h issued(3,5) by (intro exI [of _ out]) (auto simp: cookie_answer_def)
  qed (use h in \<open>auto simp: set_end_def opened_def\<close>)
qed

text \<open>
  Datagrams from one address do not disturb the others: every stream not registered for
  the source address is left untouched, and so are the session table, the handshake entries
  of other addresses, the handshake counts of other hosts, the TCP counts and the failure
  table.
\<close>

lemma datagram_isolation:
  assumes "handle_udp_datagram now wall data addr s = (r, s')"
  shows "(\<forall>i < next_id s. \<not> registered addr i s \<longrightarrow> heap s' i = heap s i) \<and> udp_sessions s' = udp_sessions s \<and>
    (\<forall>a. a \<noteq> addr \<longrightarrow> dict_get (udp_handshakes s') a = dict_get (udp_handshakes s) a) \<and>
    (\<forall>ip. ip \<noteq> fst addr \<longrightarrow> dict_get (udp_in_progress s') ip = dict_get (udp_in_progress s) ip) \<and>
    tcp_connections s' = tcp_connections s \<and> failed_handshakes s' = failed_handshakes s"
  using assms
  by (cases rule: handle_udp_datagram_cases) (auto simp: set_end_def opened_def dict_simps)

text \<open>
  Once a UDP session is registered, a retransmitted HELLO_ACK of the client is dropped
  without an acknowledgement, although the stream itself would acknowledge the duplicate: the
  listener looks for handshake packets only among the streams still in their handshake. A
  client whose UTACK for HELLO_ACK was lost therefore gets none of its five attempts
  acknowledged and fails, while the server holds the session.
\<close>

lemma late_hello_ack_dropped:
  assumes "heap s tid = UdpEnd st" "connect_established tid s = (True, s1)"
    and "length mac \<le> 480" "0 \<le> q" "q < 2 ^ 32" "d = frame_bytes USMP_VERSION HELLO_ACK q mac"
  shows "handle_udp_datagram now wall d (remote_addr st) s1 = (Done None, s1) \<and>
    (last_rx_type st = 3 \<longrightarrow> \<not> u_closed st \<longrightarrow> feed_packet d st = (Done (), sendto (utack_bytes 3 q st) st))"
proof -
  have "dict_get (udp_handshakes s1) (remote_addr st) = None"
    using assms(1,2) by (auto simp: connect_established_def Let_def dict_simps split: if_splits)
  then have "handle_udp_datagram now wall d (remote_addr st) s1 = (Done None, s1)"
    by (simp add: handle_udp_datagram_def Let_def assms(6))
  moreover have "feed_packet d st = (Done (), sendto (utack_bytes 3 q st) st)" if "last_rx_type st = 3" "\<not> u_closed st"
    using that assms(3-5) frame_bytes_not_utack [of USMP_VERSION HELLO_ACK q mac]
    by (simp add: assms(6) feed_packet_def feed_frame_eq datagram_ok_frame_bytes dg_frame_bytes handshake_duplicate_def)
  ultimately show ?thesis by blast
qed

end
