(* ===== verification/Udp_Handshake.thy ===== *)
theory Udp_Handshake
  imports Udp_Session Udp_Listener
begin

text \<open>
  The handshake over UDP from the client's first HELLO to two paired sessions: the cookie
  exchange with the listener, then the four messages over two streams, each message lost up to
  four times. A frame that arrives while the peer's coroutine reads is listed with the wait
  before that read (\<open>late_delivery\<close>).
\<close>

subsection \<open>Exchanges\<close>

text \<open>
  Delivering a frame in the wait for the UTACK that precedes it, or after that wait, makes no
  difference to the stream.
\<close>

lemma update_rtt_ignored:
  "is_server (update_rtt x st) = is_server st" "last_rx_type (update_rtt x st) = last_rx_type st"
  "pending_send_seq (update_rtt x st) = pending_send_seq st" "pending_send_type (update_rtt x st) = pending_send_type st"
  "remote_addr (update_rtt x st) = remote_addr st" "endpoint_closed (update_rtt x st) = endpoint_closed st"
  "utack_bytes t q (update_rtt x st) = utack_bytes t q st"
  "handshake_duplicate t (update_rtt x st) = handshake_duplicate t st"
  "utack_authentic d (update_rtt x st) = utack_authentic d st"
  by (simp_all add: update_rtt_def Let_def utack_bytes_def handshake_duplicate_def utack_authentic_def)

lemma update_rtt_commutes:
  "(update_rtt x st)\<lparr>ack_received := b\<rparr> = update_rtt x (st\<lparr>ack_received := b\<rparr>)"
  "(update_rtt x st)\<lparr>last_rx_type := t\<rparr> = update_rtt x (st\<lparr>last_rx_type := t\<rparr>)"
  "sendto d (update_rtt x st) = update_rtt x (sendto d st)"
  "(update_rtt x st)\<lparr>read_buffer := buf\<rparr> = update_rtt x (st\<lparr>read_buffer := buf\<rparr>)"
  by (simp_all add: update_rtt_def Let_def sendto_def)

lemma buffered_rtt: "buffered d (update_rtt x st) = update_rtt x (buffered d st)"
  by (simp add: buffered_def update_rtt_ignored update_rtt_commutes)

lemma late_delivery: "snd (feed_packet d (update_rtt x st)) = update_rtt x (snd (feed_packet d st))"
proof (cases "u_closed st \<or> (7 \<le> length d \<and> take 2 d = UTACK_MAGIC)")
  case True
  then show ?thesis
    by (auto simp: feed_packet_def UTACK_HEADER_LEN_def feed_utack_eq update_rtt_ignored update_rtt_commutes)
next
  case False
  have f: "feed_packet d st' = feed_frame d st'" if "u_closed st' = u_closed st" for st'
    using that False by (auto simp: feed_packet_def UTACK_HEADER_LEN_def)
  show ?thesis
    by (simp add: f feed_frame_eq update_rtt_ignored update_rtt_commutes buffered_rtt)
qed

subsection \<open>A stream during the handshake\<close>

type_synonym script = "(seconds \<times> bytes list) list"

definition plain_utack :: "packet_type \<Rightarrow> int \<Rightarrow> bytes" where
  "plain_utack ty q = UTACK_MAGIC @ [word_of_int (packet_type_value ty)] @ le_bytes 4 q"

text \<open>What matters of a stream: buffer, last type received, keys, datagrams sent and network to come.\<close>

definition hs_stream ::
  "addr \<Rightarrow> bool \<Rightarrow> bytes option \<times> bytes option \<Rightarrow> bytes \<Rightarrow> int \<Rightarrow> bytes list \<Rightarrow> script \<Rightarrow> udp_stream \<Rightarrow> bool"
where
  "hs_stream peer server keys buf ty log' script st \<longleftrightarrow>
     remote_addr st = peer \<and> is_server st = server \<and> (u_tx_key st, u_rx_key st) = keys \<and> read_buffer st = buf \<and>
     last_rx_type st = ty \<and> sent st = log' \<and> net st = script \<and> \<not> u_closed st \<and> last_rx_seq st = -1"

lemma hs_stream_rtt: "hs_stream pa sv k buf ty lg sc (update_rtt x st) = hs_stream pa sv k buf ty lg sc st"
  by (simp add: hs_stream_def update_rtt_ignored)

lemma handshake_frame_buffered:
  assumes "hs_stream pa sv (txk, rxk) [] ty lg sc st" "length p \<le> USMP_MAX_PAYLOAD" "0 \<le> q" "q < 2 ^ 32"
    and "packet_type_value t < 5 \<or> (t = HELLO_RETRY \<and> rxk = None)"
    and "packet_type_value t \<noteq> ty" "t = HELLO_RETRY \<longrightarrow> ty = -1" "t = CHALLENGE \<longrightarrow> ty \<noteq> 4"
    and "sv \<longrightarrow> ty = -1 \<or> ty < packet_type_value t"
  shows "hs_stream pa sv (txk, rxk) (frame_bytes USMP_VERSION t q p) (packet_type_value t) (lg @ [plain_utack t q]) sc
    (snd (feed_packet (frame_bytes USMP_VERSION t q p) st))"
proof -
  let ?d = "frame_bytes USMP_VERSION t q p"
  have d: "datagram_ok ?d" "dg_type ?d = packet_type_value t" "dg_seq ?d = q" "length ?d \<le> MAX_READ_BUFFER"
    using assms(2-4) by (simp_all add: datagram_ok_frame_bytes dg_frame_bytes usmp_consts MAX_READ_BUFFER_def)
  have n: "\<not> handshake_duplicate (packet_type_value t) st"
    using assms(1,6-9) packet_type_value_range [of t] by (cases t) (auto simp: handshake_duplicate_def hs_stream_def)
  have u: "utack_bytes (packet_type_value t) q (st\<lparr>last_rx_type := x\<rparr>) = plain_utack t q" for x
    using assms(1,5) by (auto simp: utack_bytes_def plain_utack_def hs_stream_def Let_def split: option.splits)
  have f: "packet_type_value t < 5 \<or> packet_type_value t = 0x0A" using assms(5) by auto
  have s: "snd (feed_packet ?d st) =
      (sendto (plain_utack t q) (st\<lparr>last_rx_type := packet_type_value t\<rparr>))\<lparr>read_buffer := ?d\<rparr>"
    using assms(1) frame_bytes_not_utack [of USMP_VERSION t q p] d n f
    by (simp add: feed_packet_def feed_frame_eq buffered_def u hs_stream_def)
  show ?thesis unfolding s using assms(1) by (simp add: hs_stream_def sendto_def)
qed

lemma plain_utack_accepted:
  assumes "packet_type_value t < 5" "0 \<le> q" "q < 2 ^ 32" "\<not> u_closed st" "pending_send_type st = Some (packet_type_value t)"
    and "pending_send_seq st = Some q"
  shows "feed_packet (plain_utack t q) st = (Done (), st\<lparr>ack_received := True\<rparr>)"
  using assms packet_type_value_range [of t] le_value_le_bytes [of q 4]
  by (simp add: feed_packet_def UTACK_HEADER_LEN_def feed_utack_eq plain_utack_def UTACK_MAGIC_def py_slice_def
      numeral_eq_Suc)

text \<open>How often a message was lost, and the wait that ends with its answer.\<close>

type_synonym losses = "seconds list \<times> seconds"

definition losses_ok :: "losses \<Rightarrow> bool" where
  "losses_ok f \<longleftrightarrow> length (fst f) < 5 \<and> snd f \<le> 1 / 20"

definition tries :: "losses \<Rightarrow> bytes \<Rightarrow> bytes list" where
  "tries f data = replicate (Suc (length (fst f))) data"

lemma hs_stream_sent:
  "hs_stream pa sv k buf ty lg sc st \<Longrightarrow>
    hs_stream pa sv k buf ty lg' sc' (st\<lparr>pending_send_type := a, pending_send_seq := b, pending_send_data := d, sent := lg',
      net := sc', ack_received := e\<rparr>)"
  by (simp add: hs_stream_def)

lemma hs_write:
  assumes "hs_stream pa sv k [] ty lg sc st" "sc = wait_for_answer (fst f) (snd f) (plain_utack t q # ds) @ rest" "losses_ok f"
    and "packet_type_value t < 5" "length p \<le> USMP_MAX_PAYLOAD" "0 \<le> q" "q < 2 ^ 32"
  obtains st1 where "hs_stream pa sv k [] ty (lg @ tries f (frame_bytes USMP_VERSION t q p)) rest st1"
    "udp_write_frame t p q st = (Done (), (if fst f = [] then update_rtt (snd f) else id) (deliver ds st1))"
proof
  let ?st = "st\<lparr>pending_send_type := Some (packet_type_value t), pending_send_seq := Some q, pending_send_data := None,
    sent := sent st @ tries f (frame_bytes USMP_VERSION t q p), net := rest, ack_received := True\<rparr>"
  show "hs_stream pa sv k [] ty (lg @ tries f (frame_bytes USMP_VERSION t q p)) rest ?st"
    using hs_stream_sent [OF assms(1)] assms(1) by (simp add: hs_stream_def)
  show "udp_write_frame t p q st = (Done (), (if fst f = [] then update_rtt (snd f) else id) (deliver ds ?st))"
    unfolding tries_def
    using assms plain_utack_accepted [OF assms(4,6,7)]
    by (intro udp_write_frame_answered [where u = "plain_utack t q"]) (simp_all add: hs_stream_def losses_ok_def)
qed

lemma hs_write_answered:
  assumes "hs_stream pa sv (txk, rxk) [] ty lg sc st"
    and "sc = wait_for_answer (fst f) (snd f) [plain_utack t q, frame_bytes USMP_VERSION t' q' p'] @ rest" "losses_ok f"
    and "packet_type_value t < 5" "length p \<le> USMP_MAX_PAYLOAD" "0 \<le> q" "q < 2 ^ 32"
    and "length p' \<le> USMP_MAX_PAYLOAD" "0 \<le> q'" "q' < 2 ^ 32"
    and "packet_type_value t' < 5 \<or> (t' = HELLO_RETRY \<and> rxk = None)"
    and "packet_type_value t' \<noteq> ty" "t' = HELLO_RETRY \<longrightarrow> ty = -1" "t' = CHALLENGE \<longrightarrow> ty \<noteq> 4"
    and "sv \<longrightarrow> ty = -1 \<or> ty < packet_type_value t'"
  obtains st2 where "udp_write_frame t p q st = (Done (), st2)"
    "hs_stream pa sv (txk, rxk) (frame_bytes USMP_VERSION t' q' p') (packet_type_value t')
      (lg @ tries f (frame_bytes USMP_VERSION t q p) @ [plain_utack t' q']) rest st2"
proof -
  obtain st1 where s: "hs_stream pa sv (txk, rxk) [] ty (lg @ tries f (frame_bytes USMP_VERSION t q p)) rest st1"
    and w: "udp_write_frame t p q st =
      (Done (), (if fst f = [] then update_rtt (snd f) else id) (deliver [frame_bytes USMP_VERSION t' q' p'] st1))"
    using hs_write [OF assms(1-7)] by blast
  have "hs_stream pa sv (txk, rxk) (frame_bytes USMP_VERSION t' q' p') (packet_type_value t')
      (lg @ tries f (frame_bytes USMP_VERSION t q p) @ [plain_utack t' q']) rest
      (deliver [frame_bytes USMP_VERSION t' q' p'] st1)"
    using handshake_frame_buffered [OF s assms(8-15)] by (simp add: deliver_def)
  then show ?thesis using w that by (cases "fst f = []") (simp_all add: hs_stream_rtt)
qed

lemma hs_read:
  assumes "hs_stream pa sv k (frame_bytes USMP_VERSION t q p) ty lg sc st" "length p \<le> USMP_MAX_PAYLOAD" "0 \<le> q" "q < 2 ^ 32"
  obtains st1 where "read_handshake_frame udp_ops st = (Done (mk_frame t p q), st1)" "hs_stream pa sv k [] ty lg sc st1"
proof
  have "udp_read_frame False st = (Done (mk_frame t p q), st\<lparr>read_buffer := []\<rparr>)"
    using assms by (intro udp_read_frame_frame) (simp_all add: hs_stream_def)
  then show "read_handshake_frame udp_ops st = (Done (mk_frame t p q), st\<lparr>read_buffer := []\<rparr>)"
    by (simp add: read_handshake_frame_simps)
  show "hs_stream pa sv k [] ty lg sc (st\<lparr>read_buffer := []\<rparr>)" using assms(1) by (simp add: hs_stream_def)
qed

text \<open>A message written and its answer read.\<close>

lemma hs_exchange:
  assumes "hs_stream pa sv (txk, rxk) [] ty lg sc st"
    and "sc = wait_for_answer (fst f) (snd f) [plain_utack t q, frame_bytes USMP_VERSION t' q' p'] @ rest" "losses_ok f"
    and "packet_type_value t < 5" "length p \<le> USMP_MAX_PAYLOAD" "0 \<le> q" "q < 2 ^ 32"
    and "length p' \<le> USMP_MAX_PAYLOAD" "0 \<le> q'" "q' < 2 ^ 32"
    and "packet_type_value t' < 5 \<or> (t' = HELLO_RETRY \<and> rxk = None)"
    and "packet_type_value t' \<noteq> ty" "t' = HELLO_RETRY \<longrightarrow> ty = -1" "t' = CHALLENGE \<longrightarrow> ty \<noteq> 4"
    and "sv \<longrightarrow> ty = -1 \<or> ty < packet_type_value t'"
  obtains st1 st2 where "udp_write_frame t p q st = (Done (), st1)"
    "read_handshake_frame udp_ops st1 = (Done (mk_frame t' p' q'), st2)"
    "hs_stream pa sv (txk, rxk) [] (packet_type_value t')
      (lg @ tries f (frame_bytes USMP_VERSION t q p) @ [plain_utack t' q']) rest st2"
  using hs_write_answered [OF assms] hs_read [OF _ assms(8-10)] by metis

subsection \<open>The client's run\<close>

definition hello_cookie_msg :: "bytes \<Rightarrow> bytes \<Rightarrow> bytes \<Rightarrow> bytes" where
  "hello_cookie_msg dev pc cookie = frame_bytes USMP_VERSION HELLO 1 (dev @ pc @ cookie)"

definition retry_msg :: "bytes \<Rightarrow> bytes" where
  "retry_msg cookie = frame_bytes USMP_VERSION HELLO_RETRY 0 cookie"

definition client_script :: "losses \<Rightarrow> losses \<Rightarrow> losses \<Rightarrow> bytes \<Rightarrow> bytes \<Rightarrow> bytes \<Rightarrow> script" where
  "client_script f1 f2 f3 retry challenge session_ok =
     wait_for_answer (fst f1) (snd f1) [plain_utack HELLO 0, retry] @
     wait_for_answer (fst f2) (snd f2) [plain_utack HELLO 1, challenge] @
     wait_for_answer (fst f3) (snd f3) [plain_utack HELLO_ACK 2, session_ok]"

lemma udp_client_run:
  fixes saddr :: addr
  assumes psk: "16 \<le> length psk" and ok: "losses_ok f1" "losses_ok f2" "losses_ok f3"
    and l: "length dev = 6" "length (x25519_public c priv) = 32" "length nonce = 32" "length ps = 32" "length sid = 16"
      "length cookie = 16"
    and keys: "derive_session_keys c priv ps nonce (x25519_public c priv) ps = Inr (kc, ks)"
    and i: "SessionInfo dev sid kc ks = Inr ci"
  defines "pc \<equiv> x25519_public c priv"
  defines "script \<equiv> client_script f1 f2 f3 (retry_msg cookie) (challenge_msg nonce ps) (session_ok_msg psk nonce sid pc ps)"
  shows "\<exists>ct. client_handshake c udp_ops (Some psk) (Some dev) priv ((UDPStream saddr False)\<lparr>net := script\<rparr>) = (Done ci, ct) \<and>
    hs_stream saddr False (Some kc, Some ks) [] 4
      (tries f1 (hello_msg dev pc) @ [plain_utack HELLO_RETRY 0] @ tries f2 (hello_cookie_msg dev pc cookie) @
       [plain_utack CHALLENGE 0] @ tries f3 (hello_ack_msg psk nonce dev pc ps) @ [plain_utack SESSION_OK 0]) [] ct"
proof -
  let ?ok = "sid @ hmac_sha256 psk (server_transcript nonce sid pc ps)"
  have pl: "length pc = 32" using l by (simp add: pc_def)
  let ?sc3 = "wait_for_answer (fst f3) (snd f3) [plain_utack HELLO_ACK 2, session_ok_msg psk nonce sid pc ps]"
  let ?sc2 = "wait_for_answer (fst f2) (snd f2) [plain_utack HELLO 1, challenge_msg nonce ps] @ ?sc3"
  let ?l1 = "tries f1 (hello_msg dev pc) @ [plain_utack HELLO_RETRY 0]"
  let ?l2 = "?l1 @ tries f2 (hello_cookie_msg dev pc cookie) @ [plain_utack CHALLENGE 0]"
  let ?l3 = "?l2 @ tries f3 (hello_ack_msg psk nonce dev pc ps) @ [plain_utack SESSION_OK 0]"
  have s0: "hs_stream saddr False (None, None) [] (-1) [] script ((UDPStream saddr False)\<lparr>net := script\<rparr>)"
    by (simp add: hs_stream_def UDPStream_def)
  have sc: "script = wait_for_answer (fst f1) (snd f1) [plain_utack HELLO 0, frame_bytes USMP_VERSION HELLO_RETRY 0 cookie] @ ?sc2"
    "?sc2 = wait_for_answer (fst f2) (snd f2) [plain_utack HELLO 1, frame_bytes USMP_VERSION CHALLENGE 0 (nonce @ ps)] @ ?sc3"
    "?sc3 = wait_for_answer (fst f3) (snd f3) [plain_utack HELLO_ACK 2, frame_bytes USMP_VERSION SESSION_OK 0 ?ok] @ []"
    by (simp_all add: script_def client_script_def retry_msg_def challenge_msg_def session_ok_msg_def)
  obtain st1 st2 where w1: "udp_write_frame HELLO (dev @ pc) 0 ((UDPStream saddr False)\<lparr>net := script\<rparr>) = (Done (), st1)"
      "read_handshake_frame udp_ops st1 = (Done (mk_frame HELLO_RETRY cookie 0), st2)"
    and s2: "hs_stream saddr False (None, None) [] 10 ?l1 ?sc2 st2"
    using hs_exchange [OF s0 sc(1) ok(1), of "dev @ pc"] l pl by (auto simp: usmp_consts hello_msg_def)
  obtain st3 st4 where w2: "udp_write_frame HELLO (dev @ pc @ cookie) 1 st2 = (Done (), st3)"
      "read_handshake_frame udp_ops st3 = (Done (mk_frame CHALLENGE (nonce @ ps) 0), st4)"
    and s4: "hs_stream saddr False (None, None) [] 2 ?l2 ?sc3 st4"
    using hs_exchange [OF s2 sc(2) ok(2), of "dev @ pc @ cookie"] l pl by (auto simp: usmp_consts hello_cookie_msg_def)
  obtain st5 st6 where w3: "udp_write_frame HELLO_ACK (hmac_sha256 psk (client_transcript nonce dev pc ps)) 2 st4 = (Done (), st5)"
      "read_handshake_frame udp_ops st5 = (Done (mk_frame SESSION_OK ?ok 0), st6)"
    and s6: "hs_stream saddr False (None, None) [] 4 ?l3 [] st6"
    using hs_exchange [OF s4 sc(3) ok(3), of "hmac_sha256 psk (client_transcript nonce dev pc ps)"] l
    by (auto simp: usmp_consts hello_ack_msg_def)
  let ?ct = "udp_set_session_keys kc ks st6"
  have "client_handshake c udp_ops (Some psk) (Some dev) priv ((UDPStream saddr False)\<lparr>net := script\<rparr>) = (Done ci, ?ct)"
    using psk l pl w1 w2 w3 keys i
    by (simp add: client_handshake_def client_answer_def coro_bind_def coro_require_def coro_return_def coro_raise_def
        coro_lift_def coro_modify_def Let_def usmp_consts generate_keypair_def py_slice_append_right flip: pc_def)
  moreover have "hs_stream saddr False (Some kc, Some ks) [] 4
      (tries f1 (hello_msg dev pc) @ [plain_utack HELLO_RETRY 0] @ tries f2 (hello_cookie_msg dev pc cookie) @
       [plain_utack CHALLENGE 0] @ tries f3 (hello_ack_msg psk nonce dev pc ps) @ [plain_utack SESSION_OK 0]) [] ?ct"
    using s6 by (simp add: hs_stream_def udp_set_session_keys_def)
  ultimately show ?thesis by blast
qed

subsection \<open>The server's run\<close>

definition server_script :: "losses \<Rightarrow> losses \<Rightarrow> bytes \<Rightarrow> script" where
  "server_script f4 f5 hello_ack =
     wait_for_answer (fst f4) (snd f4) [plain_utack CHALLENGE 0, hello_ack] @
     wait_for_answer (fst f5) (snd f5) [plain_utack SESSION_OK 0]"

text \<open>The stream the listener makes for a HELLO with a cookie, with its network.\<close>

definition opened_stream :: "addr \<Rightarrow> bytes \<Rightarrow> script \<Rightarrow> udp_stream" where
  "opened_stream addr hello sc = (snd (feed_packet hello (UDPStream addr True)))\<lparr>net := sc\<rparr>"

lemma opened_stream_hs:
  assumes "length dev = 6" "length pc = 32" "length cookie = 16"
  shows "hs_stream addr True (None, None) (hello_cookie_msg dev pc cookie) 1 [plain_utack HELLO 1] sc
    (opened_stream addr (hello_cookie_msg dev pc cookie) sc)"
proof -
  have "hs_stream addr True (None, None) [] (-1) [] [] (UDPStream addr True)" by (simp add: hs_stream_def UDPStream_def)
  from handshake_frame_buffered [OF this, of "dev @ pc @ cookie" 1 HELLO] show ?thesis
    using assms by (simp add: opened_stream_def hello_cookie_msg_def hs_stream_def usmp_consts)
qed

lemma udp_server_run:
  fixes addr :: addr and conn :: string and now nf :: seconds
  assumes ok: "losses_ok f4" "losses_ok f5"
    and l: "length dev = 6" "length pc = 32" "length nonce = 32" "length (x25519_public c priv) = 32" "length sid = 16"
      "length cookie = 16"
    and psk: "resolve_psk src dev = Inr psk"
    and keys: "derive_session_keys c priv pc nonce pc (x25519_public c priv) = Inr (kc, ks)"
    and i: "SessionInfo dev sid ks kc = Inr si" and free: "dict_get tbl (fst addr) = None"
  defines "ps \<equiv> x25519_public c priv"
  defines "st0 \<equiv> opened_stream addr (hello_cookie_msg dev pc cookie) (server_script f4 f5 (hello_ack_msg psk nonce dev pc ps))"
  shows "\<exists>st. server_handshake c udp_ops src conn priv nonce sid now nf (st0, tbl) = (Done si, st, dict_pop tbl (fst addr)) \<and>
    hs_stream addr True (Some ks, Some kc) [] 3
      ([plain_utack HELLO 1] @ tries f4 (challenge_msg nonce ps) @ [plain_utack HELLO_ACK 2] @
       tries f5 (session_ok_msg psk nonce sid pc ps)) [] st"
proof -
  let ?ack = "hmac_sha256 psk (client_transcript nonce dev pc ps)"
  let ?ok = "sid @ hmac_sha256 psk (server_transcript nonce sid pc ps)"
  let ?sc2 = "wait_for_answer (fst f5) (snd f5) [plain_utack SESSION_OK 0]"
  let ?l2 = "[plain_utack HELLO 1] @ tries f4 (challenge_msg nonce ps) @ [plain_utack HELLO_ACK 2]"
  have pl: "length ps = 32" using l by (simp add: ps_def)
  have s0: "hs_stream addr True (None, None) (frame_bytes USMP_VERSION HELLO 1 (dev @ pc @ cookie)) 1 [plain_utack HELLO 1]
      (server_script f4 f5 (hello_ack_msg psk nonce dev pc ps)) st0"
    using opened_stream_hs [OF l(1,2,6)] by (simp add: st0_def hello_cookie_msg_def)
  obtain st1 where r1: "read_handshake_frame udp_ops st0 = (Done (mk_frame HELLO (dev @ pc @ cookie) 1), st1)"
    and s1: "hs_stream addr True (None, None) [] 1 [plain_utack HELLO 1]
      (server_script f4 f5 (hello_ack_msg psk nonce dev pc ps)) st1"
    using hs_read [OF s0] l by (auto simp: usmp_consts)
  have sc: "server_script f4 f5 (hello_ack_msg psk nonce dev pc ps) =
      wait_for_answer (fst f4) (snd f4) [plain_utack CHALLENGE 0, frame_bytes USMP_VERSION HELLO_ACK 2 ?ack] @ ?sc2"
    "?sc2 = wait_for_answer (fst f5) (snd f5) (plain_utack SESSION_OK 0 # []) @ []"
    by (simp_all add: server_script_def hello_ack_msg_def)
  obtain st2 st3 where w2: "udp_write_frame CHALLENGE (nonce @ ps) 0 st1 = (Done (), st2)"
      "read_handshake_frame udp_ops st2 = (Done (mk_frame HELLO_ACK ?ack 2), st3)"
    and s3: "hs_stream addr True (None, None) [] 3 ?l2 ?sc2 st3"
    using hs_exchange [OF s1 sc(1) ok(1), of "nonce @ ps"] l pl by (auto simp: usmp_consts challenge_msg_def)
  have s4: "hs_stream addr True (Some ks, Some kc) [] 3 ?l2 ?sc2 (udp_set_session_keys ks kc st3)"
    using s3 by (simp add: hs_stream_def udp_set_session_keys_def)
  obtain st5 where s5: "hs_stream addr True (Some ks, Some kc) [] 3 (?l2 @ tries f5 (session_ok_msg psk nonce sid pc ps)) [] st5"
    and w3: "udp_write_frame SESSION_OK ?ok 0 (udp_set_session_keys ks kc st3) =
      (Done (), (if fst f5 = [] then update_rtt (snd f5) else id) (deliver [] st5))"
    using hs_write [OF s4 sc(2) ok(2), of ?ok] l by (auto simp: usmp_consts session_ok_msg_def)
  let ?st = "(if fst f5 = [] then update_rtt (snd f5) else id) st5"
  have "py_slice 0 32 (pc @ cookie) = pc" using l by (simp add: py_slice_def)
  then have "server_exchange c udp_ops src priv nonce sid st0 = (Done (dev, sid, ks, kc), ?st)"
    using l pl psk keys r1 w2 w3
    by (simp add: server_exchange_def server_verify_def coro_bind_def coro_require_def coro_return_def coro_raise_def
        coro_lift_def coro_modify_def Let_def usmp_consts generate_keypair_def py_slice_append_right List.member_iff
        deliver_def flip: ps_def)
  moreover have "limiter_key conn (t_peername udp_ops st0) = fst addr"
    using s0 by (simp add: udp_ops_def limiter_key_def hs_stream_def split: prod.splits)
  moreover have "\<nexists>n l a. dict_get tbl (fst addr) = Some (n, l, a) \<and> l > now" using free by simp
  ultimately have "server_handshake c udp_ops src conn priv nonce sid now nf (st0, tbl) = (Done si, ?st, dict_pop tbl (fst addr))"
    using server_handshake_run [of conn udp_ops st0 "fst addr" tbl now c src priv nonce sid nf] i by simp
  moreover have "hs_stream addr True (Some ks, Some kc) [] 3
      ([plain_utack HELLO 1] @ tries f4 (challenge_msg nonce ps) @ [plain_utack HELLO_ACK 2] @
       tries f5 (session_ok_msg psk nonce sid pc ps)) [] ?st"
    using s5 by (simp add: hs_stream_rtt)
  ultimately show ?thesis by blast
qed

subsection \<open>Agreement\<close>

definition udp_session_of :: "udp_stream \<Rightarrow> session_info \<Rightarrow> (nat \<Rightarrow> seconds) \<Rightarrow> udp_stream session" where
  "udp_session_of st i clk = USMPSession st i None clk"

lemma hs_streams_paired:
  assumes "hs_stream pa sv (Some kc, Some ks) [] ty lg [] ct" "hs_stream pb sv' (Some ks, Some kc) [] ty' lg' [] st"
  shows "udp_paired kc (udp_session_of ct (fresh_info dev sid kc ks) clk) (udp_session_of st (fresh_info dev sid ks kc) clk')"
    "udp_paired ks (udp_session_of st (fresh_info dev sid ks kc) clk') (udp_session_of ct (fresh_info dev sid kc ks) clk)"
  using assms
  by (auto simp: udp_paired_def sender_open_def receiver_open_def in_step_def hs_stream_def udp_session_of_def
      USMPSession_def fresh_info_def)

lemma udp_honest_runs:
  fixes saddr addr :: addr and conn :: string and now nf :: seconds
  assumes "x25519_sized c" "dh_commutes c" "hkdf_sized c"
    and "length dev = 6" "length nonce = 32" "length sid = 16" "length cookie = 16" "resolve_psk src dev = Inr psk"
    and "derive_session_keys c a (x25519_public c b) nonce (x25519_public c a) (x25519_public c b) = Inr (kc, ks)"
    and "dict_get tbl (fst addr) = None" "list_all losses_ok [f1, f2, f3, f4, f5]"
  defines "pc \<equiv> x25519_public c a" and "ps \<equiv> x25519_public c b"
  defines "cs \<equiv> client_script f1 f2 f3 (retry_msg cookie) (challenge_msg nonce ps) (session_ok_msg psk nonce sid pc ps)"
    and "ss \<equiv> server_script f4 f5 (hello_ack_msg psk nonce dev pc ps)"
  shows "\<exists>ct st. client_handshake c udp_ops (Some psk) (Some dev) a ((UDPStream saddr False)\<lparr>net := cs\<rparr>) =
      (Done (fresh_info dev sid kc ks), ct) \<and>
    server_handshake c udp_ops src conn b nonce sid now nf (opened_stream addr (hello_cookie_msg dev pc cookie) ss, tbl) =
      (Done (fresh_info dev sid ks kc), st, dict_pop tbl (fst addr)) \<and>
    (\<exists>lc. hs_stream saddr False (Some kc, Some ks) [] 4 lc [] ct \<and>
       {hello_msg dev pc, hello_cookie_msg dev pc cookie} \<union> set (concat (map snd ss)) \<subseteq> set lc) \<and>
    (\<exists>ls. hs_stream addr True (Some ks, Some kc) [] 3 ls [] st \<and>
       set (concat (map snd cs)) \<subseteq> {plain_utack HELLO 0, retry_msg cookie} \<union> set ls)"
proof -
  have pl: "length pc = 32" "length ps = 32" using assms(1) by (simp_all add: x25519_sized_def pc_def ps_def)
  have "length kc = 32" "length ks = 32" using derive_session_keys_length [OF assms(3,9)] by simp_all
  then have i: "SessionInfo dev sid ks kc = Inr (fresh_info dev sid ks kc)" "SessionInfo dev sid kc ks = Inr (fresh_info dev sid kc ks)"
    using assms(4,6) by (simp_all add: SessionInfo_Inr fresh_info_def)
  have k: "derive_session_keys c b pc nonce pc ps = Inr (kc, ks)"
    using session_keys_agree [OF assms(1,2), of a b nonce] assms(9) by (simp add: pc_def ps_def)
  have psk: "16 \<le> length psk" using assms(8) by (rule resolve_psk_long)
  have f: "losses_ok f1" "losses_ok f2" "losses_ok f3" "losses_ok f4" "losses_ok f5" using assms(11) by simp_all
  have t: "set (tries f d) = {d}" for f d unfolding tries_def set_replicate_Suc ..
  obtain ct where ct: "client_handshake c udp_ops (Some psk) (Some dev) a ((UDPStream saddr False)\<lparr>net := cs\<rparr>) =
        (Done (fresh_info dev sid kc ks), ct)"
      "hs_stream saddr False (Some kc, Some ks) [] 4
        (tries f1 (hello_msg dev pc) @ [plain_utack HELLO_RETRY 0] @ tries f2 (hello_cookie_msg dev pc cookie) @
         [plain_utack CHALLENGE 0] @ tries f3 (hello_ack_msg psk nonce dev pc ps) @ [plain_utack SESSION_OK 0]) [] ct"
    using udp_client_run [OF psk f(1-3) assms(4) pl(1) [unfolded pc_def] assms(5) pl(2) assms(6,7)
        assms(9) [folded ps_def] i(2), of saddr, folded pc_def] by (auto simp: cs_def)
  obtain st where st: "server_handshake c udp_ops src conn b nonce sid now nf
        (opened_stream addr (hello_cookie_msg dev pc cookie) ss, tbl) =
        (Done (fresh_info dev sid ks kc), st, dict_pop tbl (fst addr))"
      "hs_stream addr True (Some ks, Some kc) [] 3
        ([plain_utack HELLO 1] @ tries f4 (challenge_msg nonce ps) @ [plain_utack HELLO_ACK 2] @
         tries f5 (session_ok_msg psk nonce sid pc ps)) [] st"
    using udp_server_run [OF f(4,5) assms(4) pl(1) assms(5) pl(2) [unfolded ps_def] assms(6-8) k [unfolded ps_def] i(1)
        assms(10), of conn now nf, folded ps_def] by (auto simp: ss_def)
  let ?lc = "tries f1 (hello_msg dev pc) @ [plain_utack HELLO_RETRY 0] @ tries f2 (hello_cookie_msg dev pc cookie) @
         [plain_utack CHALLENGE 0] @ tries f3 (hello_ack_msg psk nonce dev pc ps) @ [plain_utack SESSION_OK 0]"
  let ?ls = "[plain_utack HELLO 1] @ tries f4 (challenge_msg nonce ps) @ [plain_utack HELLO_ACK 2] @
         tries f5 (session_ok_msg psk nonce sid pc ps)"
  have "set (concat (map snd ss)) \<subseteq>
      {plain_utack CHALLENGE 0, hello_ack_msg psk nonce dev pc ps, plain_utack SESSION_OK 0}"
    by (auto simp: ss_def server_script_def wait_for_answer_def)
  then have "{hello_msg dev pc, hello_cookie_msg dev pc cookie} \<union> set (concat (map snd ss)) \<subseteq> set ?lc"
    unfolding set_append t by auto
  moreover have "set (concat (map snd cs)) \<subseteq>
      {plain_utack HELLO 0, retry_msg cookie, plain_utack HELLO 1, challenge_msg nonce ps, plain_utack HELLO_ACK 2,
       session_ok_msg psk nonce sid pc ps}"
    by (auto simp: cs_def client_script_def wait_for_answer_def)
  then have "set (concat (map snd cs)) \<subseteq> {plain_utack HELLO 0, retry_msg cookie} \<union> set ?ls"
    unfolding set_append t by auto
  ultimately show ?thesis using ct st by blast
qed



end
