(* ===== verification/Rekey_Races.thy ===== *)
theory Rekey_Races
  imports Reassembly
begin

text \<open>
  What in-band rekeying does to frames that are already on their way. The initiator of
  \<open>rekey\<close> switches both keys and both counters as soon as its REKEY frame is written, before
  the peer has read it; what the peer sent until then is sealed under the old key and numbered
  by the old counter.
\<close>

subsection \<open>A frame with the wrong number\<close>

lemma decrypt_Inl_crypto:
  assumes "decrypt c key nonce q (packet_type_value ty) USMP_VERSION USMP_MAGIC (int (length ct)) ct suite = Inl e"
    and "length ct \<le> USMP_MAX_PAYLOAD" "0 \<le> q" "q < 2 ^ 32"
  shows "e = CryptoError"
proof -
  have "\<exists>aad. build_aad USMP_MAGIC USMP_VERSION (packet_type_value ty) q (int (length ct)) = Inr aad"
    using assms(2-4) packet_type_value_range [of ty] by (simp add: build_aad_Inr usmp_consts)
  then show ?thesis using assms(1) by (auto simp: decrypt_def split: if_splits sum.splits)
qed

lemma tcp_recv_turn_stale:
  assumes "rbuf (transport s) = frame_bytes USMP_VERSION ty q ct @ rest" "length ct \<le> USMP_MAX_PAYLOAD" "0 \<le> q" "q < 2 ^ 32"
    and "q \<noteq> rx_seq (info s)"
  shows "\<exists>e s'. recv_turn c tcp_ops clk l s = (Raise e, s') \<and> e \<in> {CryptoError, SequenceError}"
proof -
  have r: "tcp_read_frame True (transport s) = (Done (mk_frame ty ct q), (transport s)\<lparr>rbuf := rest\<rparr>)"
    using assms(1-4) by (intro tcp_read_frame_frame)
  have p: "pack_I q = Inr (le_bytes 4 q)" using assms(3,4) by (simp add: I.pack_in_range)
  let ?d = "decrypt c (rx_key (info s)) (le_bytes 4 q @ take 8 (session_id (info s))) q (packet_type_value ty) USMP_VERSION
    USMP_MAGIC (int (length ct)) ct (cipher_suite (info s))"
  show ?thesis
  proof (cases ?d)
    case (Inl e)
    have "e = CryptoError" using Inl assms(2-4) decrypt_Inl_crypto by blast
    then show ?thesis
      using Inl r p
      by (simp add: recv_turn_def receive_frame_def coro_catch_def coro_bind_def on_transport_def coro_lift_def Let_def)
  next
    case (Inr pt)
    then show ?thesis
      using assms(5) r p
      by (simp add: recv_turn_def receive_frame_def coro_catch_def coro_bind_def on_transport_def coro_lift_def Let_def
          monotonic_def accept_seq_def)
  qed
qed

lemma tcp_recv_stale:
  assumes "rbuf (transport s) = frame_bytes USMP_VERSION ty q ct @ rest" "length ct \<le> USMP_MAX_PAYLOAD" "0 \<le> q" "q < 2 ^ 32"
    and "q \<noteq> rx_seq (info s)" "0 < fuel"
  shows "\<exists>e s'. recv fuel c tcp_ops clk timeout s = Some (Raise e, s') \<and> e \<in> {CryptoError, SequenceError}"
proof -
  let ?l = "initial_locals (clk (ticks s))"
  obtain k where k: "fuel = Suc k" using assms(6) by (cases fuel) auto
  obtain e s' where e: "recv_turn c tcp_ops clk ?l (s\<lparr>ticks := Suc (ticks s)\<rparr>) = (Raise e, s')" "e \<in> {CryptoError, SequenceError}"
    using tcp_recv_turn_stale [of "s\<lparr>ticks := Suc (ticks s)\<rparr>" ty q ct rest c clk ?l] assms(1-5) by auto
  then have "\<not> catches [TimeoutError] e" by (auto simp: catches_def)
  then show ?thesis using e by (auto simp: recv_def recv_internal_eq k Let_def)
qed

subsection \<open>The first frame of a message\<close>

lemma tcp_send_first_frame:
  assumes "sender_ok c (info s)" "tcp_live (transport s)" "length data \<le> USMP_MAX_DATA_LEN * USMP_MAX_FRAMES"
    and "tx_seq (info s) + int USMP_MAX_FRAMES \<le> 0xFFFFFFFF"
  obtains s' w ty ct w' where "send c tcp_ops data s = (Done (), s')" "wbuf (transport s') = wbuf (transport s) @ w"
    "delivers c clk (info s) w data" "w = frame_bytes USMP_VERSION ty (tx_seq (info s)) ct @ w'"
    "length ct \<le> USMP_MAX_PAYLOAD"
proof -
  let ?q = "tx_seq (info s)" and ?tl = "drop USMP_MAX_DATA_LEN data"
  obtain ty chunk frs where f: "fragments data = (ty, chunk) # frs" "length chunk \<le> USMP_MAX_DATA_LEN" "frs = [] \<or> frs = fragments ?tl"
    by (cases "length data \<le> USMP_MAX_DATA_LEN") (auto simp: fragments.simps [of data])
  have n: "frames_of data \<le> USMP_MAX_FRAMES" using assms(3) by (intro frames_of_le) (simp_all add: USMP_MAX_FRAMES_def)
  have n': "frs = fragments ?tl \<Longrightarrow> frames_of data = Suc (frames_of ?tl)" using f(1) by (simp add: frames_of_def)
  obtain ct where ct: "seal c ty chunk (info s) = Inr (ct, ?q, (info s)\<lparr>tx_seq := ?q + 1\<rparr>)"
    using seal_ok [of c "info s" chunk ty] assms(1,4) f(2) by (auto simp: sender_ok_def USMP_MAX_FRAMES_def)
  let ?w = "frame_bytes USMP_VERSION ty ?q ct"
  let ?s = "s\<lparr>info := (info s)\<lparr>tx_seq := ?q + 1\<rparr>, transport := (transport s)\<lparr>wbuf := wbuf (transport s) @ ?w\<rparr>\<rparr>"
  note first = tcp_send_locked [OF assms(1) ct f(2) assms(2)]
  obtain s' w' where rest: "send_all c tcp_ops frs ?s = (Done (), s')" "wbuf (transport s') = wbuf (transport ?s) @ w'"
  proof (cases "frs = []")
    case True
    then show thesis by (intro that [of ?s "[]"]) simp_all
  next
    case False
    then have frs: "frs = fragments ?tl" using f(3) by simp
    have "sender_ok c (info ?s)" "tcp_live (transport ?s)" "tx_seq (info ?s) + int (frames_of ?tl) \<le> 0xFFFFFFFF"
      using assms(1,2,4) n n' [OF frs] by (simp_all add: sender_ok_def)
    from tcp_send_all_delivers [OF this, of clk] frs show thesis by (auto intro: that)
  qed
  obtain w s2 where w: "send c tcp_ops data s = (Done (), s2)" "wbuf (transport s2) = wbuf (transport s) @ w"
      "delivers c clk (info s) w data"
    using tcp_send_delivers [OF assms, of clk] by auto
  have "send c tcp_ops data s = (Done (), s')"
    using assms(3) send_loop_fragments [of 0 data c tcp_ops s] first rest(1) by (auto simp: send_def f(1))
  then have "w = ?w @ w'" using w(1,2) rest(2) by simp
  then show thesis using that [OF w] sealed_frame [OF assms(1) ct f(2)] by blast
qed

subsection \<open>Properties\<close>

lemma tcp_rekey_run:
  assumes "sender_ok c (info s)" "tcp_live (transport s)" "tx_seq (info s) < 0xFFFFFFFF" "length salt = 32"
  shows "\<exists>s' ct. rekey c tcp_ops salt s = (Done (), s') \<and> rx_seq (info s') = 0 \<and> tx_seq (info s') = 0 \<and>
    transport s' = (transport s)\<lparr>wbuf := wbuf (transport s) @ frame_bytes USMP_VERSION REKEY (tx_seq (info s)) ct\<rparr> \<and>
    length ct \<le> USMP_MAX_PAYLOAD"
proof -
  have len: "length salt \<le> USMP_MAX_DATA_LEN" using assms(4) by (simp add: usmp_consts)
  obtain ct where ct: "seal c REKEY salt (info s) = Inr (ct, tx_seq (info s), (info s)\<lparr>tx_seq := tx_seq (info s) + 1\<rparr>)"
    using seal_ok [of c "info s" salt REKEY] assms(1,3) len by (auto simp: sender_ok_def)
  show ?thesis
    using sealed_frame [OF assms(1) ct len]
    by (auto simp: rekey_def coro_bind_def tcp_send_locked [OF assms(1) ct len assms(2)] rotate_keys_def split: prod.splits)
qed

text \<open>
  C25. A message that is on its way when the receiver of it calls \<open>rekey\<close> is lost, and over TCP
  the session with it. The message \<open>data\<close>, sent with a sequence number above 0, would be
  received; but if the receiving end rekeys first, its next \<open>recv\<close> raises \<open>CryptoError\<close> or
  \<open>SequenceError\<close> on the same bytes, whatever the new keys are.
\<close>

theorem rekey_loses_frames_in_flight:
  assumes "sender_ok c (info a)" "sender_ok c (info b)" "tcp_live (transport a)" "tcp_live (transport b)"
    and "paired (info b) (info a)" "tx_seq (info a) < 0xFFFFFFFF" "length salt = 32"
    and "length data \<le> USMP_MAX_DATA_LEN * USMP_MAX_FRAMES" "tx_seq (info b) + int USMP_MAX_FRAMES \<le> 0xFFFFFFFF"
    and "0 < tx_seq (info b)" "USMP_MAX_FRAMES \<le> fuel"
  shows "\<exists>w b' a1 a2 a3 e. send c tcp_ops data b = (Done (), b') \<and> wbuf (transport b') = wbuf (transport b) @ w \<and>
    recv fuel c tcp_ops clk timeout (with_input (w @ rest) a) = Some (Done data, a1) \<and>
    rekey c tcp_ops salt a = (Done (), a2) \<and>
    recv fuel c tcp_ops clk timeout (with_input (w @ rest) a2) = Some (Raise e, a3) \<and> e \<in> {CryptoError, SequenceError}"
proof -
  obtain b' w ty ct w' where w: "send c tcp_ops data b = (Done (), b')" "wbuf (transport b') = wbuf (transport b) @ w"
      "delivers c clk (info b) w data" "w = frame_bytes USMP_VERSION ty (tx_seq (info b)) ct @ w'" "length ct \<le> USMP_MAX_PAYLOAD"
    using tcp_send_first_frame [OF assms(2,4,8,9)] by blast
  have n: "frames_of data \<le> USMP_MAX_FRAMES" using assms(8) by (intro frames_of_le) (simp_all add: USMP_MAX_FRAMES_def)
  obtain a1 where a1: "recv fuel c tcp_ops clk timeout (with_input (w @ rest) a) = Some (Done data, a1)"
    using delivers_recv [OF w(3) assms(5) n order.trans [OF n assms(11)]] by blast
  obtain a2 where a2: "rekey c tcp_ops salt a = (Done (), a2)" "rx_seq (info a2) = 0"
    using tcp_rekey_run [OF assms(1,3,6,7)] by blast
  have "\<exists>e s'. recv fuel c tcp_ops clk timeout (with_input (w @ rest) a2) = Some (Raise e, s') \<and> e \<in> {CryptoError, SequenceError}"
    using w(4,5) a2(2) assms(9-11)
    by (intro tcp_recv_stale [where ty = ty and q = "tx_seq (info b)" and ct = ct and rest = "w' @ rest"])
      (simp_all add: USMP_MAX_FRAMES_def)
  then show ?thesis using w(1,2) a1 a2(1) by blast
qed

text \<open>
  Two ends that rekey at the same time break the session: each has switched keys and counters
  before it reads the other's REKEY frame, and its next \<open>recv\<close> raises.
\<close>

lemma crossing_rekeys_break_session:
  assumes "sender_ok c (info a)" "sender_ok c (info b)" "tcp_live (transport a)" "tcp_live (transport b)"
    and "tx_seq (info a) < 0xFFFFFFFF" "tx_seq (info b) < 0xFFFFFFFF" "length salt = 32" "length salt' = 32"
    and "0 < tx_seq (info a)" "0 < tx_seq (info b)" "0 < fuel"
  shows "\<exists>wa wb a' b' e e' a2 b2. rekey c tcp_ops salt a = (Done (), a') \<and> wbuf (transport a') = wbuf (transport a) @ wa \<and>
    rekey c tcp_ops salt' b = (Done (), b') \<and> wbuf (transport b') = wbuf (transport b) @ wb \<and>
    recv fuel c tcp_ops clk timeout (with_input (wb @ rest) a') = Some (Raise e, a2) \<and> e \<in> {CryptoError, SequenceError} \<and>
    recv fuel c tcp_ops clk timeout (with_input (wa @ rest') b') = Some (Raise e', b2) \<and> e' \<in> {CryptoError, SequenceError}"
proof -
  obtain a' ct where a': "rekey c tcp_ops salt a = (Done (), a')" "rx_seq (info a') = 0" "length ct \<le> USMP_MAX_PAYLOAD"
      "wbuf (transport a') = wbuf (transport a) @ frame_bytes USMP_VERSION REKEY (tx_seq (info a)) ct"
    using tcp_rekey_run [OF assms(1,3,5,7)] by auto
  obtain b' ct' where b': "rekey c tcp_ops salt' b = (Done (), b')" "rx_seq (info b') = 0" "length ct' \<le> USMP_MAX_PAYLOAD"
      "wbuf (transport b') = wbuf (transport b) @ frame_bytes USMP_VERSION REKEY (tx_seq (info b)) ct'"
    using tcp_rekey_run [OF assms(2,4,6,8)] by auto
  have q: "0 \<le> tx_seq (info b)" "tx_seq (info b) < 2 ^ 32" "tx_seq (info b) \<noteq> 0" "0 \<le> tx_seq (info a)"
      "tx_seq (info a) < 2 ^ 32" "tx_seq (info a) \<noteq> 0"
    using assms(5,6,9,10) by simp_all
  have "\<exists>e s'. recv fuel c tcp_ops clk timeout (with_input (frame_bytes USMP_VERSION REKEY (tx_seq (info b)) ct' @ rest) a') =
      Some (Raise e, s') \<and> e \<in> {CryptoError, SequenceError}"
    using a'(2) b'(3) q assms(11) by (intro tcp_recv_stale [where ct = ct' and q = "tx_seq (info b)"]) simp_all
  moreover have "\<exists>e s'. recv fuel c tcp_ops clk timeout (with_input (frame_bytes USMP_VERSION REKEY (tx_seq (info a)) ct @ rest') b') =
      Some (Raise e, s') \<and> e \<in> {CryptoError, SequenceError}"
    using b'(2) a'(3) q assms(11) by (intro tcp_recv_stale [where ct = ct and q = "tx_seq (info a)"]) simp_all
  ultimately show ?thesis using a'(1,4) b'(1,4) by blast
qed

theorem rekey_loses_frames_in_flight_witness:
  "\<exists>a b w a1 a2 a3 e b'. send toy_crypto tcp_ops [9] b = (Done (), b') \<and>
     recv 4 toy_crypto tcp_ops (\<lambda>n. 0) None (with_input w a) = Some (Done [9], a1) \<and>
     rekey toy_crypto tcp_ops (replicate 32 4) a = (Done (), a2) \<and>
     recv 4 toy_crypto tcp_ops (\<lambda>n. 0) None (with_input w a2) = Some (Raise e, a3)"
proof -
  let ?a = "toy_b\<lparr>info := (info toy_b)\<lparr>rx_seq := 1\<rparr>\<rparr>" and ?b = "toy_a\<lparr>info := (info toy_a)\<lparr>tx_seq := 1\<rparr>\<rparr>"
  have "sender_ok toy_crypto (info ?a)" "sender_ok toy_crypto (info ?b)" "tcp_live (transport ?a)" "tcp_live (transport ?b)"
      "paired (info ?b) (info ?a)" "tx_seq (info ?a) < 0xFFFFFFFF" "tx_seq (info ?b) = 1"
    using toy_ends toy_crypto_laws
    by (simp_all add: sender_ok_def paired_def toy_b_def toy_a_def USMPSession_def toy_info_def tcp_live_def tcp_open_def)
  then obtain w b' a1 a2 a3 e where "send toy_crypto tcp_ops [9] ?b = (Done (), b')"
      "recv 4 toy_crypto tcp_ops (\<lambda>n. 0) None (with_input (w @ []) ?a) = Some (Done [9], a1)"
      "rekey toy_crypto tcp_ops (replicate 32 4) ?a = (Done (), a2)"
      "recv 4 toy_crypto tcp_ops (\<lambda>n. 0) None (with_input (w @ []) a2) = Some (Raise e, a3)"
    using rekey_loses_frames_in_flight [of toy_crypto ?a ?b "replicate 32 4" "[9]" 4 "\<lambda>n. 0" None "[]"]
    by (auto simp: usmp_consts)
  then show ?thesis unfolding append_Nil2 by blast
qed

end
