(* ===== verification/Permits.thy ===== *)
theory Permits
  imports Usmp_Prelude
begin

text \<open>
  The two objects of \<open>asyncio\<close> by which tasks take turns: the \<open>Lock\<close> a session sends
  under and the \<open>Semaphore\<close> the server's handshakes run under. Both serve their waiters in
  the order of arrival. Tasks are numbers. The contract \<open>fair_gate\<close> is what the session and
  the server rely on; both objects are shown to keep it.
\<close>

subsection \<open>The contract\<close>

locale fair_gate =
  fixes n :: nat
    and inv :: "'g \<Rightarrow> bool"
    and acquire :: "nat \<Rightarrow> 'g \<Rightarrow> 'g"
    and release :: "nat \<Rightarrow> 'g \<Rightarrow> 'g"
    and give_up :: "nat \<Rightarrow> 'g \<Rightarrow> 'g"
    and holders :: "'g \<Rightarrow> nat list"
    and waiters :: "'g \<Rightarrow> nat list"
  assumes inv_acquire: "inv g \<Longrightarrow> t \<notin> set (holders g @ waiters g) \<Longrightarrow> inv (acquire t g)"
    and inv_release: "inv g \<Longrightarrow> t \<in> set (holders g) \<Longrightarrow> inv (release t g)"
    and inv_give_up: "inv g \<Longrightarrow> t \<in> set (waiters g) \<Longrightarrow> inv (give_up t g)"
    and exclusive: "inv g \<Longrightarrow> length (holders g) \<le> n \<and> distinct (holders g @ waiters g)"
    and busy: "inv g \<Longrightarrow> waiters g \<noteq> [] \<Longrightarrow> length (holders g) = n"
    and acquire_law: "inv g \<Longrightarrow> (holders (acquire t g), waiters (acquire t g)) =
          (if length (holders g) < n then (holders g @ [t], waiters g) else (holders g, waiters g @ [t]))"
    and release_law: "inv g \<Longrightarrow> t \<in> set (holders g) \<Longrightarrow> (holders (release t g), waiters (release t g)) =
          (case waiters g of [] \<Rightarrow> (remove1 t (holders g), []) | w # ws \<Rightarrow> (remove1 t (holders g) @ [w], ws))"
    and give_up_law: "inv g \<Longrightarrow> (holders (give_up t g), waiters (give_up t g)) = (holders g, remove1 t (waiters g))"
begin

text \<open>What a task that comes, leaves, or stops waiting does to the others.\<close>

inductive step :: "bool \<Rightarrow> nat \<Rightarrow> 'g \<Rightarrow> 'g \<Rightarrow> bool" where
  comes: "t \<notin> set (holders g @ waiters g) \<Longrightarrow> step False t g (acquire t g)"
| leaves: "t \<in> set (holders g) \<Longrightarrow> step True t g (release t g)"
| stops_waiting: "t \<in> set (waiters g) \<Longrightarrow> step False t g (give_up t g)"

lemma step_inv: "step b t g g' \<Longrightarrow> inv g \<Longrightarrow> inv g'"
  by (induction rule: step.induct) (auto intro: inv_acquire inv_release inv_give_up)

text \<open>Nobody loses a permit but by giving it back.\<close>

lemma step_holders:
  assumes "step b t g g'" "inv g" "u \<in> set (holders g)" "\<not> (b \<and> t = u)"
  shows "u \<in> set (holders g')"
  using assms
proof (induction rule: step.induct)
  case (comes t g)
  then show ?case using acquire_law [of g t] by (auto split: if_splits)
next
  case (leaves t g)
  then show ?case using release_law [of g t] exclusive [of g] by (auto split: list.splits)
next
  case (stops_waiting t g)
  then show ?case using give_up_law [of g t] by auto
qed

text \<open>The number of tasks ahead of a waiting one.\<close>

definition ahead :: "nat \<Rightarrow> 'g \<Rightarrow> nat" where
  "ahead u g = length (takeWhile (\<lambda>v. v \<noteq> u) (waiters g))"

lemma ahead_remove1: "t \<noteq> u \<Longrightarrow> length (takeWhile (\<lambda>v. v \<noteq> u) (remove1 t ws)) \<le> length (takeWhile (\<lambda>v. v \<noteq> u) ws)"
  by (induction ws) auto

lemma ahead_snoc: "u \<in> set ws \<Longrightarrow> takeWhile (\<lambda>v. v \<noteq> u) (ws @ [t]) = takeWhile (\<lambda>v. v \<noteq> u) ws"
  by (induction ws) auto

text \<open>A waiting task is served or moves up by one with every permit given back, and is never overtaken.\<close>

lemma step_ahead:
  assumes "step b t g g'" "inv g" "u \<in> set (waiters g)" "t \<noteq> u"
  shows "u \<in> set (holders g') \<or>
    (u \<in> set (waiters g') \<and> ahead u g' + (if b then 1 else 0) \<le> ahead u g)"
  using assms
proof (induction rule: step.induct)
  case (comes t g)
  then have "length (holders g) = n" by (intro busy) auto
  then show ?case using comes acquire_law [of g t] by (auto simp: ahead_def ahead_snoc)
next
  case (leaves t g)
  then show ?case using release_law [of g t] by (cases "waiters g") (auto simp: ahead_def)
next
  case (stops_waiting t g)
  then show ?case using give_up_law [of g t] ahead_remove1 [of t u "waiters g"] by (auto simp: ahead_def in_set_remove1)
qed

text \<open>Runs, with the number of permits given back.\<close>

inductive run :: "nat \<Rightarrow> nat \<Rightarrow> 'g \<Rightarrow> 'g \<Rightarrow> bool" for u where
  idle: "run u 0 g g"
| event: "run u k g g1 \<Longrightarrow> u \<notin> set (holders g1) \<Longrightarrow> t \<noteq> u \<Longrightarrow> step b t g1 g2 \<Longrightarrow>
    run u (k + (if b then 1 else 0)) g g2"

lemma run_ahead:
  "run u k g g' \<Longrightarrow> inv g \<Longrightarrow> u \<in> set (waiters g) \<Longrightarrow>
    inv g' \<and> (u \<in> set (holders g') \<or> (u \<in> set (waiters g') \<and> ahead u g' + k \<le> ahead u g))"
proof (induction rule: run.induct)
  case (event k g g1 t b g2)
  then have g1: "inv g1" "u \<in> set (waiters g1)" "ahead u g1 + k \<le> ahead u g" using event by auto
  show ?case using step_inv [OF event(4) g1(1)] step_ahead [OF event(4) g1(1,2) event(3)] g1(3) by auto
qed simp

text \<open>No starvation: whoever waits holds a permit once as many have been given back as were ahead, and one.\<close>

lemma served: "run u k g g' \<Longrightarrow> inv g \<Longrightarrow> u \<in> set (waiters g) \<Longrightarrow> ahead u g < k \<Longrightarrow> u \<in> set (holders g')"
  using run_ahead [of u k g g'] by auto

end

subsection \<open>\<open>asyncio.Lock\<close>\<close>

record py_lock =
  owner :: "nat option"
  lock_queue :: "nat list"

definition Lock :: py_lock where
  "Lock = \<lparr>owner = None, lock_queue = []\<rparr>"

definition lock_acquire :: "nat \<Rightarrow> py_lock \<Rightarrow> py_lock" where
  "lock_acquire t l =
     (if owner l = None \<and> lock_queue l = [] then l\<lparr>owner := Some t\<rparr> else l\<lparr>lock_queue := lock_queue l @ [t]\<rparr>)"

definition lock_release :: "nat \<Rightarrow> py_lock \<Rightarrow> py_lock" where
  "lock_release t l =
     (case lock_queue l of
        [] \<Rightarrow> l\<lparr>owner := None\<rparr>
      | w # ws \<Rightarrow> l\<lparr>owner := Some w, lock_queue := ws\<rparr>)"

text \<open>A task cancelled while it waits.\<close>

definition lock_cancel :: "nat \<Rightarrow> py_lock \<Rightarrow> py_lock" where
  "lock_cancel t l = l\<lparr>lock_queue := remove1 t (lock_queue l)\<rparr>"

definition lock_holders :: "py_lock \<Rightarrow> nat list" where
  "lock_holders l = (case owner l of None \<Rightarrow> [] | Some t \<Rightarrow> [t])"

definition lock_inv :: "py_lock \<Rightarrow> bool" where
  "lock_inv l \<longleftrightarrow> distinct (lock_holders l @ lock_queue l) \<and> (owner l = None \<longrightarrow> lock_queue l = [])"

lemmas lock_defs = lock_acquire_def lock_release_def lock_cancel_def lock_holders_def lock_inv_def

interpretation lk: fair_gate 1 lock_inv lock_acquire lock_release lock_cancel lock_holders lock_queue
  by unfold_locales (auto simp: lock_defs split: option.splits list.splits if_splits dest: notin_set_remove1)

lemma Lock_free: "lock_inv Lock" "owner Lock = None"
  by (simp_all add: Lock_def lock_inv_def lock_holders_def)

subsection \<open>\<open>asyncio.Semaphore\<close>\<close>

text \<open>\<open>permit_holders\<close> records who holds a permit; the object itself keeps the value only.\<close>

record py_semaphore =
  sem_value :: nat
  sem_queue :: "nat list"
  permit_holders :: "nat list"

definition Semaphore :: "nat \<Rightarrow> py_semaphore" where
  "Semaphore value = \<lparr>sem_value = value, sem_queue = [], permit_holders = []\<rparr>"

definition sem_acquire :: "nat \<Rightarrow> py_semaphore \<Rightarrow> py_semaphore" where
  "sem_acquire t s =
     (if sem_value s > 0 \<and> sem_queue s = []
      then s\<lparr>sem_value := sem_value s - 1, permit_holders := permit_holders s @ [t]\<rparr>
      else s\<lparr>sem_queue := sem_queue s @ [t]\<rparr>)"

definition sem_release :: "nat \<Rightarrow> py_semaphore \<Rightarrow> py_semaphore" where
  "sem_release t s =
     (let s1 = s\<lparr>sem_value := sem_value s + 1, permit_holders := remove1 t (permit_holders s)\<rparr> in
      case sem_queue s1 of
        [] \<Rightarrow> s1
      | w # ws \<Rightarrow> s1\<lparr>sem_value := sem_value s1 - 1, sem_queue := ws, permit_holders := permit_holders s1 @ [w]\<rparr>)"

definition sem_cancel :: "nat \<Rightarrow> py_semaphore \<Rightarrow> py_semaphore" where
  "sem_cancel t s = s\<lparr>sem_queue := remove1 t (sem_queue s)\<rparr>"

definition sem_inv :: "nat \<Rightarrow> py_semaphore \<Rightarrow> bool" where
  "sem_inv n s \<longleftrightarrow>
     sem_value s + length (permit_holders s) = n \<and> distinct (permit_holders s @ sem_queue s) \<and>
     (sem_value s > 0 \<longrightarrow> sem_queue s = [])"

lemmas sem_defs = sem_acquire_def sem_release_def sem_cancel_def sem_inv_def Let_def

lemma length_remove1_Suc: "t \<in> set xs \<Longrightarrow> Suc (length (remove1 t xs)) = length xs"
  by (induction xs) auto

interpretation sem: fair_gate n "sem_inv n" sem_acquire sem_release sem_cancel permit_holders sem_queue
  for n
  by unfold_locales (auto simp: sem_defs length_remove1_Suc split: list.splits if_splits dest: notin_set_remove1)

lemma Semaphore_free: "sem_inv n (Semaphore n)"
  by (simp add: Semaphore_def sem_inv_def)

end
