(* ===== verification/Send_Lock.thy ===== *)
theory Send_Lock
  imports Udp_Session Permits
begin

text \<open>
  The sending side of a session when several tasks use it at once: every interleaving of
  calls of \<open>send\<close>, \<open>ping\<close>, \<open>rekey\<close> and \<open>bye\<close> and of the PONGs of \<open>recv\<close>, which take
  turns by \<open>_send_lock\<close>, with the key rotation in \<open>recv\<close>, which does not take the lock.
  A call is the list of frames it seals; calls are numbered as they are made.
\<close>

subsection \<open>Calls\<close>

text \<open>What one call seals under one hold of the lock.\<close>

inductive_set calls :: "(packet_type \<times> bytes) list set" where
  sending: "length data \<le> USMP_MAX_DATA_LEN * USMP_MAX_FRAMES \<Longrightarrow> fragments data \<in> calls"
| pinging: "[(PING, [])] \<in> calls"
| ponging: "[(PONG, [])] \<in> calls"
| rekeying: "[(REKEY, salt)] \<in> calls"
| closing: "[(BYE, [])] \<in> calls"

text \<open>A sealed frame: the call it belongs to, the life of the key it was sealed under, its number, its content.\<close>

record sealed =
  by_call :: nat
  in_epoch :: nat
  with_seq :: int
  of_type :: packet_type
  content :: bytes

record sending =
  tx_info :: session_info
  send_lock :: py_lock
  next_call :: nat
  call_frames :: "nat \<Rightarrow> (packet_type \<times> bytes) list"
  to_seal :: "nat \<Rightarrow> (packet_type \<times> bytes) list"
  epoch :: nat
  wire :: "sealed list"

definition idle_sender :: "session_info \<Rightarrow> sending" where
  "idle_sender i =
     \<lparr>tx_info = i, send_lock = Lock, next_call = 0, call_frames = (\<lambda>_. []), to_seal = (\<lambda>_. []), epoch = 0, wire = []\<rparr>"

text \<open>
  The steps. \<open>rotated\<close> is both the rotation at the end of \<open>rekey\<close> and the one in \<open>recv\<close>:
  it needs no lock. \<open>leaves\<close> is the end of a hold of the lock: after the last frame, or at an
  exception or a cancellation before it.
\<close>

inductive send_step :: "crypto \<Rightarrow> sending \<Rightarrow> sending \<Rightarrow> bool" for c where
  called: "frs \<in> calls \<Longrightarrow> n = next_call w \<Longrightarrow>
    send_step c w (w\<lparr>next_call := Suc n, call_frames := (call_frames w)(n := frs), to_seal := (to_seal w)(n := frs),
                     send_lock := lock_acquire n (send_lock w)\<rparr>)"
| seals: "owner (send_lock w) = Some n \<Longrightarrow> to_seal w n = (ty, pt) # frs \<Longrightarrow> seal c ty pt (tx_info w) = Inr (ct, q, i) \<Longrightarrow>
    send_step c w (w\<lparr>tx_info := i, to_seal := (to_seal w)(n := frs),
                     wire := wire w @ [\<lparr>by_call = n, in_epoch = epoch w, with_seq = q, of_type = ty, content = pt\<rparr>]\<rparr>)"
| leaves: "owner (send_lock w) = Some n \<Longrightarrow> send_step c w (w\<lparr>send_lock := lock_release n (send_lock w)\<rparr>)"
| cancelled: "n \<in> set (lock_queue (send_lock w)) \<Longrightarrow> send_step c w (w\<lparr>send_lock := lock_cancel n (send_lock w)\<rparr>)"
| rotated: "tx_seq i = 0 \<Longrightarrow> send_step c w (w\<lparr>tx_info := i, epoch := Suc (epoch w)\<rparr>)"
| received: "tx_seq i = tx_seq (tx_info w) \<Longrightarrow> tx_key i = tx_key (tx_info w) \<Longrightarrow> session_id i = session_id (tx_info w) \<Longrightarrow>
    send_step c w (w\<lparr>tx_info := i\<rparr>)"

inductive send_reachable :: "crypto \<Rightarrow> sending \<Rightarrow> bool" for c where
  start: "send_reachable c (idle_sender i)"
| step: "send_reachable c w \<Longrightarrow> send_step c w w' \<Longrightarrow> send_reachable c w'"

subsection \<open>The invariant\<close>

definition frames_on_wire :: "nat \<Rightarrow> sending \<Rightarrow> (packet_type \<times> bytes) list" where
  "frames_on_wire n w = map (\<lambda>f. (of_type f, content f)) (filter (\<lambda>f. by_call f = n) (wire w))"

text \<open>Who may seal: calls that wait have sealed nothing, and the owner's frames are the last on the wire.\<close>

definition turns_ok :: "sending \<Rightarrow> bool" where
  "turns_ok w \<longleftrightarrow>
     lock_inv (send_lock w) \<and>
     (\<forall>n\<in>set (lock_holders (send_lock w) @ lock_queue (send_lock w)). n < next_call w) \<and>
     (\<forall>f\<in>set (wire w). by_call f < next_call w \<and> by_call f \<notin> set (lock_queue (send_lock w))) \<and>
     (\<forall>n. owner (send_lock w) = Some n \<longrightarrow> n \<in> by_call ` set (wire w) \<longrightarrow> by_call (last (wire w)) = n) \<and>
     distinct (remdups_adj (map by_call (wire w)))"

definition contents_ok :: "sending \<Rightarrow> bool" where
  "contents_ok w \<longleftrightarrow>
     (\<forall>n<next_call w. call_frames w n \<in> calls \<and> frames_on_wire n w @ to_seal w n = call_frames w n) \<and>
     (\<forall>f\<in>set (wire w). by_call f < next_call w)"

definition numbers_ok :: "sending \<Rightarrow> bool" where
  "numbers_ok w \<longleftrightarrow>
     (\<forall>f\<in>set (wire w). in_epoch f \<le> epoch w) \<and>
     (wire w \<noteq> [] \<longrightarrow> in_epoch (last (wire w)) = epoch w \<longrightarrow> of_type (last (wire w)) \<noteq> BYE \<longrightarrow>
        tx_seq (tx_info w) = with_seq (last (wire w)) + 1) \<and>
     (\<forall>k. Suc k < length (wire w) \<longrightarrow> of_type (wire w ! k) \<noteq> BYE \<longrightarrow> in_epoch (wire w ! Suc k) = in_epoch (wire w ! k) \<longrightarrow>
        with_seq (wire w ! Suc k) = with_seq (wire w ! k) + 1)"

lemma remdups_adj_snoc:
  "remdups_adj (xs @ [x]) = (if xs \<noteq> [] \<and> last xs = x then remdups_adj xs else remdups_adj xs @ [x])"
  by (induction xs rule: remdups_adj.induct) auto

lemma turns_step:
  assumes "send_step c w w'" "turns_ok w"
  shows "turns_ok w'"
  using assms
proof (induction rule: send_step.induct)
  case (called frs n w)
  let ?l = "send_lock w"
  have l: "lock_inv ?l" "n \<notin> set (lock_holders ?l @ lock_queue ?l)" using called by (auto simp: turns_ok_def)
  have "lock_inv (lock_acquire n ?l)" using l by (rule lk.inv_acquire)
  moreover have "(lock_holders (lock_acquire n ?l), lock_queue (lock_acquire n ?l)) =
      (if length (lock_holders ?l) < 1 then (lock_holders ?l @ [n], lock_queue ?l) else (lock_holders ?l, lock_queue ?l @ [n]))"
    using l(1) by (rule lk.acquire_law)
  ultimately show ?case
    using called by (force simp: turns_ok_def lock_holders_def split: if_splits option.splits)
next
  case (seals w n ty pt frs ct q i)
  have "wire w = [] \<or> last (map by_call (wire w)) = by_call (last (wire w))" by (cases "wire w") (simp_all add: last_map)
  then show ?case
    using seals by (auto simp: turns_ok_def remdups_adj_snoc lock_inv_def lock_holders_def last_map image_iff split: if_splits)
next
  case (leaves w n)
  then show ?case
    by (auto simp: turns_ok_def lock_defs split: list.splits)
next
  case (cancelled n w)
  have "lock_inv (lock_cancel n (send_lock w))" using cancelled by (intro lk.inv_give_up) (auto simp: turns_ok_def)
  then show ?case
    using cancelled by (auto simp: turns_ok_def lock_cancel_def lock_holders_def dest: notin_set_remove1)
qed (simp_all add: turns_ok_def)

lemma contents_step:
  assumes "send_step c w w'" "contents_ok w" "turns_ok w"
  shows "contents_ok w'"
  using assms
proof (induction rule: send_step.induct)
  case (called frs n w)
  then have "frames_on_wire n w = []" by (auto simp: contents_ok_def frames_on_wire_def filter_empty_conv)
  then show ?case using called by (auto simp: contents_ok_def frames_on_wire_def less_Suc_eq)
next
  case (seals w n ty pt frs ct q i)
  then have "n < next_call w" by (auto simp: turns_ok_def lock_holders_def)
  then show ?case using seals by (auto simp: contents_ok_def frames_on_wire_def)
qed (simp_all add: contents_ok_def frames_on_wire_def)

lemma numbers_step:
  assumes "send_step c w w'" "numbers_ok w"
  shows "numbers_ok w'"
  using assms
proof (induction rule: send_step.induct)
  case (seals w n ty pt frs ct q i)
  note q = seal_InrD [OF seals(3)]
  let ?f = "\<lparr>by_call = n, in_epoch = epoch w, with_seq = q, of_type = ty, content = pt\<rparr>"
  have last': "wire w ! k = last (wire w)" if "Suc k = length (wire w)" for k
    using that last_conv_nth [of "wire w"] by (cases "wire w") auto
  have "with_seq ((wire w @ [?f]) ! Suc k) = with_seq ((wire w @ [?f]) ! k) + 1"
    if "Suc k < length (wire w @ [?f])" "of_type ((wire w @ [?f]) ! k) \<noteq> BYE"
      "in_epoch ((wire w @ [?f]) ! Suc k) = in_epoch ((wire w @ [?f]) ! k)" for k
  proof (cases "Suc k = length (wire w)")
    case True
    then have "wire w \<noteq> []" "(wire w @ [?f]) ! Suc k = ?f" "(wire w @ [?f]) ! k = last (wire w)"
      using last' [OF True] by (auto simp: nth_append)
    then show ?thesis using that seals(4) q by (simp add: numbers_ok_def)
  next
    case False
    then have k: "Suc k < length (wire w)" using that(1) by simp
    then show ?thesis using that seals(4) by (simp add: numbers_ok_def nth_append)
  qed
  moreover have "ty \<noteq> BYE \<Longrightarrow> min (q + 1) 0xFFFFFFFF = q + 1" using q by (auto simp: min_def)
  ultimately show ?case using seals(4) q by (simp add: numbers_ok_def)
next
  case (rotated i w)
  then have "in_epoch (last (wire w)) \<noteq> Suc (epoch w)" if "wire w \<noteq> []"
    using that by (auto simp: numbers_ok_def dest!: bspec [OF _ last_in_set])
  then show ?case using rotated by (auto simp: numbers_ok_def)
qed (simp_all add: numbers_ok_def)

lemma send_reachable_inv: "send_reachable c w \<Longrightarrow> turns_ok w \<and> contents_ok w \<and> numbers_ok w"
proof (induction rule: send_reachable.induct)
  case (start i)
  then show ?case
    using Lock_free by (simp add: idle_sender_def turns_ok_def contents_ok_def numbers_ok_def lock_holders_def Lock_def)
next
  case (step w w')
  then show ?case using turns_step contents_step numbers_step by blast
qed

subsection \<open>What goes out\<close>

text \<open>The frames between two frames of one call are that call's.\<close>

lemma distinct_remdups_adj_head: "distinct (remdups_adj (x # ys @ x # zs)) \<Longrightarrow> \<forall>y\<in>set ys. y = x"
proof (induction ys)
  case (Cons y ys)
  show ?case
  proof (cases "y = x")
    case False
    then have "x \<notin> set (remdups_adj (y # ys @ x # zs))" using Cons.prems by simp
    then show ?thesis by (simp add: remdups_adj_set)
  qed (use Cons in auto)
qed simp

lemma distinct_remdups_adj_tl: "distinct (remdups_adj (y # xs)) \<Longrightarrow> distinct (remdups_adj xs)"
  by (cases xs) (auto split: if_splits)

lemma distinct_remdups_adj_run: "distinct (remdups_adj (xs @ x # ys @ x # zs)) \<Longrightarrow> \<forall>y\<in>set ys. y = x"
proof (induction xs)
  case Nil
  then show ?case using distinct_remdups_adj_head [of x ys zs] by simp
next
  case (Cons y xs)
  then show ?case using distinct_remdups_adj_tl [of y "xs @ x # ys @ x # zs"] by simp
qed

text \<open>
  C9. Messages are not interleaved. However many tasks send on a session, and whatever is
  cancelled or raises: between two frames of one call no frame of another call is sealed; the
  frames a call has sealed are an initial part of what it set out to send, in order, and all of
  it once nothing is left to seal; and the frame after a fragment, while no keys are rotated,
  has the next number.
\<close>

theorem messages_not_interleaved:
  assumes "send_reachable c w"
  shows "(\<forall>xs x ys y zs. wire w = xs @ x # ys @ y # zs \<and> by_call x = by_call y \<longrightarrow> (\<forall>f\<in>set ys. by_call f = by_call x)) \<and>
    (\<forall>n<next_call w. call_frames w n \<in> calls \<and> frames_on_wire n w @ to_seal w n = call_frames w n) \<and>
    (\<forall>k. Suc k < length (wire w) \<longrightarrow> of_type (wire w ! k) = DATA_FRAG \<longrightarrow>
       in_epoch (wire w ! Suc k) = in_epoch (wire w ! k) \<longrightarrow> with_seq (wire w ! Suc k) = with_seq (wire w ! k) + 1)"
proof -
  note inv = send_reachable_inv [OF assms]
  have "\<forall>f\<in>set ys. by_call f = by_call x" if w: "wire w = xs @ x # ys @ y # zs" "by_call x = by_call y" for xs x ys y zs
  proof -
    have "distinct (remdups_adj (map by_call xs @ by_call x # map by_call ys @ by_call x # map by_call zs))"
      using inv w by (simp add: turns_ok_def)
    from distinct_remdups_adj_run [OF this] show ?thesis by simp
  qed
  moreover have "\<forall>k. Suc k < length (wire w) \<longrightarrow> of_type (wire w ! k) = DATA_FRAG \<longrightarrow>
      in_epoch (wire w ! Suc k) = in_epoch (wire w ! k) \<longrightarrow> with_seq (wire w ! Suc k) = with_seq (wire w ! k) + 1"
    using inv unfolding numbers_ok_def by (metis packet_type.distinct(1) packet_type.simps)
  moreover have "\<forall>n<next_call w. call_frames w n \<in> calls \<and> frames_on_wire n w @ to_seal w n = call_frames w n"
    using inv by (simp add: contents_ok_def)
  ultimately show ?thesis by blast
qed

subsection \<open>Keys rotated between two fragments\<close>

text \<open>The rotation in \<open>recv\<close>, seen from the sending side.\<close>

definition rotated_info :: "crypto \<Rightarrow> bytes \<Rightarrow> session_info \<Rightarrow> session_info" where
  "rotated_info c salt i =
     (let (txk, rxk) = derive_rekey_keys c False (tx_key i) (rx_key i) (session_id i) salt in
      i\<lparr>tx_key := txk, rx_key := rxk, tx_seq := 0, rx_seq := 0, rx_window_bitmap := 0\<rparr>)"

text \<open>It is what the REKEY branch of \<open>recv\<close> does to the session's info.\<close>

lemma handle_rekey_rotates:
  "length plaintext = 32 \<Longrightarrow> assembled_payload l = [] \<Longrightarrow>
    fst (handle_rekey c T plaintext l s) = Done (Continue l) \<and>
    info (snd (handle_rekey c T plaintext l s)) = rotated_info c plaintext (info s)"
  by (simp add: handle_rekey_def rotate_keys_def rotated_info_def Let_def split: prod.splits)

text \<open>A UDP receiver drops what it cannot decrypt.\<close>

lemma udp_recv_turn_undecryptable:
  assumes "read_buffer (transport s) = frame_bytes USMP_VERSION ty q ct @ rest" "length ct \<le> USMP_MAX_PAYLOAD" "0 \<le> q" "q < 2 ^ 32"
    and "decrypt c (rx_key (info s)) (nonce_of (info s) q) q (packet_type_value ty) USMP_VERSION USMP_MAGIC
      (int (length ct)) ct (cipher_suite (info s)) = Inl e"
  shows "recv_turn c udp_ops clk l s = (Done (Continue l), s\<lparr>transport := (transport s)\<lparr>read_buffer := rest\<rparr>\<rparr>)"
proof -
  have r: "udp_read_frame True (transport s) = (Done (mk_frame ty ct q), (transport s)\<lparr>read_buffer := rest\<rparr>)"
    using assms(1-4) by (intro udp_read_frame_frame)
  have p: "pack_I q = Inr (le_bytes 4 q)" using assms(3,4) by (simp add: I.pack_in_range)
  have e: "e = CryptoError \<or> e = StructError" using assms(5) by (rule decrypt_Inl)
  show ?thesis
    using assms(5) r p e
    by (auto simp: recv_turn_def receive_frame_def coro_catch_def coro_bind_def on_transport_def coro_lift_def Let_def
        nonce_of_def coro_return_def)
qed

lemma sender_ok_rotated:
  assumes "sender_ok c i" "hkdf_sized c"
  shows "sender_ok c (rotated_info c salt i)" "tx_seq (rotated_info c salt i) = 0" "session_id (rotated_info c salt i) = session_id i"
  using assms by (auto simp: rotated_info_def sender_ok_def derive_rekey_keys_def hkdf_sized_def usmp_consts Let_def split: prod.splits)

text \<open>
  C19. A REKEY that \<open>recv\<close> handles while \<open>send\<close> is between two fragments splits the message:
  the first fragment goes out under the old key, the last one under the new key with the number
  0. Over UDP the peer, which has the new keys, drops the first as undecryptable and returns
  the last as a message of its own: the application receives the message without its first 452
  bytes, and no error.
\<close>

theorem rekey_in_recv_truncates_message:
  fixes r :: "udp_stream session"
  assumes "sender_ok c i" "hkdf_sized c" "tx_seq i < 0xFFFFFFFF"
    and "USMP_MAX_DATA_LEN < length data" "length data \<le> 2 * USMP_MAX_DATA_LEN"
    and "j = rotated_info c salt (i\<lparr>tx_seq := tx_seq i + 1\<rparr>)" "in_step j (info r)"
    and "seal c DATA_FRAG (take USMP_MAX_DATA_LEN data) i = Inr (ct1, q, i')"
    and "decrypt c (rx_key (info r)) (nonce_of (info r) q) q (packet_type_value DATA_FRAG) USMP_VERSION USMP_MAGIC
      (int (length ct1)) ct1 (cipher_suite (info r)) = Inl e"
  shows "\<exists>w ct2. send_reachable c w \<and> call_frames w 0 = fragments data \<and> to_seal w 0 = [] \<and>
    map (\<lambda>f. (by_call f, of_type f, in_epoch f, with_seq f)) (wire w) = [(0, DATA_FRAG, 0, tx_seq i), (0, DATA, 1, 0)] \<and>
    seal c DATA (drop USMP_MAX_DATA_LEN data) j = Inr (ct2, 0, j\<lparr>tx_seq := 1\<rparr>) \<and>
    (\<exists>r'. recv 2 c udp_ops clk None (r\<lparr>recv_timeout := None, transport := (transport r)\<lparr>read_buffer :=
        frame_bytes USMP_VERSION DATA_FRAG q ct1 @ frame_bytes USMP_VERSION DATA 0 ct2\<rparr>\<rparr>) =
      Some (Done (drop USMP_MAX_DATA_LEN data), r'))"
proof -
  let ?hd = "take USMP_MAX_DATA_LEN data" and ?tl = "drop USMP_MAX_DATA_LEN data"
  have tl: "length ?tl \<le> USMP_MAX_DATA_LEN" and hd: "length ?hd \<le> USMP_MAX_DATA_LEN" using assms(5) by simp_all
  have frs: "fragments data = [(DATA_FRAG, ?hd), (DATA, ?tl)]"
    using assms(4) tl by (simp add: fragments.simps [of data] fragments.simps [of ?tl])
  have q: "q = tx_seq i" "i' = i\<lparr>tx_seq := tx_seq i + 1\<rparr>" using seal_InrD [OF assms(8)] assms(3) by auto
  have ok: "sender_ok c (i\<lparr>tx_seq := tx_seq i + 1\<rparr>)" using assms(1) by (simp add: sender_ok_def)
  note j = sender_ok_rotated [OF ok assms(2), of salt, folded assms(6)]
  obtain ct2 where ct2: "seal c DATA ?tl j = Inr (ct2, 0, j\<lparr>tx_seq := 1\<rparr>)"
    using seal_ok [of c j ?tl DATA] j tl by (auto simp: sender_ok_def)
  let ?w1 = "(idle_sender i)\<lparr>next_call := 1, call_frames := (\<lambda>_. [])(0 := fragments data),
    to_seal := (\<lambda>_. [])(0 := fragments data), send_lock := lock_acquire 0 Lock\<rparr>"
  let ?f1 = "\<lparr>by_call = 0, in_epoch = 0, with_seq = q, of_type = DATA_FRAG, content = ?hd\<rparr>"
  let ?f2 = "\<lparr>by_call = 0, in_epoch = 1, with_seq = 0, of_type = DATA, content = ?tl\<rparr>"
  let ?w2 = "?w1\<lparr>tx_info := i', to_seal := (\<lambda>_. [])(0 := [(DATA, ?tl)]), wire := [?f1]\<rparr>"
  let ?w3 = "?w2\<lparr>tx_info := j, epoch := 1\<rparr>"
  let ?w4 = "?w3\<lparr>tx_info := j\<lparr>tx_seq := 1\<rparr>, to_seal := (\<lambda>_. [])(0 := []), wire := [?f1, ?f2]\<rparr>"
  have len: "length data \<le> USMP_MAX_DATA_LEN * USMP_MAX_FRAMES" using assms(5) by (simp add: usmp_consts)
  have o: "owner (lock_acquire 0 Lock) = Some 0" by (simp add: lock_acquire_def Lock_def)
  have "send_step c (idle_sender i) ?w1"
    using send_step.called [OF calls.sending [OF len], of 0 "idle_sender i" c] by (simp add: idle_sender_def)
  moreover have "send_step c ?w1 ?w2"
    using send_step.seals [of ?w1 0 DATA_FRAG ?hd "[(DATA, ?tl)]" c ct1 q i'] assms(8) o
    by (simp add: idle_sender_def frs)
  moreover have "send_step c ?w2 ?w3" using send_step.rotated [OF j(2), of c ?w2] by (simp add: idle_sender_def)
  moreover have "send_step c ?w3 ?w4"
    using send_step.seals [of ?w3 0 DATA ?tl "[]" c ct2 0 "j\<lparr>tx_seq := 1\<rparr>"] ct2 o by (simp add: idle_sender_def)
  ultimately have run: "send_reachable c ?w4" by (meson send_reachable.intros)
  let ?r = "r\<lparr>recv_timeout := None, transport := (transport r)\<lparr>read_buffer :=
      frame_bytes USMP_VERSION DATA_FRAG q ct1 @ frame_bytes USMP_VERSION DATA 0 ct2\<rparr>, ticks := Suc (ticks r)\<rparr>"
  let ?r2 = "?r\<lparr>transport := (transport ?r)\<lparr>read_buffer := frame_bytes USMP_VERSION DATA 0 ct2\<rparr>\<rparr>"
  let ?l = "initial_locals (clk (ticks r))"
  note d = sealed_frame [OF assms(1,8) hd]
  have t1: "recv_turn c udp_ops clk ?l ?r = (Done (Continue ?l), ?r2)"
    using udp_recv_turn_undecryptable [where s = ?r and ct = ct1 and q = q] d assms(9) by simp
  have st: "in_step j (info ?r2)" using assms(7) by simp
  have t2: "\<exists>r'. recv_turn c udp_ops clk ?l ?r2 = (Done (Return ?tl), r')"
    using udp_recv_turn_new [OF j(1) ct2 tl st, of "[]" clk ?l]
    by (simp add: dispatch_frame_def coro_catch_def coro_lift_def handle_data_def initial_locals_def Let_def)
  have "\<exists>r'. recv 2 c udp_ops clk None (r\<lparr>recv_timeout := None, transport := (transport r)\<lparr>read_buffer :=
      frame_bytes USMP_VERSION DATA_FRAG q ct1 @ frame_bytes USMP_VERSION DATA 0 ct2\<rparr>\<rparr>) = Some (Done ?tl, r')"
    using t1 t2 by (auto simp: recv_def recv_internal_eq numeral_2_eq_2 Let_def)
  moreover have "call_frames ?w4 0 = fragments data" "to_seal ?w4 0 = []" by simp_all
  ultimately show ?thesis using run ct2 q(1) by (intro exI [of _ ?w4] exI [of _ ct2]) simp
qed

text \<open>A concrete run, for the witnesses.\<close>

lemma toy_new_key:
  "let k = tx_key (rotated_info toy_crypto (replicate 32 0) toy_info) in hd k = 128 \<and> sum_list (tl k) = 112 \<and> length k = 32"
  by code_simp

lemma toy_old_key_rejected:
  assumes "seal toy_crypto DATA_FRAG (replicate 452 3) toy_info = Inr (ct, q, i')"
  shows "decrypt toy_crypto (tx_key (rotated_info toy_crypto (replicate 32 0) toy_info)) (nonce_of toy_info q) q (packet_type_value DATA_FRAG) USMP_VERSION USMP_MAGIC
      (int (length ct)) ct AES256_GCM = Inl CryptoError"
proof -
  let ?n = "nonce_of toy_info 0"
  have n: "length ?n = 12" by (simp add: nonce_of_def toy_info_def)
  obtain k rest where k: "tx_key (rotated_info toy_crypto (replicate 32 0) toy_info) = k # rest" "k = 128" "sum_list rest = 112" "length rest = 31"
    using toy_new_key by (cases "tx_key (rotated_info toy_crypto (replicate 32 0) toy_info)") (auto simp: Let_def)
  obtain aad where a: "build_aad USMP_MAGIC USMP_VERSION 9 0 480 = Inr aad" by (simp add: build_aad_Inr usmp_consts)
  have x: "(3 :: byte) XOR 1 = 2" "(2 :: byte) XOR 128 = 130" by code_simp+
  have q: "q = 0" and ct: "ct = ?n @ replicate 452 2 @ replicate 16 (32 + sum_list ?n + sum_list aad + 76)"
    using assms a n
    by (auto simp: seal_def Let_def I.pack_in_range encrypt_def USMP_TAG_LEN_def toy_crypto_def toy_seal_def toy_info_def nonce_of_def x toy_tag_def sum_list_replicate)
  show ?thesis
    using n a unfolding q ct k(1)
    by (simp add: decrypt_def USMP_TAG_LEN_def toy_crypto_def toy_open_def k(2,3,4) Let_def toy_tag_def sum_list_replicate x)
qed
definition toy_rotated :: session_info where
  "toy_rotated = rotated_info toy_crypto (replicate 32 0) (toy_info\<lparr>tx_seq := 1\<rparr>)"

definition toy_udp_receiver :: "udp_stream session" where
  "toy_udp_receiver = toy_udp_b\<lparr>info := (info toy_b)\<lparr>rx_key := tx_key toy_rotated\<rparr>\<rparr>"

lemma toy_rotated_key: "tx_key toy_rotated = tx_key (rotated_info toy_crypto (replicate 32 0) toy_info)"
  by (simp add: toy_rotated_def rotated_info_def split: prod.splits)

lemma toy_split_run:
  "\<exists>ct q i'. seal toy_crypto DATA_FRAG (replicate 452 3) toy_info = Inr (ct, q, i') \<and>
     decrypt toy_crypto (rx_key (info toy_udp_receiver)) (nonce_of (info toy_udp_receiver) q) q (packet_type_value DATA_FRAG)
       USMP_VERSION USMP_MAGIC (int (length ct)) ct (cipher_suite (info toy_udp_receiver)) = Inl CryptoError"
proof -
  have "sender_ok toy_crypto toy_info" using toy_crypto_laws by (simp add: sender_ok_def toy_info_def)
  then obtain ct where ct: "seal toy_crypto DATA_FRAG (replicate 452 3) toy_info = Inr (ct, 0, toy_info\<lparr>tx_seq := 1\<rparr>)"
    using seal_ok [of toy_crypto toy_info "replicate 452 3" DATA_FRAG] by (auto simp: sender_ok_def toy_info_def usmp_consts)
  have "nonce_of (info toy_udp_receiver) 0 = nonce_of toy_info 0" "cipher_suite (info toy_udp_receiver) = AES256_GCM"
    by (simp_all add: nonce_of_def toy_udp_receiver_def toy_b_def USMPSession_def toy_info_def)
  then show ?thesis
    using toy_old_key_rejected [OF ct] ct
    by (intro exI [of _ ct] exI [of _ 0] exI [of _ "toy_info\<lparr>tx_seq := 1\<rparr>"]) (simp add: toy_udp_receiver_def toy_rotated_key)
qed

theorem rekey_in_recv_truncates_message_witness:
  "\<exists>ct1 ct2 r'. recv 2 toy_crypto udp_ops (\<lambda>n. 0) None (toy_udp_receiver\<lparr>recv_timeout := None,
      transport := (transport toy_udp_receiver)\<lparr>read_buffer :=
        frame_bytes USMP_VERSION DATA_FRAG 0 ct1 @ frame_bytes USMP_VERSION DATA 0 ct2\<rparr>\<rparr>) = Some (Done (replicate 48 3), r')"
proof -
  obtain ct q i' where s: "seal toy_crypto DATA_FRAG (replicate 452 3) toy_info = Inr (ct, q, i')"
    "decrypt toy_crypto (rx_key (info toy_udp_receiver)) (nonce_of (info toy_udp_receiver) q) q (packet_type_value DATA_FRAG)
       USMP_VERSION USMP_MAGIC (int (length ct)) ct (cipher_suite (info toy_udp_receiver)) = Inl CryptoError"
    using toy_split_run by blast
  have q: "q = 0" using seal_InrD [OF s(1)] by (simp add: toy_info_def)
  have ok: "sender_ok toy_crypto toy_info" using toy_crypto_laws by (simp add: sender_ok_def toy_info_def)
  have j: "toy_rotated = rotated_info toy_crypto (replicate 32 0) (toy_info\<lparr>tx_seq := tx_seq toy_info + 1\<rparr>)"
    by (simp add: toy_rotated_def toy_info_def)
  have st: "in_step toy_rotated (info toy_udp_receiver)"
    by (simp add: in_step_def toy_udp_receiver_def toy_rotated_def rotated_info_def toy_b_def USMPSession_def toy_info_def
        split: prod.splits)
  have d: "seal toy_crypto DATA_FRAG (take USMP_MAX_DATA_LEN (replicate 500 3)) toy_info = Inr (ct, q, i')"
    using s(1) by (simp add: usmp_consts)
  have "tx_seq toy_info < 0xFFFFFFFF" "USMP_MAX_DATA_LEN < length (replicate 500 (3::byte))"
      "length (replicate 500 (3::byte)) \<le> 2 * USMP_MAX_DATA_LEN"
    by (simp_all add: toy_info_def usmp_consts)
  from rekey_in_recv_truncates_message [OF ok toy_crypto_laws(3) this j st d s(2), of "\<lambda>n. 0"] show ?thesis
    by (auto simp: q usmp_consts)
qed

theorem messages_not_interleaved_witness:
  "\<exists>w. send_reachable toy_crypto w \<and> wire w \<noteq> [] \<and> frames_on_wire 0 w @ to_seal w 0 = [(PING, [])]"
proof -
  have "sender_ok toy_crypto toy_info" using toy_crypto_laws by (simp add: sender_ok_def toy_info_def)
  then obtain ct i' where ct: "seal toy_crypto PING [] toy_info = Inr (ct, 0, i')"
    using seal_ok [of toy_crypto toy_info "[]" PING] by (auto simp: sender_ok_def toy_info_def)
  let ?w0 = "idle_sender toy_info"
  let ?w1 = "?w0\<lparr>next_call := Suc 0, call_frames := (call_frames ?w0)(0 := [(PING, [])]),
    to_seal := (to_seal ?w0)(0 := [(PING, [])]), send_lock := lock_acquire 0 (send_lock ?w0)\<rparr>"
  let ?w2 = "?w1\<lparr>tx_info := i', to_seal := (to_seal ?w1)(0 := []),
    wire := wire ?w1 @ [\<lparr>by_call = 0, in_epoch = epoch ?w1, with_seq = 0, of_type = PING, content = []\<rparr>]\<rparr>"
  have "send_step toy_crypto ?w0 ?w1" by (rule send_step.called [OF calls.pinging]) (simp add: idle_sender_def)
  moreover have "send_step toy_crypto ?w1 ?w2"
    by (rule send_step.seals) (simp_all add: ct idle_sender_def lock_acquire_def Lock_def)
  ultimately have r: "send_reachable toy_crypto ?w2" by (meson send_reachable.intros)
  have "frames_on_wire 0 ?w2 @ to_seal ?w2 0 = call_frames ?w2 0"
    using messages_not_interleaved [OF r] by simp
  then show ?thesis using r by (intro exI [of _ ?w2]) simp
qed

end
