(* ===== verification/Server_Runs.thy ===== *)
theory Server_Runs
  imports Udp_Listener
begin

text \<open>
  The server as a whole: every interleaving of accepted TCP connections, datagrams, and the
  parts of \<open>_on_transport_connect\<close> of all connections. A connection is \<open>Created\<close> (its task
  exists but has not run), \<open>Handshaking\<close>, \<open>Serving\<close> (inside the session handler) or
  \<open>Closing\<close> (past the clean-up, before the transport is closed). What the transports
  themselves do in between (reading, writing, timeouts, the watchdog) may change their state
  in any way but not whom they belong to.
\<close>

datatype phase = Absent | Created | Handshaking | Serving | Closing

type_synonym world = "server \<times> (nat \<Rightarrow> phase)"

definition accept_tcp :: "tcp_transport \<Rightarrow> server \<Rightarrow> server" where
  "accept_tcp t s = s\<lparr>heap := (heap s)(next_id s := TcpEnd t), next_id := Suc (next_id s)\<rparr>"

inductive server_step :: "world \<Rightarrow> world \<Rightarrow> bool" where
  tcp_accepted: "connect_begin (next_id s) (accept_tcp t s) = (admitted, s') \<Longrightarrow>
    server_step (s, ph) (s', if admitted then ph(next_id s := Handshaking) else ph)"
| datagram: "handle_udp_datagram now wall data addr s = (r, s') \<Longrightarrow>
    server_step (s, ph) (s', case r of Done (Some tid) \<Rightarrow> ph(tid := Created) | _ \<Rightarrow> ph)"
| udp_begun: "ph tid = Created \<Longrightarrow> is_udp (heap s tid) \<Longrightarrow> connect_begin tid s = (admitted, s') \<Longrightarrow>
    server_step (s, ph) (s', ph(tid := Handshaking))"
| traffic: "same_peer e (heap s tid) \<Longrightarrow> server_step (s, ph) (set_end tid e s, ph)"
| handshake_recorded: "server_step (s, ph) (s\<lparr>failed_handshakes := tbl\<rparr>, ph)"
| established: "ph tid = Handshaking \<Longrightarrow> connect_established tid s = (True, s') \<Longrightarrow>
    server_step (s, ph) (s', ph(tid := Serving))"
| refused: "ph tid = Handshaking \<Longrightarrow> connect_established tid s = (False, s') \<Longrightarrow>
    server_step (s, ph) (connect_finally tid (is_udp (heap s tid)) s', ph(tid := Closing))"
| failed: "ph tid = Handshaking \<Longrightarrow> connect_except now tid e s = (out, s') \<Longrightarrow>
    server_step (s, ph) (connect_finally tid False s', ph(tid := Closing))"
| ended: "ph tid = Serving \<Longrightarrow>
    server_step (s, ph) (connect_finally tid (is_udp (heap s tid)) s, ph(tid := Closing))"
| aborted: "ph tid = Serving \<Longrightarrow> connect_except now tid e s = (out, s') \<Longrightarrow>
    server_step (s, ph) (connect_finally tid (is_udp (heap s tid)) s', ph(tid := Closing))"
| closed: "ph tid = Closing \<Longrightarrow> server_step (s, ph) (close_transport tid s, ph(tid := Absent))"

inductive server_reachable :: "world \<Rightarrow> bool" where
  start: "USMPServer src timeout max_conn max_per_ip secret tbl = Inr s \<Longrightarrow> server_reachable (s, \<lambda>_. Absent)"
| step: "server_reachable w \<Longrightarrow> server_step w w' \<Longrightarrow> server_reachable w'"

subsection \<open>What the invariants see of the transports\<close>

definition peers :: "server \<Rightarrow> nat \<Rightarrow> bool \<times> peername" where
  "peers s i = (is_udp (heap s i), end_peername (heap s i))"

definition ip_of :: "(nat \<Rightarrow> bool \<times> peername) \<Rightarrow> nat \<Rightarrow> string" where
  "ip_of p i = peer_ip (snd (p i))"

definition tcp_live_ids :: "(nat \<Rightarrow> bool \<times> peername) \<Rightarrow> (nat \<Rightarrow> phase) \<Rightarrow> nat set" where
  "tcp_live_ids p ph = {i. (ph i = Handshaking \<or> ph i = Serving) \<and> \<not> fst (p i)}"

definition udp_pre_ids :: "(nat \<Rightarrow> bool \<times> peername) \<Rightarrow> (nat \<Rightarrow> phase) \<Rightarrow> nat set" where
  "udp_pre_ids p ph = {i. (ph i = Created \<or> ph i = Handshaking) \<and> fst (p i)}"

lemma peers_set_end [simp]: "same_peer e (heap s tid) \<Longrightarrow> peers (set_end tid e s) = peers s"
  by (auto simp: peers_def set_end_def same_peer_def fun_eq_iff)

lemma peers_close_transport [simp]: "peers (close_transport tid s) = peers s"
  by (simp add: close_transport_def)

lemma peers_heap: "heap s' = heap s \<Longrightarrow> peers s' = peers s"
  by (simp add: peers_def fun_eq_iff)

lemma set_end_tables [simp]:
  "tcp_connections (set_end tid e s) = tcp_connections s" "udp_sessions (set_end tid e s) = udp_sessions s"
  "udp_handshakes (set_end tid e s) = udp_handshakes s" "udp_in_progress (set_end tid e s) = udp_in_progress s"
  "conn_tasks (set_end tid e s) = conn_tasks s" "next_id (set_end tid e s) = next_id s"
  "max_connections (set_end tid e s) = max_connections s"
  "max_connections_per_ip (set_end tid e s) = max_connections_per_ip s"
  by (simp_all add: set_end_def)

lemma close_transport_tables [simp]:
  "tcp_connections (close_transport tid s) = tcp_connections s" "udp_sessions (close_transport tid s) = udp_sessions s"
  "udp_handshakes (close_transport tid s) = udp_handshakes s" "udp_in_progress (close_transport tid s) = udp_in_progress s"
  "conn_tasks (close_transport tid s) = conn_tasks s" "next_id (close_transport tid s) = next_id s"
  "max_connections (close_transport tid s) = max_connections s"
  "max_connections_per_ip (close_transport tid s) = max_connections_per_ip s"
  by (simp_all add: close_transport_def)

text \<open>The state as the invariants see it; everything else may change freely.\<close>

record tables =
  v_peers :: "nat \<Rightarrow> bool \<times> peername"
  v_next :: nat
  v_tcp :: counters
  v_sessions :: "(addr, nat) dict"
  v_handshakes :: "(addr, nat) dict"
  v_progress :: counters
  v_tasks :: "nat set"
  v_max :: int
  v_per_ip :: int

definition view :: "server \<Rightarrow> tables" where
  "view s =
     \<lparr>v_peers = peers s, v_next = next_id s, v_tcp = tcp_connections s, v_sessions = udp_sessions s,
      v_handshakes = udp_handshakes s, v_progress = udp_in_progress s, v_tasks = set (conn_tasks s),
      v_max = max_connections s, v_per_ip = max_connections_per_ip s\<rparr>"

lemma view_set_end [simp]: "same_peer e (heap s tid) \<Longrightarrow> view (set_end tid e s) = view s"
  by (simp add: view_def)

lemma view_close_transport [simp]: "view (close_transport tid s) = view s"
  by (simp add: view_def)

lemma view_tasks [simp]:
  "view (add_task tid s) = (view s)\<lparr>v_tasks := insert tid (v_tasks (view s))\<rparr>"
  "view (discard_task tid s) = (view s)\<lparr>v_tasks := v_tasks (view s) - {tid}\<rparr>"
  by (simp_all add: view_def add_task_def discard_task_def peers_def [abs_def])

lemma view_limiter [simp]: "view (s\<lparr>failed_handshakes := tbl\<rparr>) = view s"
  by (simp add: view_def peers_def [abs_def])

lemma view_accept [simp]:
  "view (accept_tcp t s) =
     (view s)\<lparr>v_peers := (peers s)(next_id s := (False, tcp_peer t)), v_next := Suc (next_id s)\<rparr>"
  by (auto simp: view_def accept_tcp_def peers_def fun_eq_iff tcp_ops_def)

lemma connect_except_view: "connect_except now tid e s = (out, s') \<Longrightarrow> view s' = view s \<and> heap s' = heap s"
  by (auto simp: connect_except_def split: if_splits sum.splits)

subsection \<open>The abstract machine\<close>

text \<open>
  The bookkeeping alone: who comes and goes, and what happens to the tables. A connection
  that leaves its handshake, in whatever way, gives up its place among the handshakes.
\<close>

definition enter :: "counters \<Rightarrow> string \<Rightarrow> counters" where
  "enter d k = dict_set d k (dict_get_or d k 0 + 1)"

inductive table_step :: "tables \<times> (nat \<Rightarrow> phase) \<Rightarrow> tables \<times> (nat \<Rightarrow> phase) \<Rightarrow> bool" where
  a_same: "table_step (v, ph) (v, ph)"
| a_tcp_in: "i = v_next v \<Longrightarrow> sum_list (map snd (v_tcp v)) < v_max v \<Longrightarrow> dict_get_or (v_tcp v) (peer_ip p) 0 < v_per_ip v \<Longrightarrow>
    table_step (v, ph)
      (v\<lparr>v_peers := (v_peers v)(i := (False, p)), v_next := Suc i, v_tasks := insert i (v_tasks v),
         v_tcp := enter (v_tcp v) (peer_ip p)\<rparr>, ph(i := Handshaking))"
| a_tcp_rejected: "i = v_next v \<Longrightarrow>
    table_step (v, ph) (v\<lparr>v_peers := (v_peers v)(i := (False, p)), v_next := Suc i, v_tasks := v_tasks v - {i}\<rparr>, ph)"
| a_udp_in: "i = v_next v \<Longrightarrow> dict_get (v_handshakes v) a = None \<Longrightarrow> dict_get_or (v_progress v) (fst a) 0 < 3 \<Longrightarrow>
    int (length (v_handshakes v)) < v_max v * 2 \<Longrightarrow>
    table_step (v, ph)
      (v\<lparr>v_peers := (v_peers v)(i := (True, PeerTuple a)), v_next := Suc i, v_handshakes := dict_set (v_handshakes v) a i,
         v_progress := enter (v_progress v) (fst a)\<rparr>, ph(i := Created))"
| a_udp_begun: "ph i = Created \<Longrightarrow> v_peers v i = (True, PeerTuple a) \<Longrightarrow>
    table_step (v, ph) (v\<lparr>v_tasks := insert i (v_tasks v)\<rparr>, ph(i := Handshaking))"
| a_tcp_established: "ph i = Handshaking \<Longrightarrow> v_peers v i = (False, p) \<Longrightarrow> table_step (v, ph) (v, ph(i := Serving))"
| a_udp_established: "ph i = Handshaking \<Longrightarrow> v_peers v i = (True, PeerTuple a) \<Longrightarrow>
    int (length (v_sessions v)) < v_max v \<Longrightarrow> sessions_of_ip (fst a) (v_sessions v) < v_per_ip v \<Longrightarrow>
    table_step (v, ph)
      (v\<lparr>v_progress := dict_decrement (v_progress v) (fst a), v_sessions := dict_set (v_sessions v) a i,
         v_handshakes := dict_pop (v_handshakes v) a\<rparr>, ph(i := Serving))"
| a_tcp_out: "ph i = Handshaking \<or> ph i = Serving \<Longrightarrow> v_peers v i = (False, p) \<Longrightarrow>
    table_step (v, ph)
      (v\<lparr>v_tasks := v_tasks v - {i}, v_tcp := dict_decrement (v_tcp v) (peer_ip p)\<rparr>, ph(i := Closing))"
| a_udp_out: "ph i = Handshaking \<or> ph i = Serving \<Longrightarrow> v_peers v i = (True, PeerTuple a) \<Longrightarrow>
    table_step (v, ph)
      (v\<lparr>v_tasks := v_tasks v - {i},
         v_progress := (if ph i = Handshaking then dict_decrement (v_progress v) (fst a) else v_progress v),
         v_handshakes := pop_if_same (v_handshakes v) a i, v_sessions := pop_if_same (v_sessions v) a i\<rparr>,
       ph(i := Closing))"
| a_closed: "ph i = Closing \<Longrightarrow> table_step (v, ph) (v, ph(i := Absent))"

lemma peers_udp: "heap s i = UdpEnd st \<Longrightarrow> peers s i = (True, PeerTuple (remote_addr st))"
  by (simp add: peers_def udp_ops_def)

lemma peers_tcp: "heap s i = TcpEnd t \<Longrightarrow> peers s i = (False, tcp_peer t)"
  by (simp add: peers_def tcp_ops_def)

lemma view_fields [simp]:
  "v_peers (view s) = peers s" "v_next (view s) = next_id s" "v_tcp (view s) = tcp_connections s"
  "v_sessions (view s) = udp_sessions s" "v_handshakes (view s) = udp_handshakes s"
  "v_progress (view s) = udp_in_progress s" "v_tasks (view s) = set (conn_tasks s)"
  "v_max (view s) = max_connections s" "v_per_ip (view s) = max_connections_per_ip s"
  by (simp_all add: view_def)

lemma tasks_tables [simp]:
  "tcp_connections (add_task tid s) = tcp_connections s" "heap (add_task tid s) = heap s"
  "max_connections (add_task tid s) = max_connections s" "max_connections_per_ip (add_task tid s) = max_connections_per_ip s"
  "heap (discard_task tid s) = heap s" "tcp_connections (discard_task tid s) = tcp_connections s"
  "udp_in_progress (discard_task tid s) = udp_in_progress s" "udp_handshakes (discard_task tid s) = udp_handshakes s"
  "udp_sessions (discard_task tid s) = udp_sessions s"
  by (simp_all add: add_task_def discard_task_def)

lemma view_updates [simp]:
  "view (s\<lparr>tcp_connections := d\<rparr>) = (view s)\<lparr>v_tcp := d\<rparr>"
  "view (s\<lparr>udp_in_progress := d\<rparr>) = (view s)\<lparr>v_progress := d\<rparr>"
  "view (s\<lparr>udp_handshakes := h\<rparr>) = (view s)\<lparr>v_handshakes := h\<rparr>"
  "view (s\<lparr>udp_sessions := h\<rparr>) = (view s)\<lparr>v_sessions := h\<rparr>"
  "view (s\<lparr>cookie_buckets := b, udp_out := out\<rparr>) = view s"
  by (simp_all add: view_def peers_def [abs_def])

lemma begin_tcp_step:
  assumes "connect_begin (next_id s) (accept_tcp t s) = (admitted, s')"
  shows "table_step (view s, ph) (view s', if admitted then ph(next_id s := Handshaking) else ph)"
proof -
  have h: "heap (accept_tcp t s) (next_id s) = TcpEnd t" by (simp add: accept_tcp_def)
  have f: "tcp_connections (accept_tcp t s) = tcp_connections s" "max_connections (accept_tcp t s) = max_connections s"
    "max_connections_per_ip (accept_tcp t s) = max_connections_per_ip s" by (simp_all add: accept_tcp_def)
  show ?thesis
    using assms a_tcp_in [OF refl, of "view s" "tcp_peer t" ph] a_tcp_rejected [OF refl, of "view s" ph "tcp_peer t"]
    by (auto simp: connect_begin_def Let_def h f enter_def split: if_splits)
qed

lemma datagram_step:
  assumes "handle_udp_datagram now wall data addr s = (r, s')"
  shows "table_step (view s, ph) (view s', case r of Done (Some tid) \<Rightarrow> ph(tid := Created) | _ \<Rightarrow> ph)"
  using assms
proof (cases rule: handle_udp_datagram_cases)
  case dropped
  then show ?thesis by (simp add: a_same)
next
  case (fed tid e)
  then show ?thesis by (auto simp: a_same split: io.splits option.splits)
next
  case (issued buckets out)
  then show ?thesis by (simp add: a_same)
next
  case started
  have "peers (opened data addr s) = (peers s)(next_id s := (True, PeerTuple addr))"
    by (auto simp: peers_def opened_def fun_eq_iff udp_ops_def) (simp add: UDPStream_def)
  then have "view (opened data addr s) =
    (view s)\<lparr>v_peers := (peers s)(next_id s := (True, PeerTuple addr)), v_next := Suc (next_id s),
       v_handshakes := dict_set (udp_handshakes s) addr (next_id s), v_progress := enter (udp_in_progress s) (fst addr)\<rparr>"
    by (simp add: view_def) (simp add: opened_def enter_def)
  then show ?thesis
    using a_udp_in [OF refl, of "view s" addr ph] started by simp
qed

lemma view_finally:
  "heap s tid = TcpEnd t \<Longrightarrow> view (connect_finally tid dec s) =
     (view s)\<lparr>v_tasks := set (conn_tasks s) - {tid}, v_tcp := dict_decrement (tcp_connections s) (peer_ip (tcp_peer t))\<rparr>"
  "heap s tid = UdpEnd st \<Longrightarrow> view (connect_finally tid dec s) =
     (view s)\<lparr>v_tasks := set (conn_tasks s) - {tid},
       v_progress := (if dec then udp_in_progress s else dict_decrement (udp_in_progress s) (fst (remote_addr st))),
       v_handshakes := pop_if_same (udp_handshakes s) (remote_addr st) tid,
       v_sessions := pop_if_same (udp_sessions s) (remote_addr st) tid\<rparr>"
  by (simp_all add: connect_finally_def Let_def view_def peers_def [abs_def] discard_task_def)

lemma finally_step:
  assumes "ph tid = Handshaking \<or> ph tid = Serving" "decremented \<longleftrightarrow> is_udp (heap s tid) \<and> ph tid = Serving"
  shows "table_step (view s, ph) (view (connect_finally tid decremented s), ph(tid := Closing))"
proof (cases "heap s tid")
  case (TcpEnd t)
  then show ?thesis
    using a_tcp_out [of ph tid "view s" "tcp_peer t"] assms(1) by (simp add: view_finally peers_tcp)
next
  case (UdpEnd st)
  then show ?thesis
    using a_udp_out [of ph tid "view s" "remote_addr st"] assms by (auto simp: view_finally peers_udp)
qed

lemma established_step:
  assumes "ph tid = Handshaking" "connect_established tid s = (True, s')"
  shows "table_step (view s, ph) (view s', ph(tid := Serving))"
proof (cases "heap s tid")
  case (TcpEnd t)
  then show ?thesis
    using a_tcp_established [of ph tid "view s" "tcp_peer t"] assms by (simp add: connect_established_def peers_tcp)
next
  case (UdpEnd st)
  then show ?thesis
    using a_udp_established [of ph tid "view s" "remote_addr st"] assms
    by (auto simp: connect_established_def peers_udp Let_def split: if_splits option.splits)
qed

lemma refused_step:
  assumes "ph tid = Handshaking" "connect_established tid s = (False, s')"
  shows "table_step (view s, ph) (view (connect_finally tid (is_udp (heap s tid)) s'), ph(tid := Closing))"
proof (cases "heap s tid")
  case (TcpEnd t)
  then show ?thesis using assms(2) by (simp add: connect_established_def)
next
  case (UdpEnd st)
  let ?s1 = "s\<lparr>udp_in_progress := dict_decrement (udp_in_progress s) (fst (remote_addr st))\<rparr>"
  have s': "s' = close_transport tid ?s1"
    using assms(2) UdpEnd by (auto simp: connect_established_def Let_def split: if_splits)
  have h: "heap s' tid = UdpEnd (udp_close st)" by (simp add: s' close_transport_def set_end_def UdpEnd udp_ops_def)
  have "view s' = (view s)\<lparr>v_progress := dict_decrement (udp_in_progress s) (fst (remote_addr st))\<rparr>" by (simp add: s')
  then have "view (connect_finally tid True s') =
      (view s)\<lparr>v_tasks := set (conn_tasks s) - {tid},
        v_progress := dict_decrement (udp_in_progress s) (fst (remote_addr st)),
        v_handshakes := pop_if_same (udp_handshakes s) (remote_addr st) tid,
        v_sessions := pop_if_same (udp_sessions s) (remote_addr st) tid\<rparr>"
    unfolding view_finally(2) [OF h] by (simp add: s' udp_close_def)
  then show ?thesis
    using a_udp_out [of ph tid "view s" "remote_addr st"] assms(1) UdpEnd by (simp add: peers_udp)
qed

text \<open>Every step of the server is a step of the bookkeeping.\<close>

lemma server_step_table_step: "server_step (s, ph) (s', ph') \<Longrightarrow> table_step (view s, ph) (view s', ph')"
proof (induction "(s, ph)" "(s', ph')" arbitrary: s ph s' ph' rule: server_step.induct)
  case (tcp_accepted s t admitted s' ph)
  then show ?case by (rule begin_tcp_step)
next
  case (datagram now wall data addr s r s' ph)
  then show ?case by (rule datagram_step)
next
  case (udp_begun ph tid s admitted s')
  then obtain st where "heap s tid = UdpEnd st" by (cases "heap s tid") simp_all
  then show ?case
    using udp_begun a_udp_begun [of ph tid "view s" "remote_addr st"] by (auto simp: connect_begin_def Let_def peers_udp)
next
  case (traffic e s tid ph)
  then show ?case by (simp add: a_same)
next
  case (handshake_recorded s ph tbl)
  then show ?case by (simp add: a_same)
next
  case (established ph tid s s')
  then show ?case by (rule established_step)
next
  case (refused ph tid s s')
  then show ?case by (rule refused_step)
next
  case (failed ph tid now e s out s')
  then show ?case using connect_except_view [OF failed(2)] finally_step [of ph tid False s'] by auto
next
  case (ended ph tid s)
  then show ?case by (intro finally_step) auto
next
  case (aborted ph tid now e s out s')
  then show ?case using connect_except_view [OF aborted(2)] finally_step [of ph tid "is_udp (heap s tid)" s'] by auto
next
  case (closed ph tid s)
  then show ?case by (simp add: a_closed)
qed

subsection \<open>Invariants of the bookkeeping\<close>

definition ids_inv :: "tables \<Rightarrow> (nat \<Rightarrow> phase) \<Rightarrow> bool" where
  "ids_inv v ph \<longleftrightarrow>
     (\<forall>i. v_next v \<le> i \<longrightarrow> ph i = Absent) \<and> (\<forall>i. ph i = Created \<longrightarrow> fst (v_peers v i)) \<and>
     v_tasks v = {i. ph i = Handshaking \<or> ph i = Serving}"

definition tcp_inv :: "tables \<Rightarrow> (nat \<Rightarrow> phase) \<Rightarrow> bool" where
  "tcp_inv v ph \<longleftrightarrow>
     counts (v_tcp v) (ip_of (v_peers v)) (tcp_live_ids (v_peers v) ph) \<and>
     lc.within_limits (max 0 (v_max v)) (max 0 (v_per_ip v)) (v_tcp v)"

lemma ids_inv_step: "table_step (v, ph) (v', ph') \<Longrightarrow> ids_inv v ph \<Longrightarrow> ids_inv v' ph'"
  by (induction "(v, ph)" "(v', ph')" arbitrary: v ph v' ph' rule: table_step.induct)
    (auto simp: ids_inv_def Suc_le_eq)

lemma next_absent: "ids_inv v ph \<Longrightarrow> ph (v_next v) = Absent"
  by (auto simp: ids_inv_def)

lemma live_ids_new:
  assumes "ph n = Absent"
  shows "tcp_live_ids (p(n := x)) ph = tcp_live_ids p ph" "udp_pre_ids (p(n := x)) ph = udp_pre_ids p ph"
  using assms by (auto simp: tcp_live_ids_def udp_pre_ids_def)

lemma live_ids_same:
  "fst (p i) \<or> ((x = Handshaking \<or> x = Serving) \<longleftrightarrow> (ph i = Handshaking \<or> ph i = Serving)) \<Longrightarrow>
    tcp_live_ids p (ph(i := x)) = tcp_live_ids p ph"
  "\<not> fst (p i) \<or> ((x = Created \<or> x = Handshaking) \<longleftrightarrow> (ph i = Created \<or> ph i = Handshaking)) \<Longrightarrow>
    udp_pre_ids p (ph(i := x)) = udp_pre_ids p ph"
  by (auto simp: tcp_live_ids_def udp_pre_ids_def)

lemma live_ids_left:
  "x \<noteq> Handshaking \<Longrightarrow> x \<noteq> Serving \<Longrightarrow> tcp_live_ids p (ph(i := x)) = tcp_live_ids p ph - {i}"
  "x \<noteq> Created \<Longrightarrow> x \<noteq> Handshaking \<Longrightarrow> udp_pre_ids p (ph(i := x)) = udp_pre_ids p ph - {i}"
  by (auto simp: tcp_live_ids_def udp_pre_ids_def)

lemma counts_new:
  assumes "counts d (ip_of p) L" "n \<notin> L"
  shows "counts d (ip_of (p(n := x))) L"
  using assms by (elim counts_cong) (auto simp: ip_of_def)

lemma counts_new_insert:
  assumes "counts d (ip_of p) L" "n \<notin> L" "k = peer_ip (snd x)"
  shows "counts (enter d k) (ip_of (p(n := x))) (insert n L)"
  using counts_insert [OF counts_new [OF assms(1,2), of x] assms(2)] assms(3) by (simp add: enter_def ip_of_def)

lemma counts_leave:
  assumes "counts d (ip_of p) L" "i \<in> L" "k = peer_ip (snd (p i))"
  shows "counts (dict_decrement d k) (ip_of p) (L - {i})"
  using counts_remove [OF assms(1,2)] assms(3) by (simp add: ip_of_def)

lemma tcp_inv_step:
  assumes "table_step (v, ph) (v', ph')" "ids_inv v ph" "tcp_inv v ph"
  shows "tcp_inv v' ph'"
  using assms
proof (induction "(v, ph)" "(v', ph')" arbitrary: v ph v' ph' rule: table_step.induct)
  case (a_tcp_in i v p ph)
  have i: "i \<notin> tcp_live_ids (v_peers v) ph"
    using a_tcp_in(1) next_absent [OF a_tcp_in(4)] by (simp add: tcp_live_ids_def)
  have "tcp_live_ids ((v_peers v)(i := (False, p))) (ph(i := Handshaking)) = insert i (tcp_live_ids (v_peers v) ph)"
    by (auto simp: tcp_live_ids_def)
  moreover have "lc.within_limits (max 0 (v_max v)) (max 0 (v_per_ip v)) (enter (v_tcp v) (peer_ip p))"
    using lc.within_limits_enter [OF counts_new [OF _ i, of "v_tcp v" "v_peers v" "(False, p)"] i] a_tcp_in(2,3,5)
    by (simp add: tcp_inv_def enter_def ip_of_def)
  ultimately show ?case using a_tcp_in(5) i by (simp add: tcp_inv_def counts_new_insert)
next
  case (a_tcp_rejected i v ph p)
  have "ph i = Absent" using a_tcp_rejected next_absent by auto
  then show ?case using a_tcp_rejected by (auto simp: tcp_inv_def live_ids_new intro!: counts_new) (simp add: tcp_live_ids_def)
next
  case (a_udp_in i v a ph)
  have i: "ph i = Absent" using a_udp_in next_absent by auto
  then have "tcp_live_ids ((v_peers v)(i := (True, PeerTuple a))) (ph(i := Created)) = tcp_live_ids (v_peers v) ph"
    by (auto simp: tcp_live_ids_def)
  moreover have "i \<notin> tcp_live_ids (v_peers v) ph" using i by (simp add: tcp_live_ids_def)
  ultimately show ?case using a_udp_in by (simp add: tcp_inv_def counts_new)
next
  case (a_tcp_out ph i v p)
  have i: "i \<in> tcp_live_ids (v_peers v) ph" using a_tcp_out by (auto simp: tcp_live_ids_def)
  then show ?case
    using a_tcp_out lc.within_limits_leave [of "v_tcp v" "ip_of (v_peers v)" _ i]
    by (simp add: tcp_inv_def live_ids_left counts_leave) (simp add: ip_of_def, blast)
qed (auto simp: tcp_inv_def live_ids_same)

text \<open>
  UDP: the in-progress counts are exact, the handshake table lists exactly the streams still
  in their handshake, one per address, and every entry of the session table is a stream being
  served for that address.
\<close>

definition udp_tables_inv :: "tables \<Rightarrow> (nat \<Rightarrow> phase) \<Rightarrow> bool" where
  "udp_tables_inv v ph \<longleftrightarrow>
     counts (v_progress v) (ip_of (v_peers v)) (udp_pre_ids (v_peers v) ph) \<and>
     dict_ok (v_handshakes v) \<and> dict_ok (v_sessions v) \<and>
     (\<forall>a i. dict_get (v_handshakes v) a = Some i \<longleftrightarrow>
        (ph i = Created \<or> ph i = Handshaking) \<and> v_peers v i = (True, PeerTuple a)) \<and>
     (\<forall>a i. dict_get (v_sessions v) a = Some i \<longrightarrow> ph i = Serving \<and> v_peers v i = (True, PeerTuple a))"

definition udp_limits :: "tables \<Rightarrow> bool" where
  "udp_limits v \<longleftrightarrow>
     (\<forall>ip. dict_get_or (v_progress v) ip 0 \<le> 3) \<and> int (length (v_handshakes v)) \<le> max 0 (v_max v * 2) \<and>
     int (length (v_sessions v)) \<le> max 0 (v_max v) \<and> (\<forall>ip. sessions_of_ip ip (v_sessions v) \<le> max 0 (v_per_ip v))"

lemma dict_get_pop_if_same: "dict_get (pop_if_same d a i) = (if dict_get d a = Some i then (dict_get d)(a := None) else dict_get d)"
  by (simp add: pop_if_same_def dict_simps)

lemma dict_ok_pop_if_same [simp]: "dict_ok d \<Longrightarrow> dict_ok (pop_if_same d a i)"
  by (simp add: pop_if_same_def dict_simps)

lemma handshake_unique:
  assumes "udp_tables_inv v ph" "ph i = Created \<or> ph i = Handshaking" "ph j = Created \<or> ph j = Handshaking"
    and "v_peers v i = (True, PeerTuple a)" "v_peers v j = (True, PeerTuple a)"
  shows "i = j"
proof -
  have "dict_get (v_handshakes v) a = Some i" "dict_get (v_handshakes v) a = Some j"
    using assms unfolding udp_tables_inv_def by blast+
  then show ?thesis by simp
qed

lemma progress_left:
  assumes "udp_tables_inv v ph" "ph i = Handshaking" "v_peers v i = (True, PeerTuple a)" "x = Serving \<or> x = Closing"
  shows "counts (dict_decrement (v_progress v) (fst a)) (ip_of (v_peers v)) (udp_pre_ids (v_peers v) (ph(i := x)))"
proof -
  have "i \<in> udp_pre_ids (v_peers v) ph" using assms(2,3) by (simp add: udp_pre_ids_def)
  moreover have "fst a = peer_ip (snd (v_peers v i))" using assms(3) by (cases a) simp
  moreover have "udp_pre_ids (v_peers v) (ph(i := x)) = udp_pre_ids (v_peers v) ph - {i}"
    using assms(4) by (intro live_ids_left) auto
  ultimately show ?thesis using assms(1) by (simp add: counts_leave udp_tables_inv_def)
qed

lemma udp_tables_inv_step:
  assumes "table_step (v, ph) (v', ph')" "ids_inv v ph" "udp_tables_inv v ph"
  shows "udp_tables_inv v' ph'"
  using assms
proof (induction "(v, ph)" "(v', ph')" arbitrary: v ph v' ph' rule: table_step.induct)
  case (a_tcp_in i v p ph)
  have i: "ph i = Absent" using a_tcp_in next_absent by simp
  then have "udp_pre_ids ((v_peers v)(i := (False, p))) (ph(i := Handshaking)) = udp_pre_ids (v_peers v) ph"
    "i \<notin> udp_pre_ids (v_peers v) ph"
    by (auto simp: udp_pre_ids_def)
  then show ?case using a_tcp_in(5) i by (auto simp: udp_tables_inv_def counts_new)
next
  case (a_tcp_rejected i v ph p)
  have i: "ph i = Absent" using a_tcp_rejected next_absent by simp
  then have "i \<notin> udp_pre_ids (v_peers v) ph" by (simp add: udp_pre_ids_def)
  then show ?case using a_tcp_rejected(3) i by (auto simp: udp_tables_inv_def live_ids_new counts_new)
next
  case (a_udp_in i v a ph)
  have i: "ph i = Absent" using a_udp_in next_absent by simp
  have new: "udp_pre_ids ((v_peers v)(i := (True, PeerTuple a))) (ph(i := Created)) = insert i (udp_pre_ids (v_peers v) ph)"
    by (auto simp: udp_pre_ids_def)
  have fresh: "i \<notin> udp_pre_ids (v_peers v) ph" using i by (simp add: udp_pre_ids_def)
  have ip: "fst a = peer_ip (snd (True, PeerTuple a))" by (cases a) simp
  have "counts (enter (v_progress v) (fst a)) (ip_of ((v_peers v)(i := (True, PeerTuple a))))
      (udp_pre_ids ((v_peers v)(i := (True, PeerTuple a))) (ph(i := Created)))"
    unfolding new using a_udp_in(6) by (intro counts_new_insert [OF _ fresh ip]) (simp add: udp_tables_inv_def)
  moreover have "\<not> ((ph j = Created \<or> ph j = Handshaking) \<and> v_peers v j = (True, PeerTuple a))" for j
    using a_udp_in(2,6) unfolding udp_tables_inv_def by (metis option.distinct(1))
  ultimately show ?case using a_udp_in(6) i by (auto simp: udp_tables_inv_def dict_simps)
next
  case (a_udp_established ph i v a)
  have "counts (dict_decrement (v_progress v) (fst a)) (ip_of (v_peers v)) (udp_pre_ids (v_peers v) (ph(i := Serving)))"
    using a_udp_established(6,1,2) by (rule progress_left) simp
  moreover have "j = i" if "ph j = Created \<or> ph j = Handshaking" "v_peers v j = (True, PeerTuple a)" for j
    using handshake_unique [OF a_udp_established(6) that(1) _ that(2)] a_udp_established(1,2) by simp
  ultimately show ?case using a_udp_established(1,2,6) by (auto simp: udp_tables_inv_def dict_simps)
next
  case (a_udp_out ph i v a)
  have "counts (if ph i = Handshaking then dict_decrement (v_progress v) (fst a) else v_progress v)
      (ip_of (v_peers v)) (udp_pre_ids (v_peers v) (ph(i := Closing)))"
    using progress_left [OF a_udp_out(4) _ a_udp_out(2)] a_udp_out(1,4)
    by (cases "ph i = Handshaking") (auto simp: live_ids_same udp_tables_inv_def)
  moreover have "j = i" if "ph i = Handshaking" "ph j = Created \<or> ph j = Handshaking" "v_peers v j = (True, PeerTuple a)" for j
    using handshake_unique [OF a_udp_out(4) that(2) _ that(3)] that(1) a_udp_out(2) by simp
  ultimately show ?case using a_udp_out(1,2,4) by (auto simp: udp_tables_inv_def dict_get_pop_if_same)
qed (auto simp: udp_tables_inv_def live_ids_same)

lemma length_dict_set_le: "length (dict_set d k v) \<le> Suc (length d)"
  by (induction d k v rule: dict_set.induct) auto

lemma length_dict_pop_le: "length (dict_pop d k) \<le> length d"
  by (simp add: dict_pop_def)

lemma length_pop_if_same_le: "length (pop_if_same d a i) \<le> length d"
  by (simp add: pop_if_same_def dict_pop_def)

lemma sessions_of_ip_set: "sessions_of_ip ip (dict_set d a i) \<le> sessions_of_ip ip d + (if fst a = ip then 1 else 0)"
  unfolding sessions_of_ip_def by (induction d a i rule: dict_set.induct) auto

lemma length_filter_filter_le: "length (filter p (filter q xs)) \<le> length (filter p xs)"
  by (induction xs) auto

lemma sessions_of_ip_pop: "sessions_of_ip ip (pop_if_same d a i) \<le> sessions_of_ip ip d"
  by (simp add: sessions_of_ip_def pop_if_same_def dict_pop_def length_filter_filter_le del: filter_filter)

lemma dict_get_or_enter: "dict_get_or (enter d k) j 0 = dict_get_or d j 0 + (if j = k then 1 else 0)"
  by (simp add: enter_def dict_get_or_def dict_simps)

lemma dict_get_or_decrement:
  "dict_get_or (dict_decrement d k) j 0 \<le> max 0 (dict_get_or d j 0)"
  by (auto simp: dict_decrement_def dict_get_or_def dict_simps split: option.splits)

lemma udp_limits_step:
  assumes "table_step (v, ph) (v', ph')" "udp_limits v"
  shows "udp_limits v'"
  using assms
proof (induction "(v, ph)" "(v', ph')" arbitrary: v ph v' ph' rule: table_step.induct)
  case (a_udp_in i v a ph)
  then show ?case
    using length_dict_set_le [of "v_handshakes v" a i]
    by (auto simp: udp_limits_def dict_get_or_enter)
next
  case (a_udp_established ph i v a)
  have "sessions_of_ip ip (dict_set (v_sessions v) a i) \<le> max 0 (v_per_ip v)" for ip
    using sessions_of_ip_set [of ip "v_sessions v" a i] a_udp_established(4,5)
    by (cases "fst a = ip") (auto simp: udp_limits_def intro: order_trans)
  moreover have "dict_get_or (dict_decrement (v_progress v) (fst a)) ip 0 \<le> 3" for ip
    using dict_get_or_decrement [of "v_progress v" "fst a" ip] a_udp_established(5)
    by (auto simp: udp_limits_def intro: order_trans)
  ultimately show ?case
    using a_udp_established(3,5) length_dict_set_le [of "v_sessions v" a i] length_dict_pop_le [of "v_handshakes v" a]
    by (auto simp: udp_limits_def intro: order_trans)
next
  case (a_udp_out ph i v a)
  have "dict_get_or (if ph i = Handshaking then dict_decrement (v_progress v) (fst a) else v_progress v) ip 0 \<le> 3" for ip
    using dict_get_or_decrement [of "v_progress v" "fst a" ip] a_udp_out(3) by (auto simp: udp_limits_def intro: order_trans)
  moreover have "sessions_of_ip ip (pop_if_same (v_sessions v) a i) \<le> max 0 (v_per_ip v)" for ip
    using sessions_of_ip_pop [of ip "v_sessions v" a i] a_udp_out(3) by (auto simp: udp_limits_def intro: order_trans)
  ultimately show ?case
    using a_udp_out(3) length_pop_if_same_le [of "v_sessions v" a i] length_pop_if_same_le [of "v_handshakes v" a i]
    by (auto simp: udp_limits_def intro: order_trans)
qed (auto simp: udp_limits_def)

lemma dict_get_or_Nil [simp]: "dict_get_or [] k v = v"
  by (simp add: dict_get_or_def)

text \<open>All of it holds in every reachable state.\<close>

lemma reachable_inv:
  assumes "server_reachable w"
  shows "ids_inv (view (fst w)) (snd w) \<and> tcp_inv (view (fst w)) (snd w) \<and> udp_tables_inv (view (fst w)) (snd w) \<and>
    udp_limits (view (fst w))"
  using assms
proof (induction rule: server_reachable.induct)
  case (start src timeout max_conn max_per_ip secret tbl s)
  then have "s = \<lparr>srv_psk = src, srv_session_timeout = timeout, max_connections = max_conn,
      max_connections_per_ip = max_per_ip, tcp_connections = [], udp_sessions = [], udp_handshakes = [],
      udp_in_progress = [], cookie_secret = secret, cookie_buckets = [], conn_tasks = [],
      failed_handshakes = tbl, heap = (\<lambda>_. TcpEnd (tcp_open PeerNone)), next_id = 0, udp_out = []\<rparr>"
    by (auto simp: USMPServer_def io_simps)
  then show ?case
    by (simp add: ids_inv_def tcp_inv_def udp_tables_inv_def udp_limits_def counts_empty lc.within_limits_def
        dict_ok_def sessions_of_ip_def tcp_live_ids_def udp_pre_ids_def)
next
  case (step w w')
  obtain s ph s' ph' where w: "w = (s, ph)" "w' = (s', ph')" by fastforce
  have "table_step (view s, ph) (view s', ph')" using step(2) w by (auto intro: server_step_table_step)
  then show ?case
    using step.IH w ids_inv_step tcp_inv_step udp_tables_inv_step udp_limits_step by (metis fst_conv snd_conv)
qed

subsection \<open>Undisturbed connections are runs\<close>

lemma close_after:
  assumes "server_step\<^sup>*\<^sup>* w (s, ph(tid := Closing))"
  shows "server_step\<^sup>*\<^sup>* w (close_transport tid s, ph(tid := Absent))"
proof -
  have "server_step (s, ph(tid := Closing)) (close_transport tid s, ph(tid := Absent))"
    using server_step.closed [of "ph(tid := Closing)" tid s] by simp
  with assms show ?thesis by (rule rtranclp.rtrancl_into_rtrancl)
qed

lemma failed_run:
  assumes "ph tid = Handshaking" "connect_end tid False (connect_except now tid x s) = (r, s')"
  shows "\<exists>ph'. server_step\<^sup>*\<^sup>* (s, ph) (s', ph')"
proof -
  obtain out s1 where e: "connect_except now tid x s = (out, s1)" by fastforce
  have "server_step\<^sup>*\<^sup>* (s, ph) (connect_finally tid False s1, ph(tid := Closing))"
    using server_step.failed [of ph tid now x s out s1] assms(1) e by blast
  then show ?thesis using close_after assms(2) e by (fastforce simp: connect_end_def)
qed

lemma served_run:
  assumes "ph tid = Serving" "connect_end tid (is_udp (heap s tid)) res = (r, s')"
    and "res = (None, s) \<or> res = connect_except now tid x s"
  shows "\<exists>ph'. server_step\<^sup>*\<^sup>* (s, ph) (s', ph')"
proof -
  obtain out s1 where e: "res = (out, s1)" by fastforce
  have "server_step (s, ph) (connect_finally tid (is_udp (heap s tid)) s1, ph(tid := Closing))"
    using assms(3) server_step.ended [of ph tid s] server_step.aborted [of ph tid now x s out s1] assms(1) e by auto
  then have "server_step\<^sup>*\<^sup>* (s, ph) (connect_finally tid (is_udp (heap s tid)) s1, ph(tid := Closing))" by blast
  then show ?thesis using close_after assms(2) e by (fastforce simp: connect_end_def)
qed

lemma is_udp_same: "same_peer e e' \<Longrightarrow> is_udp e = is_udp e'"
  by (simp add: same_peer_def)

lemma established_is_udp: "connect_established tid s = (b, s') \<Longrightarrow> is_udp (heap s' tid) = is_udp (heap s tid)"
  by (auto simp: connect_established_def close_transport_def set_end_def Let_def is_udp_same
      split: endpoint.splits if_splits option.splits)

lemma serve_run:
  assumes "ph tid = Handshaking" "serve_session nf handler clk i tid s = (r, s')"
    and "\<And>se. same_peer (transport (snd (handler se))) (transport se)"
  shows "\<exists>ph'. server_step\<^sup>*\<^sup>* (s, ph) (s', ph')"
proof -
  obtain ok s1 where e: "connect_established tid s = (ok, s1)" by fastforce
  show ?thesis
  proof (cases ok)
    case False
    have "server_step\<^sup>*\<^sup>* (s, ph) (connect_finally tid (is_udp (heap s tid)) s1, ph(tid := Closing))"
      using server_step.refused [of ph tid s s1] assms(1) e False by auto
    then show ?thesis using close_after assms(2) e False by (fastforce simp: serve_session_def connect_end_def)
  next
    case True
    let ?ph = "ph(tid := Serving)"
    obtain hr se where h: "handler (USMPSession (heap s1 tid) i None clk) = (hr, se)" by fastforce
    let ?s2 = "set_end tid (transport se) s1"
    have p: "same_peer (transport se) (heap s1 tid)"
      using assms(3) [of "USMPSession (heap s1 tid) i None clk"] h by (simp add: USMPSession_def)
    have run: "server_step\<^sup>*\<^sup>* (s, ph) (?s2, ?ph)"
      using server_step.established [of ph tid s s1] assms(1) e True server_step.traffic [OF p, of ?ph]
      by (auto intro: converse_rtranclp_into_rtranclp)
    have u: "is_udp (heap ?s2 tid) = is_udp (heap s tid)"
      using is_udp_same [OF p] established_is_udp [OF e] by (simp add: set_end_def)
    have rest: "(case hr of Done _ \<Rightarrow> connect_end tid (is_udp (heap ?s2 tid)) (None, ?s2)
        | Raise x \<Rightarrow> connect_end tid (is_udp (heap ?s2 tid)) (connect_except nf tid x ?s2) | Waiting \<Rightarrow> (Waiting, ?s2)) = (r, s')"
      unfolding u using assms(2) e True h by (simp add: serve_session_def Let_def)
    have "\<exists>ph'. server_step\<^sup>*\<^sup>* (?s2, ?ph) (s', ph')"
    proof (cases hr)
      case (Done u)
      then show ?thesis using rest by (intro served_run [of ?ph tid ?s2 "(None, ?s2)" r s']) simp_all
    next
      case (Raise x)
      then show ?thesis using rest by (intro served_run [of ?ph tid ?s2 "connect_except nf tid x ?s2" r s' nf x]) simp_all
    next
      case Waiting
      then show ?thesis using rest by auto
    qed
    then show ?thesis using run by (auto intro: rtranclp_trans)
  qed
qed

lemma connect_run:
  assumes "connect_begin tid s0 = (True, s1)" "on_transport_connect c conn priv nonce sid now nf handler clk tid s0 = (r, s')"
    and "ph tid = Handshaking" "\<And>se. same_peer (transport (snd (handler se))) (transport se)"
  shows "\<exists>ph'. server_step\<^sup>*\<^sup>* (s1, ph) (s', ph')"
proof -
  obtain hr e tbl where h: "run_handshake c (srv_psk s1) conn priv nonce sid now nf (heap s1 tid, failed_handshakes s1) = (hr, e, tbl)"
    using prod_cases3 by blast
  let ?s2 = "(set_end tid e s1)\<lparr>failed_handshakes := tbl\<rparr>"
  have "same_peer e (heap s1 tid)" using h by (rule run_handshake_same_peer)
  then have run: "server_step\<^sup>*\<^sup>* (s1, ph) (?s2, ph)"
    using server_step.traffic [of e s1 tid ph] server_step.handshake_recorded [of "set_end tid e s1" ph tbl]
    by (auto intro: converse_rtranclp_into_rtranclp)
  have "\<exists>ph'. server_step\<^sup>*\<^sup>* (?s2, ph) (s', ph')"
    using assms(1,2) h failed_run [of ph tid, OF assms(3)] serve_run [of ph tid, OF assms(3) _ assms(4)]
    by (auto simp: on_transport_connect_def Let_def split: io.splits)
  then show ?thesis using run by (auto intro: rtranclp_trans)
qed

lemma reachable_run: "server_step\<^sup>*\<^sup>* w w' \<Longrightarrow> server_reachable w \<Longrightarrow> server_reachable w'"
  by (induction rule: rtranclp_induct) (auto intro: server_reachable.step)

subsection \<open>Properties\<close>

text \<open>
  C15. Every step of the server, whatever connections and datagrams do and in whatever order
  their parts run, is a step of the abstract bookkeeping machine: the tables change only by
  the rules of that machine.
\<close>

theorem server_refines_tables:
  assumes "server_step (s, ph) (s', ph')"
  shows "table_step (view s, ph) (view s', ph')"
  using assms by (rule server_step_table_step)

theorem server_refines_tables_witness:
  "table_step (view toy_listener, \<lambda>_. Absent) (view (opened toy_hello (''h'', 5) toy_listener), (\<lambda>_. Absent)(0 := Created))"
  using server_refines_tables [OF server_step.datagram [OF toy_hello_starts]] by simp

text \<open>
  \<open>_on_transport_connect\<close> run from start to end (or to a handler that is still waiting) on
  a new TCP connection is a run of the step relation, whatever the client sends and however
  the handshake or the handler ends: everything shown of the reachable states of the server
  holds after it.
\<close>

lemma tcp_connection_is_run:
  assumes "on_transport_connect c conn priv nonce sid now nf handler clk (next_id s) (accept_tcp t s) = (r, s')"
    and "\<forall>se. same_peer (transport (snd (handler se))) (transport se)"
  shows "\<exists>ph'. server_step\<^sup>*\<^sup>* (s, ph) (s', ph') \<and> (server_reachable (s, ph) \<longrightarrow> server_reachable (s', ph'))"
proof -
  obtain ok s1 where b: "connect_begin (next_id s) (accept_tcp t s) = (ok, s1)" by fastforce
  have first: "server_step (s, ph) (s1, if ok then ph(next_id s := Handshaking) else ph)"
    using b by (rule server_step.tcp_accepted)
  have "\<exists>ph'. server_step\<^sup>*\<^sup>* (s, ph) (s', ph')"
  proof (cases ok)
    case True
    then have b': "connect_begin (next_id s) (accept_tcp t s) = (True, s1)" using b by simp
    from connect_run [OF b' assms(1), of "ph(next_id s := Handshaking)"] show ?thesis
      using first True assms(2) by (auto intro: converse_rtranclp_into_rtranclp)
  next
    case False
    then show ?thesis using first assms(1) b by (auto simp: on_transport_connect_def)
  qed
  then show ?thesis using reachable_run by blast
qed

lemma toy_listener_start: "server_reachable (toy_listener, \<lambda>_. Absent)"
proof (rule server_reachable.start)
  show "USMPServer (PskBytes (replicate 16 7)) 60 100 5 [1] [] = Inr toy_listener"
    by (simp add: USMPServer_def check_psk_def psk_truthy_def toy_listener_def)
qed

text \<open>
  C7. The TCP connection counts are exact in every reachable state of the server: the entry of
  a host is the number of its connections between admission and clean-up, however they end;
  it never exceeds the limit per host, nor does the sum exceed the global limit; and when no
  connection is left the table is empty.
\<close>

theorem tcp_connections_exact:
  assumes "server_reachable (s, ph)"
  shows "let live = {i. (ph i = Handshaking \<or> ph i = Serving) \<and> \<not> is_udp (heap s i)};
      of_ip = (\<lambda>ip. {i \<in> live. peer_ip (end_peername (heap s i)) = ip}) in
    dict_get_or (tcp_connections s) ip 0 = int (card (of_ip ip)) \<and>
    int (card (of_ip ip)) \<le> max 0 (max_connections_per_ip s) \<and> int (card live) \<le> max 0 (max_connections s) \<and>
    (live = {} \<longrightarrow> tcp_connections s = [])"
proof -
  have inv: "tcp_inv (view s) ph" using reachable_inv [OF assms] by simp
  let ?live = "{i. (ph i = Handshaking \<or> ph i = Serving) \<and> \<not> is_udp (heap s i)}"
  have live: "tcp_live_ids (peers s) ph = ?live" by (simp add: tcp_live_ids_def peers_def)
  have c: "counts (tcp_connections s) (ip_of (peers s)) ?live" using inv by (simp add: tcp_inv_def live)
  have "dict_get_or (tcp_connections s) ip 0 = int (card {i \<in> ?live. peer_ip (end_peername (heap s i)) = ip})"
    using lc.exact_look [OF c, of ip] by (simp add: ip_of_def peers_def)
  moreover have "sum_list (map snd (tcp_connections s)) = int (card ?live)" using c by (rule counts_sum)
  moreover have "lc.within_limits (max 0 (max_connections s)) (max 0 (max_connections_per_ip s)) (tcp_connections s)"
    using inv by (simp add: tcp_inv_def)
  moreover have "tcp_connections s = []" if "?live = {}" using c that by (metis counts_none)
  ultimately show ?thesis by (simp add: lc.within_limits_def Let_def) metis
qed

definition toy_accepted :: server where
  "toy_accepted = snd (connect_begin 0 (accept_tcp (tcp_open (PeerTuple (''h'', 1))) toy_listener))"

lemma toy_accepted_reachable: "server_reachable (toy_accepted, (\<lambda>_. Absent)(0 := Handshaking))"
proof -
  have "connect_begin (next_id toy_listener) (accept_tcp (tcp_open (PeerTuple (''h'', 1))) toy_listener) = (True, toy_accepted)"
    by (simp add: toy_accepted_def connect_begin_def Let_def accept_tcp_def add_task_def toy_listener_def tcp_open_def dict_get_or_def)
  from server_step.tcp_accepted [OF this, of "\<lambda>_. Absent"] show ?thesis
    using server_reachable.step [OF toy_listener_start] by (simp add: toy_listener_fields)
qed

theorem tcp_connections_exact_witness:
  "dict_get_or (tcp_connections toy_accepted) ''h'' 0 =
     int (card {i. i = (0 :: nat) \<and> \<not> is_udp (heap toy_accepted i) \<and> peer_ip (end_peername (heap toy_accepted i)) = ''h''})"
  using tcp_connections_exact [OF toy_accepted_reachable, of "''h''"]
  by (simp add: Let_def conj_ac if_distrib [where f = "\<lambda>x. x = _"] cong: if_cong conj_cong)

text \<open>
  C14. The UDP tables are exact in every reachable state: the in-progress count of a host is the
  number of its streams that have not finished their handshake, at most three; the handshake
  table lists exactly those streams, one per address, at most twice the connection limit; and
  every entry of the session table is a stream whose handler is running, registered under its
  own address, within the global and the per-host limit.
\<close>

theorem udp_tables_exact:
  assumes "server_reachable (s, ph)"
  shows "dict_get_or (udp_in_progress s) ip 0 =
      int (card {i. (ph i = Created \<or> ph i = Handshaking) \<and> is_udp (heap s i) \<and> peer_ip (end_peername (heap s i)) = ip}) \<and>
    dict_get_or (udp_in_progress s) ip 0 \<le> 3 \<and>
    (dict_get (udp_handshakes s) a = Some i \<longleftrightarrow>
      (ph i = Created \<or> ph i = Handshaking) \<and> is_udp (heap s i) \<and> end_peername (heap s i) = PeerTuple a) \<and>
    int (length (udp_handshakes s)) \<le> max 0 (max_connections s * 2) \<and>
    (dict_get (udp_sessions s) a = Some i \<longrightarrow>
      ph i = Serving \<and> is_udp (heap s i) \<and> end_peername (heap s i) = PeerTuple a) \<and>
    int (length (udp_sessions s)) \<le> max 0 (max_connections s) \<and>
    sessions_of_ip ip (udp_sessions s) \<le> max 0 (max_connections_per_ip s)"
proof -
  have inv: "udp_tables_inv (view s) ph" "udp_limits (view s)" using reachable_inv [OF assms] by simp_all
  have c: "counts (udp_in_progress s) (ip_of (peers s)) (udp_pre_ids (peers s) ph)" using inv(1) by (simp add: udp_tables_inv_def)
  have "{i \<in> udp_pre_ids (peers s) ph. ip_of (peers s) i = ip} =
      {i. (ph i = Created \<or> ph i = Handshaking) \<and> is_udp (heap s i) \<and> peer_ip (end_peername (heap s i)) = ip}"
    by (auto simp: udp_pre_ids_def ip_of_def peers_def)
  then have "dict_get_or (udp_in_progress s) ip 0 =
      int (card {i. (ph i = Created \<or> ph i = Handshaking) \<and> is_udp (heap s i) \<and> peer_ip (end_peername (heap s i)) = ip})"
    using lc.exact_look [OF c, of ip] by simp
  moreover have p: "peers s i = (True, PeerTuple a) \<longleftrightarrow> is_udp (heap s i) \<and> end_peername (heap s i) = PeerTuple a"
    by (simp add: peers_def)
  moreover have "dict_get (udp_handshakes s) a = Some i \<longleftrightarrow> (ph i = Created \<or> ph i = Handshaking) \<and> peers s i = (True, PeerTuple a)"
    "dict_get (udp_sessions s) a = Some i \<longrightarrow> ph i = Serving \<and> peers s i = (True, PeerTuple a)"
    using inv(1) unfolding udp_tables_inv_def view_fields by blast+
  moreover have "dict_get_or (udp_in_progress s) ip 0 \<le> 3" using inv(2) by (simp add: udp_limits_def)
  ultimately show ?thesis using inv(2) by (simp add: udp_limits_def)
qed

lemma toy_opened_reachable: "server_reachable (opened toy_hello (''h'', 5) toy_listener, (\<lambda>_. Absent)(0 := Created))"
  using server_reachable.step [OF toy_listener_start server_step.datagram [OF toy_hello_starts]] by simp

lemma toy_opened_end:
  "is_udp (heap (opened toy_hello (''h'', 5) toy_listener) 0)"
  "end_peername (heap (opened toy_hello (''h'', 5) toy_listener) 0) = PeerTuple (''h'', 5)"
  by (simp_all add: opened_def toy_listener_fields udp_ops_def) (simp add: UDPStream_def)

theorem udp_tables_exact_witness:
  "dict_get_or (udp_in_progress (opened toy_hello (''h'', 5) toy_listener)) ''h'' 0 \<le> 3 \<and>
   end_peername (heap (opened toy_hello (''h'', 5) toy_listener) 0) = PeerTuple (''h'', 5)"
proof -
  let ?s = "opened toy_hello (''h'', 5) toy_listener"
  have "dict_get (udp_handshakes ?s) (''h'', 5) = Some 0" by (simp add: opened_def dict_get_def toy_listener_fields)
  then show ?thesis using udp_tables_exact [OF toy_opened_reachable, of "''h''" "(''h'', 5)" 0] by simp
qed

end
