(* ===== verification/Handshake_Gate.thy ===== *)
theory Handshake_Gate
  imports Server_Runs Permits
begin

text \<open>
  The semaphore of the server's handshakes: \<open>_run_handshake\<close> of \<open>src/src/usmp/_server.py\<close> runs
  \<open>server_handshake\<close> only while it holds one of ten permits. The runs of \<open>Server_Runs\<close> are
  considered together with the semaphore; then one connection that finds no permit.
\<close>

text \<open>\<open>asyncio.Semaphore(10)\<close>.\<close>

definition handshake_permits :: nat where
  "handshake_permits = 10"

definition handshake_semaphore :: py_semaphore where
  "handshake_semaphore = Semaphore handshake_permits"

subsection \<open>Runs with the semaphore\<close>

type_synonym gated = "server \<times> (nat \<Rightarrow> phase) \<times> py_semaphore"

text \<open>
  A connection that comes to its handshake asks for a permit. One that holds a permit gives it
  back when the handshake ends, however it ends; one that still waits can only be cut off, by
  the handshake timeout or a cancellation. Nothing else touches the semaphore.
\<close>

inductive gated_step :: "gated \<Rightarrow> gated \<Rightarrow> bool" where
  asks: "server_step (s, ph) (s', ph(tid := Handshaking)) \<Longrightarrow> ph tid \<noteq> Handshaking \<Longrightarrow>
    gated_step (s, ph, g) (s', ph(tid := Handshaking), sem_acquire tid g)"
| gives_back: "server_step (s, ph) (s', ph(tid := p)) \<Longrightarrow> ph tid = Handshaking \<Longrightarrow> p \<noteq> Handshaking \<Longrightarrow>
    tid \<in> set (permit_holders g) \<Longrightarrow> gated_step (s, ph, g) (s', ph(tid := p), sem_release tid g)"
| cut_off: "ph tid = Handshaking \<Longrightarrow> tid \<in> set (sem_queue g) \<Longrightarrow> e \<in> {TimeoutError, CancelledError} \<Longrightarrow>
    connect_except now tid e s = (out, s') \<Longrightarrow>
    gated_step (s, ph, g) (connect_finally tid False s', ph(tid := Closing), sem_cancel tid g)"
| elsewhere: "server_step (s, ph) (s', ph') \<Longrightarrow> {i. ph' i = Handshaking} = {i. ph i = Handshaking} \<Longrightarrow>
    gated_step (s, ph, g) (s', ph', g)"

inductive gated_reachable :: "gated \<Rightarrow> bool" where
  start: "USMPServer src timeout max_conn max_per_ip secret tbl = Inr s \<Longrightarrow>
    gated_reachable (s, \<lambda>_. Absent, handshake_semaphore)"
| step: "gated_reachable w \<Longrightarrow> gated_step w w' \<Longrightarrow> gated_reachable w'"

text \<open>The server in such a run is in a run of the server.\<close>

lemma gated_server: "gated_reachable (s, ph, g) \<Longrightarrow> server_reachable (s, ph)"
proof (induction "(s, ph, g)" arbitrary: s ph g rule: gated_reachable.induct)
  case (start src timeout max_conn max_per_ip secret tbl s)
  then show ?case by (rule server_reachable.start)
next
  case (step w)
  obtain s0 ph0 g0 where w: "w = (s0, ph0, g0)" by (cases w)
  have "server_step (s0, ph0) (s, ph)"
    using step(3) unfolding w by (cases rule: gated_step.cases) (auto intro: server_step.failed)
  then show ?case using step(2) [OF w] server_reachable.step by blast
qed

definition gate_inv :: "(nat \<Rightarrow> phase) \<Rightarrow> py_semaphore \<Rightarrow> bool" where
  "gate_inv ph g \<longleftrightarrow>
     sem_inv handshake_permits g \<and> set (permit_holders g @ sem_queue g) = {i. ph i = Handshaking}"

lemma handshaking_upd:
  "{i. (ph(tid := p)) i = Handshaking} =
    (if p = Handshaking then insert tid {i. ph i = Handshaking} else {i. ph i = Handshaking} - {tid})"
  by auto

lemma gate_inv_step: "gated_step w w' \<Longrightarrow> gate_inv (fst (snd w)) (snd (snd w)) \<Longrightarrow> gate_inv (fst (snd w')) (snd (snd w'))"
proof (induction rule: gated_step.induct)
  case (asks s ph s' tid g)
  have g: "sem_inv handshake_permits g" "tid \<notin> set (permit_holders g @ sem_queue g)"
    using asks by (auto simp: gate_inv_def)
  have "set (permit_holders (sem_acquire tid g) @ sem_queue (sem_acquire tid g)) =
      insert tid (set (permit_holders g @ sem_queue g))"
    using sem.acquire_law [OF g(1), of tid] by (auto split: if_splits)
  moreover have "set (permit_holders g @ sem_queue g) = {i. ph i = Handshaking}" using asks by (simp add: gate_inv_def)
  ultimately show ?case using sem.inv_acquire [OF g] unfolding gate_inv_def snd_conv fst_conv handshaking_upd by simp
next
  case (gives_back s ph s' tid p g)
  have g: "sem_inv handshake_permits g" "distinct (permit_holders g @ sem_queue g)"
    using gives_back by (auto simp: gate_inv_def sem_inv_def)
  have "set (permit_holders (sem_release tid g) @ sem_queue (sem_release tid g)) =
      set (permit_holders g @ sem_queue g) - {tid}"
    using sem.release_law [OF g(1) gives_back(4)] g(2) gives_back(4) by (cases "sem_queue g") auto
  moreover have "set (permit_holders g @ sem_queue g) = {i. ph i = Handshaking}" using gives_back by (simp add: gate_inv_def)
  ultimately show ?case
    using gives_back(3) sem.inv_release [OF g(1) gives_back(4)] unfolding gate_inv_def snd_conv fst_conv handshaking_upd by simp
next
  case (cut_off ph tid g e now s out s')
  have g: "sem_inv handshake_permits g" "distinct (permit_holders g @ sem_queue g)"
    using cut_off by (auto simp: gate_inv_def sem_inv_def)
  have "set (permit_holders (sem_cancel tid g) @ sem_queue (sem_cancel tid g)) =
      set (permit_holders g @ sem_queue g) - {tid}"
    using sem.give_up_law [OF g(1), of tid] g(2) cut_off(2) by auto
  moreover have "set (permit_holders g @ sem_queue g) = {i. ph i = Handshaking}" using cut_off by (simp add: gate_inv_def)
  ultimately show ?case using sem.inv_give_up [OF g(1) cut_off(2)] unfolding gate_inv_def snd_conv fst_conv handshaking_upd by simp
qed (auto simp: gate_inv_def)

lemma gated_reachable_inv: "gated_reachable (s, ph, g) \<Longrightarrow> gate_inv ph g"
proof (induction "(s, ph, g)" arbitrary: s ph g rule: gated_reachable.induct)
  case start
  show ?case using Semaphore_free by (simp add: gate_inv_def handshake_semaphore_def) (simp add: Semaphore_def)
next
  case (step w)
  obtain s0 ph0 g0 where w: "w = (s0, ph0, g0)" by (cases w)
  show ?case using gate_inv_step [OF step(3)] step(2) [OF w] by (simp add: w)
qed

subsection \<open>One connection and its permit\<close>

text \<open>
  \<open>_run_handshake\<close>. With a permit to be had the handshake runs; without one the coroutine is
  still waiting for the semaphore when the handshake timeout ends it.
\<close>

definition run_handshake_gated ::
  "py_semaphore \<Rightarrow> nat \<Rightarrow> crypto \<Rightarrow> psk_source \<Rightarrow> string \<Rightarrow> bytes \<Rightarrow> bytes \<Rightarrow> bytes \<Rightarrow> seconds \<Rightarrow> seconds
     \<Rightarrow> (endpoint \<times> limiter, session_info) coro"
where
  "run_handshake_gated g tid c src conn_id priv nonce sid now now_failed =
     (if tid \<in> set (permit_holders (sem_acquire tid g))
      then run_handshake c src conn_id priv nonce sid now now_failed
      else (\<lambda>(e, tbl). (Waiting, e, tbl)))"

text \<open>\<open>on_transport_connect\<close> with the semaphore.\<close>

definition on_transport_connect_gated ::
  "py_semaphore \<Rightarrow> crypto \<Rightarrow> string \<Rightarrow> bytes \<Rightarrow> bytes \<Rightarrow> bytes \<Rightarrow> seconds \<Rightarrow> seconds
     \<Rightarrow> (endpoint session \<Rightarrow> unit io \<times> endpoint session) \<Rightarrow> (nat \<Rightarrow> seconds) \<Rightarrow> nat \<Rightarrow> (server, unit) coro"
where
  "on_transport_connect_gated g c conn_id priv nonce sid now now_failed handler clk tid s =
     (case connect_begin tid s of
        (False, s1) \<Rightarrow> (Done (), s1)
      | (True, s1) \<Rightarrow>
          (case run_handshake_gated g tid c (srv_psk s1) conn_id priv nonce sid now now_failed
                  (heap s1 tid, failed_handshakes s1) of
             (r, e, tbl) \<Rightarrow>
               (let s2 = (set_end tid e s1)\<lparr>failed_handshakes := tbl\<rparr> in
                case r of
                  Raise x \<Rightarrow> connect_end tid False (connect_except now_failed tid x s2)
                | Waiting \<Rightarrow> connect_end tid False (connect_except now_failed tid TimeoutError s2)
                | Done i \<Rightarrow> serve_session now_failed handler clk i tid s2)))"

lemma acquire_held:
  "sem_inv n g \<Longrightarrow> tid \<notin> set (permit_holders g) \<Longrightarrow>
    tid \<in> set (permit_holders (sem_acquire tid g)) \<longleftrightarrow> sem_value g > 0"
  by (auto simp: sem_defs)

text \<open>While fewer than ten handshakes run, the semaphore makes no difference.\<close>

lemma gate_open:
  "sem_inv n g \<Longrightarrow> tid \<notin> set (permit_holders g) \<Longrightarrow> sem_value g > 0 \<Longrightarrow>
    on_transport_connect_gated g c conn priv nonce sid now nf handler clk tid s =
    on_transport_connect c conn priv nonce sid now nf handler clk tid s"
proof -
  assume "sem_inv n g" "tid \<notin> set (permit_holders g)" "sem_value g > 0"
  then have q: "tid \<in> set (permit_holders (sem_acquire tid g))" by (simp add: acquire_held)
  have "run_handshake_gated g tid c src conn priv nonce sid now nf x = run_handshake c src conn priv nonce sid now nf x" for src x
    using q by (simp add: run_handshake_gated_def)
  then show ?thesis by (simp only: on_transport_connect_gated_def on_transport_connect_def)
qed

subsection \<open>Properties\<close>

text \<open>
  C18. At most ten handshakes run at any time, over TCP and UDP together: in every run of the
  server each connection in its handshake holds one of ten permits or waits for one, those that
  hold one are at most ten, nobody waits while a permit is free, and whoever waits gets a permit
  once one more has been given back than there are connections ahead of it.
\<close>

theorem at_most_ten_handshakes:
  assumes "gated_reachable (s, ph, g)"
  shows "length (permit_holders g) \<le> 10 \<and>
    {i. ph i = Handshaking} = set (permit_holders g) \<union> set (sem_queue g) \<and>
    distinct (permit_holders g @ sem_queue g) \<and> (sem_queue g \<noteq> [] \<longrightarrow> length (permit_holders g) = 10) \<and>
    (\<forall>u k g'. u \<in> set (sem_queue g) \<longrightarrow> sem.run u k g g' \<longrightarrow> length (takeWhile (\<lambda>v. v \<noteq> u) (sem_queue g)) < k \<longrightarrow>
       u \<in> set (permit_holders g'))"
proof -
  have i: "sem_inv handshake_permits g" "set (permit_holders g @ sem_queue g) = {i. ph i = Handshaking}"
    using gated_reachable_inv [OF assms] by (simp_all add: gate_inv_def)
  have "u \<in> set (permit_holders g')"
    if "u \<in> set (sem_queue g)" "sem.run u k g g'" "length (takeWhile (\<lambda>v. v \<noteq> u) (sem_queue g)) < k" for u k g'
    using sem.served [OF that(2) i(1) that(1)] that(3) by (simp add: sem.ahead_def)
  then show ?thesis
    using i(2) sem.exclusive [OF i(1)] sem.busy [OF i(1)] unfolding handshake_permits_def by auto
qed

theorem at_most_ten_handshakes_witness:
  "\<exists>s ph g. gated_reachable (s, ph, g) \<and> permit_holders g = [0] \<and> {i. ph i = Handshaking} = {0}"
proof -
  obtain s where s: "USMPServer (PskBytes (replicate 16 7)) 10 100 10 [1] [] = Inr s" "next_id s = 0" "tcp_connections s = []"
      "max_connections s = 100" "max_connections_per_ip s = 10"
    by (simp add: USMPServer_def check_psk_def psk_truthy_def)
  obtain s' where "connect_begin 0 (accept_tcp (tcp_open (PeerTuple (''h'', 1))) s) = (True, s')"
    by (simp add: connect_begin_def accept_tcp_def s add_task_def dict_get_or_def tcp_open_def)
  then have "server_step (s, \<lambda>_. Absent) (s', (\<lambda>_. Absent)(0 := Handshaking))"
    using server_step.tcp_accepted [of s "tcp_open (PeerTuple (''h'', 1))" True s' "\<lambda>_. Absent"] s(2) by simp
  then have "gated_step (s, \<lambda>_. Absent, handshake_semaphore) (s', (\<lambda>_. Absent)(0 := Handshaking), sem_acquire 0 handshake_semaphore)"
    by (intro gated_step.asks) simp_all
  then have r: "gated_reachable (s', (\<lambda>_. Absent)(0 := Handshaking), sem_acquire 0 handshake_semaphore)"
    using gated_reachable.step [OF gated_reachable.start [OF s(1)]] by blast
  have g: "permit_holders (sem_acquire 0 handshake_semaphore) = [0]" "sem_queue (sem_acquire 0 handshake_semaphore) = []"
    by (simp_all add: sem_acquire_def handshake_semaphore_def Semaphore_def handshake_permits_def)
  have "{i. ((\<lambda>_. Absent)(0 := Handshaking)) i = Handshaking} = {0 :: nat}"
    using at_most_ten_handshakes [OF r, THEN conjunct2, THEN conjunct1] unfolding g by simp
  with r g(1) show ?thesis by blast
qed

text \<open>
  C26. Waiting for a permit is held against the client. A TCP connection whose client has
  already sent a complete and valid handshake, and would be accepted, finds ten handshakes
  running that do not end: the handshake timeout strikes before anything of it is read, the
  connection is closed, and a failed handshake is recorded for the client's host; with the
  fifth the host is locked out for at least a second.
\<close>

theorem queued_handshake_held_against_client:
  assumes "heap s tid = TcpEnd t" "tcp_peer t = PeerTuple (ip, port)" "connect_begin tid s = (True, s1)"
    and "limiter_inv (failed_handshakes s)" "fails_of (failed_handshakes s) ip < 1028"
    and "sem_inv handshake_permits g" "sem_value g = 0" "tid \<notin> set (permit_holders g)"
    and "run_handshake c (srv_psk s1) conn priv nonce sid now nf (heap s1 tid, failed_handshakes s1) = (Done i, e, tbl)"
  shows "\<exists>s' l. on_transport_connect_gated g c conn priv nonce sid now nf handler clk tid s = (Done (), s') \<and>
    heap s' tid = TcpEnd (tcp_close t) \<and>
    dict_get (failed_handshakes s') ip = Some (Suc (fails_of (failed_handshakes s) ip), l, nf) \<and>
    (4 \<le> fails_of (failed_handshakes s) ip \<longrightarrow> nf + 1 \<le> l)"
proof -
  have s1: "heap s1 tid = TcpEnd t" "failed_handshakes s1 = failed_handshakes s"
    using assms(1,3) by (auto simp: connect_begin_def Let_def add_task_def split: if_splits)
  have held: "tid \<notin> set (permit_holders (sem_acquire tid g))" using acquire_held [OF assms(6,8)] assms(7) by simp
  obtain tbl' where r: "record_failed_handshake nf ip (failed_handshakes s) = Inr tbl'"
    using record_succeeds [OF assms(5)] by blast
  have "dict_ok (failed_handshakes s)" using assms(4) by (simp add: limiter_inv_def)
  then obtain l where l: "lockout_for (Suc (fails_of (failed_handshakes s) ip)) nf = Inr l"
      "dict_get tbl' ip = Some (Suc (fails_of (failed_handshakes s) ip), l, nf)"
    using record_get_key [OF _ r] by blast
  let ?s2 = "(set_end tid (heap s1 tid) s1)\<lparr>failed_handshakes := failed_handshakes s1\<rparr>"
  have "?s2 = s1" by (simp add: set_end_def)
  then have x: "connect_except nf tid TimeoutError ?s2 = (None, s1\<lparr>failed_handshakes := tbl'\<rparr>)"
    using r by (simp add: connect_except_def s1 assms(2) tcp_ops_def)
  let ?s' = "close_transport tid (connect_finally tid False (s1\<lparr>failed_handshakes := tbl'\<rparr>))"
  have f: "failed_handshakes ?s' = tbl'" "heap ?s' tid = TcpEnd (tcp_close t)"
    using s1(1) by (simp_all add: close_transport_def set_end_def connect_finally_def Let_def discard_task_def tcp_ops_def)
  have "on_transport_connect_gated g c conn priv nonce sid now nf handler clk tid s = (Done (), ?s')"
    using x held by (simp add: on_transport_connect_gated_def run_handshake_gated_def assms(3) Let_def connect_end_def)
  moreover have "4 \<le> fails_of (failed_handshakes s) ip \<longrightarrow> nf + 1 \<le> l" using lockout_positive [OF l(1)] by simp
  ultimately show ?thesis using f l(2) by auto
qed

theorem queued_handshake_held_against_client_witness:
  "\<exists>s' l. on_transport_connect_gated \<lparr>sem_value = 0, sem_queue = [], permit_holders = [100..<110]\<rparr>
      toy_crypto ''c'' [2] (replicate 32 9) (replicate 16 8) 0 0 (\<lambda>se. (Done (), se)) (\<lambda>n. 0) 0
      (toy_listener\<lparr>heap := \<lambda>_. TcpEnd ((tcp_open (PeerTuple (''h'', 1)))\<lparr>rbuf := toy_client_bytes\<rparr>)\<rparr>) = (Done (), s') \<and>
    dict_get (failed_handshakes s') ''h'' = Some (1, l, 0)"
proof -
  let ?t = "(tcp_open (PeerTuple (''h'', 1)))\<lparr>rbuf := toy_client_bytes\<rparr>"
  let ?s = "toy_listener\<lparr>heap := \<lambda>_. TcpEnd ?t\<rparr>"
  obtain s1 where b: "connect_begin 0 ?s = (True, s1)"
    by (simp add: connect_begin_def Let_def add_task_def toy_listener_def dict_get_or_def tcp_open_def)
  then have s1: "srv_psk s1 = PskBytes (replicate 16 7)" "heap s1 0 = TcpEnd ?t" "failed_handshakes s1 = []"
    by (auto simp: connect_begin_def Let_def add_task_def toy_listener_def split: if_splits)
  obtain si st where "toy_server toy_client_bytes [] = (Done si, st, [])" using toy_runs(1) by blast
  then have r: "run_handshake toy_crypto (srv_psk s1) ''c'' [2] (replicate 32 9) (replicate 16 8) 0 0 (heap s1 0, failed_handshakes s1) =
      (Done si, TcpEnd st, [])"
    by (simp add: run_handshake_def s1 toy_server_def)
  have g: "sem_inv handshake_permits \<lparr>sem_value = 0, sem_queue = [], permit_holders = [100..<110]\<rparr>"
    by (simp add: sem_inv_def handshake_permits_def)
  from queued_handshake_held_against_client [OF _ _ b _ _ g _ _ r] show ?thesis
    by (fastforce simp: tcp_open_def toy_listener_def limiter_inv_def dict_ok_def fails_of_def dict_get_def)
qed

end
