(* ===== verification/Shutdown.thy ===== *)
theory Shutdown
  imports Server_Runs
begin

text \<open>
  Stopping: \<open>TCPListener.stop\<close> of \<open>src/src/usmp/transport/tcp.py\<close> and the end of \<open>serve\<close>
  in \<open>src/src/usmp/_server.py\<close>, which cancel the tasks of all connections and wait for
  them, and \<open>UDPListener.stop\<close>, which closes the streams first. A cancelled connection sees
  \<open>CancelledError\<close> at the \<open>await\<close> it is suspended at, and runs its clean-up;
  \<open>decremented\<close> gives the local variable \<open>handshake_decremented\<close> of each.
\<close>

definition cancel_connection :: "(nat \<Rightarrow> bool) \<Rightarrow> nat \<Rightarrow> server \<Rightarrow> server" where
  "cancel_connection decremented tid s =
     snd (connect_end tid (decremented tid) (connect_except 0 tid CancelledError s))"

text \<open>\<open>list(self._conn_tasks)\<close>: the set's members, each once.\<close>

definition cancel_conn_tasks :: "(nat \<Rightarrow> bool) \<Rightarrow> server \<Rightarrow> server" where
  "cancel_conn_tasks decremented s = fold (cancel_connection decremented) (remdups (conn_tasks s)) s"

definition tcp_listener_stop :: "(nat \<Rightarrow> bool) \<Rightarrow> server \<Rightarrow> server" where
  "tcp_listener_stop decremented s = cancel_conn_tasks decremented s"

text \<open>The end of \<open>serve\<close> with a TCP listener; what its stop leaves behind is cancelled again.\<close>

definition serve_shutdown_tcp :: "(nat \<Rightarrow> bool) \<Rightarrow> server \<Rightarrow> server" where
  "serve_shutdown_tcp decremented s = cancel_conn_tasks decremented (tcp_listener_stop decremented s)"

definition udp_listener_stop_all :: "(nat \<Rightarrow> bool) \<Rightarrow> server \<Rightarrow> server" where
  "udp_listener_stop_all decremented s = cancel_conn_tasks decremented (udp_listener_stop s)"

fun end_closed :: "endpoint \<Rightarrow> bool" where
  "end_closed (TcpEnd t) = w_closed t"
| "end_closed (UdpEnd st) = u_closed st"

subsection \<open>Cancelling one connection\<close>

lemma cancel_connection_eq:
  "cancel_connection dec tid s = close_transport tid (connect_finally tid (dec tid) s)"
  by (simp add: cancel_connection_def connect_except_def connect_end_def)

lemma heap_finally [simp]: "heap (connect_finally tid d s) = heap s"
  by (simp add: connect_finally_def Let_def discard_task_def split: endpoint.splits)

lemma heap_cancel: "heap (cancel_connection dec tid s) = (heap s)(tid := end_close (heap s tid))"
  by (simp add: cancel_connection_eq close_transport_def set_end_def)

lemma is_udp_close [simp]: "is_udp (end_close e) = is_udp e"
  by (cases e) simp_all

lemma end_closed_close [simp]: "end_closed (end_close e)"
  by (cases e) (simp_all add: tcp_ops_def tcp_close_def udp_ops_def udp_close_def)

text \<open>Whether a connection has given up its place among the UDP handshakes.\<close>

definition gave_up_place :: "server \<Rightarrow> (nat \<Rightarrow> phase) \<Rightarrow> nat \<Rightarrow> bool" where
  "gave_up_place s ph i \<longleftrightarrow> is_udp (heap s i) \<and> ph i = Serving"

lemma cancel_run:
  assumes "ph tid = Handshaking \<or> ph tid = Serving" "dec tid = gave_up_place s ph tid"
  shows "server_step\<^sup>*\<^sup>* (s, ph) (cancel_connection dec tid s, ph(tid := Absent))"
proof -
  have e: "connect_except 0 tid CancelledError s = (Some CancelledError, s)" by (simp add: connect_except_def)
  have "server_step (s, ph) (connect_finally tid (dec tid) s, ph(tid := Closing))"
    using server_step.failed [OF _ e, of ph] server_step.aborted [OF _ e, of ph] assms by (auto simp: gave_up_place_def)
  then have "server_step\<^sup>*\<^sup>* (s, ph) (connect_finally tid (dec tid) s, ph(tid := Closing))" by blast
  from close_after [OF this] show ?thesis by (simp add: cancel_connection_eq)
qed

lemma cancel_all_run:
  assumes "distinct L" "\<forall>i\<in>set L. ph i = Handshaking \<or> ph i = Serving" "\<forall>i\<in>set L. dec i = gave_up_place s ph i"
  shows "server_step\<^sup>*\<^sup>* (s, ph) (fold (cancel_connection dec) L s, \<lambda>i. if i \<in> set L then Absent else ph i) \<and>
    (\<forall>i\<in>set L. end_closed (heap (fold (cancel_connection dec) L s) i)) \<and>
    (\<forall>i. i \<notin> set L \<longrightarrow> heap (fold (cancel_connection dec) L s) i = heap s i)"
  using assms
proof (induction L arbitrary: s ph)
  case (Cons tid L)
  let ?s = "cancel_connection dec tid s" and ?ph = "ph(tid := Absent)"
  have first: "server_step\<^sup>*\<^sup>* (s, ph) (?s, ?ph)" using Cons.prems by (intro cancel_run) simp_all
  have "\<forall>i\<in>set L. ?ph i = Handshaking \<or> ?ph i = Serving" "\<forall>i\<in>set L. dec i = gave_up_place ?s ?ph i"
    using Cons.prems by (auto simp: gave_up_place_def heap_cancel)
  note IH = Cons.IH [OF _ this]
  have ph: "(\<lambda>i. if i \<in> set L then Absent else ?ph i) = (\<lambda>i. if i \<in> set (tid # L) then Absent else ph i)" by auto
  have new: "distinct L" "tid \<notin> set L" using Cons.prems(1) by simp_all
  note rest = IH [OF new(1), unfolded ph]
  have "server_step\<^sup>*\<^sup>* (s, ph) (fold (cancel_connection dec) (tid # L) s, \<lambda>i. if i \<in> set (tid # L) then Absent else ph i)"
    using rtranclp_trans [OF first conjunct1 [OF IH [OF new(1)]]] unfolding ph by simp
  moreover have "end_closed (heap (fold (cancel_connection dec) L ?s) tid)" using rest new(2) by (simp add: heap_cancel)
  ultimately show ?case using rest by (simp add: heap_cancel)
qed simp

lemma dict_none: "\<forall>k. dict_get d k = None \<Longrightarrow> d = []"
  by (cases d) (auto simp: dict_get_def split: if_splits dest: spec)

subsection \<open>Stopping the UDP listener\<close>

lemma heap_close: "heap (close_transport tid s) = (heap s)(tid := end_close (heap s tid))"
  by (simp add: close_transport_def set_end_def)

lemma close_all:
  "view (fold close_transport L s) = view s"
  "i \<in> set L \<or> end_closed (heap s i) \<Longrightarrow> end_closed (heap (fold close_transport L s) i)"
  by (induction L arbitrary: s) (auto simp: heap_close)

lemma udp_listener_stop_view: "view (udp_listener_stop s) = (view s)\<lparr>v_sessions := [], v_handshakes := []\<rparr>"
  by (simp add: udp_listener_stop_def Let_def close_all)

lemma udp_listener_stop_closes:
  assumes "dict_get (udp_sessions s) a = Some i \<or> dict_get (udp_handshakes s) a = Some i"
  shows "end_closed (heap (udp_listener_stop s) i)"
proof -
  have "i \<in> set (map snd (udp_sessions s)) \<or> i \<in> set (map snd (udp_handshakes s))"
    using assms by (force simp: dict_get_def dest: map_of_SomeD)
  moreover have "udp_handshakes (fold close_transport L s) = udp_handshakes s" for L
    using close_all(1) [of L s] by (metis view_fields(5))
  ultimately show ?thesis
    using close_all(2) [of i "map snd (udp_sessions s)" s]
      close_all(2) [of i "map snd (udp_handshakes s)" "fold close_transport (map snd (udp_sessions s)) s"]
    by (auto simp: udp_listener_stop_def Let_def)
qed

lemma view_cancel:
  "peers (cancel_connection dec tid s) = peers s"
  "conn_tasks (cancel_connection dec tid s) = removeAll tid (conn_tasks s)"
  "udp_sessions s = [] \<Longrightarrow> udp_sessions (cancel_connection dec tid s) = []"
  "udp_handshakes s = [] \<Longrightarrow> udp_handshakes (cancel_connection dec tid s) = []"
  using peers_heap [of "connect_finally tid (dec tid) s" s]
  by (simp_all add: cancel_connection_eq connect_finally_def Let_def discard_task_def pop_if_same_def split: endpoint.splits)

lemma cancel_progress:
  assumes "counts (udp_in_progress s) (ip_of (peers s)) L" "is_udp (heap s tid) \<and> \<not> dec tid \<longrightarrow> tid \<in> L"
  shows "counts (udp_in_progress (cancel_connection dec tid s)) (ip_of (peers s))
    (L - (if is_udp (heap s tid) \<and> \<not> dec tid then {tid} else {}))"
proof (cases "heap s tid")
  case (UdpEnd st)
  then have "ip_of (peers s) tid = fst (remote_addr st)" by (cases "remote_addr st") (simp add: ip_of_def peers_udp)
  then show ?thesis
    using assms UdpEnd lc.exact_leave [of "udp_in_progress s" "ip_of (peers s)" L tid]
    by (simp add: cancel_connection_eq connect_finally_def Let_def)
qed (use assms in \<open>simp add: cancel_connection_eq connect_finally_def Let_def\<close>)

lemma cancel_all_tables:
  assumes "counts (udp_in_progress s) (ip_of (peers s)) L" "udp_sessions s = []" "udp_handshakes s = []"
    and "\<forall>i\<in>set T. is_udp (heap s i) \<and> \<not> dec i \<longrightarrow> i \<in> L" "distinct T"
  defines "s' \<equiv> fold (cancel_connection dec) T s"
  shows "counts (udp_in_progress s') (ip_of (peers s)) (L - {i \<in> set T. is_udp (heap s i) \<and> \<not> dec i}) \<and>
    udp_sessions s' = [] \<and> udp_handshakes s' = [] \<and> set (conn_tasks s') = set (conn_tasks s) - set T \<and>
    (\<forall>i. i \<in> set T \<or> end_closed (heap s i) \<longrightarrow> end_closed (heap s' i))"
  using assms(1-5) unfolding s'_def
proof (induction T arbitrary: s L)
  case (Cons tid T)
  let ?s = "cancel_connection dec tid s"
  let ?L = "L - (if is_udp (heap s tid) \<and> \<not> dec tid then {tid} else {})"
  have c: "counts (udp_in_progress ?s) (ip_of (peers ?s)) ?L"
    using cancel_progress [of s L tid dec] Cons.prems(1,4) by (simp add: view_cancel)
  have "\<forall>i\<in>set T. is_udp (heap ?s i) \<and> \<not> dec i \<longrightarrow> i \<in> ?L"
    using Cons.prems(4,5) by (auto simp: heap_cancel)
  note IH = Cons.IH [OF c _ _ this]
  have "?L - {i \<in> set T. is_udp (heap ?s i) \<and> \<not> dec i} = L - {i \<in> set (tid # T). is_udp (heap s i) \<and> \<not> dec i}"
    by (auto simp: heap_cancel)
  with IH Cons.prems(2,3,5) show ?case by (auto simp: view_cancel heap_cancel)
qed simp

subsection \<open>Cancelling everything\<close>

text \<open>
  From any reachable state of the server, cancelling the
  tasks of all connections, wherever each of them is, ends them all. No task is left, every
  transport they had is closed, the table of TCP connections and the table of UDP sessions
  are empty, and the only UDP handshakes left are those whose task has not begun to run.
\<close>

lemma stop_releases_everything:
  assumes "server_reachable (s, ph)" "\<forall>i. decremented i = gave_up_place s ph i"
  defines "s' \<equiv> cancel_conn_tasks decremented s"
  shows "conn_tasks s' = [] \<and> tcp_connections s' = [] \<and> udp_sessions s' = [] \<and>
    (\<forall>i\<in>set (conn_tasks s). end_closed (heap s' i)) \<and>
    (\<forall>a i. dict_get (udp_handshakes s') a = Some i \<longrightarrow> ph i = Created)"
proof -
  let ?L = "remdups (conn_tasks s)"
  let ?ph = "\<lambda>i. if i \<in> set ?L then Absent else ph i"
  have ids: "set (conn_tasks s) = {i. ph i = Handshaking \<or> ph i = Serving}"
    using reachable_inv [OF assms(1)] by (simp add: ids_inv_def)
  have run: "server_step\<^sup>*\<^sup>* (s, ph) (s', ?ph)" and closed: "\<forall>i\<in>set ?L. end_closed (heap s' i)"
    using cancel_all_run [of ?L ph decremented s] assms(2) ids by (auto simp: s'_def cancel_conn_tasks_def)
  have r: "server_reachable (s', ?ph)" using run assms(1) by (rule reachable_run)
  note inv = reachable_inv [OF r, simplified]
  have none: "{i. ?ph i = Handshaking \<or> ?ph i = Serving} = {}" using ids by auto
  have live: "tcp_live_ids (peers s') ?ph = {}" using none by (auto simp: tcp_live_ids_def)
  have "set (conn_tasks s') = {}" using inv none by (simp add: ids_inv_def)
  moreover have "tcp_connections s' = []" using inv live counts_none [of "tcp_connections s'"] by (auto simp: tcp_inv_def)
  moreover have "udp_sessions s' = []"
    using inv none by (intro dict_none allI) (fastforce simp: udp_tables_inv_def not_None_eq [symmetric])
  moreover have "ph i = Created" if "dict_get (udp_handshakes s') a = Some i" for a i
  proof -
    have "?ph i = Created \<or> ?ph i = Handshaking" using inv that unfolding udp_tables_inv_def view_fields set_remdups by blast
    then show ?thesis using none by (auto split: if_splits)
  qed
  ultimately show ?thesis using closed by simp
qed

text \<open>
  Stopping the UDP listener closes every stream it knows, clears both of its tables and
  ends every connection task, but does not account for a connection whose task had been
  created and had not begun to run: cancelled there, it never reaches its clean-up, and it
  stays in the count of its host's handshakes in progress. That count is what limits a host to
  three handshakes, should the same server serve again.
\<close>

lemma udp_stop_all:
  assumes "server_reachable (s, ph)" "\<forall>i. decremented i = gave_up_place s ph i"
  defines "s' \<equiv> udp_listener_stop_all decremented s"
  shows "udp_sessions s' = [] \<and> udp_handshakes s' = [] \<and> conn_tasks s' = [] \<and>
    (\<forall>j\<in>set (conn_tasks s). end_closed (heap s' j)) \<and>
    (dict_get (udp_sessions s) a = Some i \<or> dict_get (udp_handshakes s) a = Some i \<longrightarrow> end_closed (heap s' i)) \<and>
    dict_get_or (udp_in_progress s') ip 0 =
      int (card {i. ph i = Created \<and> is_udp (heap s i) \<and> peer_ip (end_peername (heap s i)) = ip})"
proof -
  let ?s = "udp_listener_stop s" and ?T = "remdups (conn_tasks (udp_listener_stop s))"
  let ?L = "udp_pre_ids (peers s) ph" and ?key = "ip_of (peers s)"
  note view = udp_listener_stop_view [of s]
  have f: "peers ?s = peers s" "set (conn_tasks ?s) = set (conn_tasks s)" "udp_in_progress ?s = udp_in_progress s"
      "udp_sessions ?s = []" "udp_handshakes ?s = []"
    using arg_cong [OF view, of v_peers] arg_cong [OF view, of v_tasks] arg_cong [OF view, of v_progress]
      arg_cong [OF view, of v_sessions] arg_cong [OF view, of v_handshakes] by simp_all
  have u: "is_udp (heap ?s j) = is_udp (heap s j)" for j using fun_cong [OF f(1), of j] by (simp add: peers_def)
  note inv = reachable_inv [OF assms(1), simplified]
  have ids: "set (conn_tasks s) = {i. ph i = Handshaking \<or> ph i = Serving}" using inv by (simp add: ids_inv_def)
  have c: "counts (udp_in_progress ?s) (ip_of (peers ?s)) ?L" using inv by (simp add: udp_tables_inv_def f)
  have "\<forall>j\<in>set ?T. is_udp (heap ?s j) \<and> \<not> decremented j \<longrightarrow> j \<in> ?L"
    using ids assms(2) by (auto simp: f u gave_up_place_def udp_pre_ids_def peers_def)
  note run = cancel_all_tables [OF c f(4,5) this distinct_remdups]
  have "?L - {j \<in> set ?T. is_udp (heap ?s j) \<and> \<not> decremented j} = {j. ph j = Created \<and> is_udp (heap s j)}"
    using ids assms(2) by (auto simp: f u gave_up_place_def udp_pre_ids_def peers_def)
  then have left: "counts (udp_in_progress s') ?key {j. ph j = Created \<and> is_udp (heap s j)}"
    using run by (simp add: s'_def udp_listener_stop_all_def cancel_conn_tasks_def f)
  have "dict_get_or (udp_in_progress s') ip 0 =
      int (card {i. ph i = Created \<and> is_udp (heap s i) \<and> peer_ip (end_peername (heap s i)) = ip})"
    using lc.exact_look [OF left, of ip] by (simp add: ip_of_def peers_def conj_assoc)
  then show ?thesis
    using run udp_listener_stop_closes [of s a i] by (auto simp: s'_def udp_listener_stop_all_def cancel_conn_tasks_def f)
qed

end
