(* ===== verification/Registry.thy ===== *)
theory Registry
  imports Pydict
begin

text \<open>
  \<open>src/src/usmp/transport/__init__.py\<close>: the table of transport and listener classes by
  lower-cased protocol name, with the two classes the package registers itself.
\<close>

datatype transport_class = TCPTransportClass | UDPStreamClass | CustomTransport string
datatype listener_class = TCPListenerClass | UDPListenerClass | CustomListener string

text \<open>\<open>str.lower\<close> for characters below 256: ASCII and the Latin-1 capitals.\<close>

definition lower_char :: "char \<Rightarrow> char" where
  "lower_char ch =
     (let n = of_char ch :: nat in
      if 65 \<le> n \<and> n \<le> 90 \<or> 192 \<le> n \<and> n \<le> 222 \<and> n \<noteq> 215 then char_of (n + 32) else ch)"

definition lower :: "string \<Rightarrow> string" where
  "lower s = map lower_char s"

record registry =
  transports :: "(string, transport_class) dict"
  listeners :: "(string, listener_class) dict"

definition register_transport :: "string \<Rightarrow> transport_class \<Rightarrow> listener_class \<Rightarrow> registry \<Rightarrow> registry" where
  "register_transport name t l r =
     r\<lparr>transports := dict_set (transports r) (lower name) t, listeners := dict_set (listeners r) (lower name) l\<rparr>"

definition get_transport_class :: "string \<Rightarrow> registry \<Rightarrow> transport_class result" where
  "get_transport_class name r =
     (case dict_get (transports r) (lower name) of None \<Rightarrow> Inl ValueError | Some t \<Rightarrow> Inr t)"

definition get_listener_class :: "string \<Rightarrow> registry \<Rightarrow> listener_class result" where
  "get_listener_class name r =
     (case dict_get (listeners r) (lower name) of None \<Rightarrow> Inl ValueError | Some l \<Rightarrow> Inr l)"

definition core_registry :: registry where
  "core_registry =
     register_transport ''udp'' UDPStreamClass UDPListenerClass
       (register_transport ''tcp'' TCPTransportClass TCPListenerClass \<lparr>transports = [], listeners = []\<rparr>)"

subsection \<open>Lookup after registration\<close>

lemma lower_char_idem [simp]: "lower_char (lower_char ch) = lower_char ch"
proof -
  have "of_char ch < (256 :: nat)" by simp
  then show ?thesis by (auto simp: lower_char_def Let_def of_char_of)
qed

lemma lower_idem [simp]: "lower (lower s) = lower s"
  by (simp add: lower_def)

text \<open>A name finds what was registered last under it, in whatever capitalisation.\<close>

lemma get_registered:
  assumes "lower name = lower name'"
  shows "get_transport_class name' (register_transport name t l r) = Inr t"
    "get_listener_class name' (register_transport name t l r) = Inr l"
  using assms by (simp_all add: get_transport_class_def get_listener_class_def register_transport_def dict_simps)

lemma get_other:
  assumes "lower name \<noteq> lower name'"
  shows "get_transport_class name' (register_transport name t l r) = get_transport_class name' r"
    "get_listener_class name' (register_transport name t l r) = get_listener_class name' r"
  using assms by (simp_all add: get_transport_class_def get_listener_class_def register_transport_def dict_simps)

lemma core_lookups:
  "get_transport_class ''TCP'' core_registry = Inr TCPTransportClass"
  "get_listener_class ''Udp'' core_registry = Inr UDPListenerClass"
  "get_transport_class ''quic'' core_registry = Inl ValueError"
  by code_simp+

end
