(* ===== verification/Serve.thy ===== *)
theory Serve
  imports Shutdown Registry
begin

text \<open>
  The life of a server as the application sees it: \<open>on_session\<close>, \<open>serve\<close> and \<open>stop\<close> of
  \<open>src/src/usmp/_server.py\<close>, with the listeners of \<open>src/src/usmp/transport/tcp.py\<close> and
  \<open>udp.py\<close> it starts and stops. \<open>serve\<close> is cut at the only place it waits at, the shutdown
  event. What the operating system and the event loop answer is an argument.
\<close>

subsection \<open>The objects\<close>

datatype signal = SIGINT | SIGTERM

type_synonym session_handler = "endpoint session \<Rightarrow> unit io \<times> endpoint session"

text \<open>
  A listener holds its listening socket, by number, between \<open>start\<close> and \<open>stop\<close>; the UDP
  listener also remembers whether it was given a connection handler. Listeners an application
  registers itself are known by name only.
\<close>

datatype listener = TCPListener "nat option" | UDPListener "nat option" bool | ForeignListener string

text \<open>
  Shutdown events are objects of their own: a call of \<open>serve\<close> waits for the event it found,
  whatever \<open>_shutdown_event\<close> refers to later. \<open>listening\<close> are the sockets open for new
  connections, \<open>signal_handlers\<close> the signals the loop passes on to \<open>_on_signal\<close>.
\<close>

record app =
  app_server :: server
  app_protocol :: string
  app_handler :: "session_handler option"
  app_listener :: "listener option"
  shutdown_event :: "nat option"
  events :: "bool list"
  signal_handlers :: "signal list"
  listening :: "nat list"
  next_socket :: nat

definition new_app :: "string \<Rightarrow> server \<Rightarrow> app" where
  "new_app protocol s =
     \<lparr>app_server = s, app_protocol = lower protocol, app_handler = None, app_listener = None,
      shutdown_event = None, events = [], signal_handlers = [], listening = [], next_socket = 0\<rparr>"

text \<open>
  The surroundings: the exception opening a socket raises, if any, the one \<open>add_signal_handler\<close>
  raises, and what the listeners do that are not the package's.
\<close>

record 'a surroundings =
  bind_fails :: "exn option"
  signal_fails :: "signal \<Rightarrow> exn option"
  foreign_start :: "string \<Rightarrow> 'a \<Rightarrow> unit io \<times> 'a"
  foreign_stop :: "string \<Rightarrow> 'a \<Rightarrow> 'a"

definition on_session_handler :: "session_handler \<Rightarrow> app \<Rightarrow> session_handler \<times> app" where
  "on_session_handler fn a = (fn, a\<lparr>app_handler := Some fn\<rparr>)"

subsection \<open>Listeners\<close>

definition new_listener :: "listener_class \<Rightarrow> listener" where
  "new_listener cls =
     (case cls of
        TCPListenerClass \<Rightarrow> TCPListener None
      | UDPListenerClass \<Rightarrow> UDPListener None False
      | CustomListener name \<Rightarrow> ForeignListener name)"

text \<open>\<open>asyncio.start_server\<close> and \<open>create_datagram_endpoint\<close>.\<close>

definition open_listening :: "app surroundings \<Rightarrow> app \<Rightarrow> nat io \<times> app" where
  "open_listening env a =
     (case bind_fails env of
        Some e \<Rightarrow> (Raise e, a)
      | None \<Rightarrow> (Done (next_socket a), a\<lparr>listening := listening a @ [next_socket a], next_socket := Suc (next_socket a)\<rparr>))"

definition tcp_listener_start :: "app surroundings \<Rightarrow> (app, unit) coro" where
  "tcp_listener_start env =
     coro_bind (open_listening env) (\<lambda>k a. (Done (), a\<lparr>app_listener := Some (TCPListener (Some k))\<rparr>))"

definition udp_listener_start :: "app surroundings \<Rightarrow> (app, unit) coro" where
  "udp_listener_start env a =
     coro_bind (open_listening env) (\<lambda>k a. (Done (), a\<lparr>app_listener := Some (UDPListener (Some k) True)\<rparr>))
       (a\<lparr>app_listener := Some (UDPListener None True)\<rparr>)"

definition listener_start :: "app surroundings \<Rightarrow> listener \<Rightarrow> (app, unit) coro" where
  "listener_start env l =
     (case l of
        TCPListener _ \<Rightarrow> tcp_listener_start env
      | UDPListener _ _ \<Rightarrow> udp_listener_start env
      | ForeignListener name \<Rightarrow> foreign_start env name)"

text \<open>\<open>stop\<close> of the listener the server refers to; a TCP listener that was not started does nothing.\<close>

definition listener_stop :: "app surroundings \<Rightarrow> (nat \<Rightarrow> bool) \<Rightarrow> listener \<Rightarrow> app \<Rightarrow> app" where
  "listener_stop env decremented l a =
     (case l of
        TCPListener None \<Rightarrow> a
      | TCPListener (Some k) \<Rightarrow>
          a\<lparr>listening := removeAll k (listening a), app_server := tcp_listener_stop decremented (app_server a)\<rparr>
      | UDPListener sock h \<Rightarrow>
          (let a = (case sock of
                      None \<Rightarrow> a
                    | Some k \<Rightarrow> a\<lparr>listening := removeAll k (listening a), app_listener := Some (UDPListener None h)\<rparr>)
           in a\<lparr>app_server := udp_listener_stop_all decremented (app_server a)\<rparr>)
      | ForeignListener name \<Rightarrow> foreign_stop env name a)"

text \<open>The handler of an accepted TCP stream pair, and the task of a new UDP stream.\<close>

definition tcp_handler :: "(nat \<Rightarrow> (server, unit) coro) \<Rightarrow> tcp_transport \<Rightarrow> (server, unit) coro" where
  "tcp_handler handler t s = handler (next_id s) (accept_tcp t s)"

definition handle_udp_client :: "(nat \<Rightarrow> (server, unit) coro) option \<Rightarrow> nat \<Rightarrow> (server, unit) coro" where
  "handle_udp_client handler tid =
     (case handler of None \<Rightarrow> coro_return () | Some f \<Rightarrow> f tid)"

text \<open>
  \<open>ServerUDPProtocol\<close>, the callbacks of the listening socket; its state is whether it has
  its transport.
\<close>

definition server_connection_made :: "bool \<Rightarrow> bool \<Rightarrow> unit result \<times> bool" where
  "server_connection_made datagram p = (if \<not> datagram then (Inl TypeError, p) else (Inr (), True))"

definition server_datagram_received ::
  "bool \<Rightarrow> seconds \<Rightarrow> seconds \<Rightarrow> bytes \<Rightarrow> addr \<Rightarrow> (server, nat option) coro"
where
  "server_datagram_received p now wall data addr s =
     (if p then handle_udp_datagram now wall data addr s else (Done None, s))"

text \<open>\<open>USMPServer._handle_udp_datagram\<close>, for the package's listeners: only the UDP one has the method.\<close>

definition delegate_udp_datagram :: "seconds \<Rightarrow> seconds \<Rightarrow> bytes \<Rightarrow> addr \<Rightarrow> (app, nat option) coro" where
  "delegate_udp_datagram now wall data addr a =
     (case app_listener a of
        Some (UDPListener _ _) \<Rightarrow>
          (case handle_udp_datagram now wall data addr (app_server a) of (r, s) \<Rightarrow> (r, a\<lparr>app_server := s\<rparr>))
      | _ \<Rightarrow> (Done None, a))"

subsection \<open>Serving and stopping\<close>

definition stop :: "app \<Rightarrow> app" where
  "stop a =
     (case shutdown_event a of
        None \<Rightarrow> a
      | Some ev \<Rightarrow> if \<not> events a ! ev then a\<lparr>events := (events a)[ev := True]\<rparr> else a)"

definition on_signal :: "app \<Rightarrow> app" where
  "on_signal a =
     (case shutdown_event a of None \<Rightarrow> a | Some ev \<Rightarrow> a\<lparr>events := (events a)[ev := True]\<rparr>)"

fun add_signals :: "app surroundings \<Rightarrow> signal list \<Rightarrow> (app, unit) coro" where
  "add_signals env [] a = (Done (), a)"
| "add_signals env (sig # sigs) a =
     (case signal_fails env sig of
        None \<Rightarrow> add_signals env sigs (a\<lparr>signal_handlers := List.insert sig (signal_handlers a)\<rparr>)
      | Some e \<Rightarrow> if catches [NotImplementedError, AttributeError] e then add_signals env sigs a else (Raise e, a))"

definition remove_signals :: "app \<Rightarrow> app" where
  "remove_signals a = a\<lparr>signal_handlers := fold removeAll [SIGINT, SIGTERM] (signal_handlers a)\<rparr>"

text \<open>\<open>serve\<close> up to its wait; it returns the event it is going to wait for.\<close>

definition serve_begin :: "registry \<Rightarrow> app surroundings \<Rightarrow> (app, nat) coro" where
  "serve_begin reg env a =
     (if app_handler a = None then (Raise RuntimeError, a)
      else
        case get_listener_class (app_protocol a) reg of
          Inl e \<Rightarrow> (Raise e, a)
        | Inr cls \<Rightarrow>
            coro_bind (listener_start env (new_listener cls)) (\<lambda>_ a.
              let ev = length (events a);
                  a = a\<lparr>shutdown_event := Some ev, events := events a @ [False]\<rparr>
              in coro_bind (add_signals env [SIGINT, SIGTERM]) (\<lambda>_. coro_return ev) a)
              (a\<lparr>app_listener := Some (new_listener cls)\<rparr>))"

text \<open>
  The rest of \<open>serve\<close>: the event is set, or the wait is interrupted by a cancellation or
  \<open>KeyboardInterrupt\<close>, which is not passed on. The clean-up is the same.
\<close>

datatype wakeup = EventSet | Interrupted

definition serve_finally :: "app surroundings \<Rightarrow> (nat \<Rightarrow> bool) \<Rightarrow> app \<Rightarrow> app" where
  "serve_finally env decremented a =
     (let a = remove_signals a;
          a = (case app_listener a of None \<Rightarrow> a | Some l \<Rightarrow> listener_stop env decremented l a)
      in a\<lparr>app_server := cancel_conn_tasks decremented (app_server a)\<rparr>)"

definition serve_end :: "app surroundings \<Rightarrow> (nat \<Rightarrow> bool) \<Rightarrow> nat \<Rightarrow> wakeup \<Rightarrow> (app, unit) coro" where
  "serve_end env decremented ev w a =
     (if w = Interrupted \<or> events a ! ev then (Done (), serve_finally env decremented a) else (Waiting, a))"

subsection \<open>What a call of \<open>serve\<close> leaves\<close>

text \<open>The two protocols of the package, and what their listeners hold once started.\<close>

definition core_protocol :: "bool \<Rightarrow> app \<Rightarrow> bool" where
  "core_protocol udp a \<longleftrightarrow> lower (app_protocol a) = (if udp then ''udp'' else ''tcp'')"

definition started :: "bool \<Rightarrow> nat \<Rightarrow> listener" where
  "started udp k = (if udp then UDPListener (Some k) True else TCPListener (Some k))"

text \<open>The server while a call of \<open>serve\<close> waits.\<close>

definition serving :: "bool \<Rightarrow> signal list \<Rightarrow> app \<Rightarrow> app" where
  "serving udp x a =
     a\<lparr>listening := listening a @ [next_socket a], next_socket := Suc (next_socket a),
       app_listener := Some (started udp (next_socket a)), shutdown_event := Some (length (events a)),
       events := events a @ [False], signal_handlers := x\<rparr>"

lemma core_listener: "core_protocol udp a \<Longrightarrow>
    get_listener_class (app_protocol a) core_registry = Inr (if udp then UDPListenerClass else TCPListenerClass)"
proof -
  have "get_listener_class ''udp'' core_registry = Inr UDPListenerClass" "get_listener_class ''tcp'' core_registry = Inr TCPListenerClass"
    "lower ''udp'' = ''udp''" "lower ''tcp'' = ''tcp''"
    by code_simp+
  then show "core_protocol udp a \<Longrightarrow> ?thesis"
    by (auto simp: core_protocol_def get_listener_class_def split: if_splits)
qed

lemma add_signals_frame: "\<exists>r. \<forall>a. \<exists>x. add_signals env sigs a = (r, a\<lparr>signal_handlers := x\<rparr>)"
proof (induction sigs)
  case Nil
  have "add_signals env [] a = (Done (), a\<lparr>signal_handlers := signal_handlers a\<rparr>)" for a by simp
  then show ?case by blast
next
  case (Cons sig sigs)
  then obtain r where r: "\<And>a. \<exists>x. add_signals env sigs a = (r, a\<lparr>signal_handlers := x\<rparr>)" by blast
  show ?case
  proof (cases "signal_fails env sig")
    case None
    have "\<exists>x. add_signals env (sig # sigs) a = (r, a\<lparr>signal_handlers := x\<rparr>)" for a
      using r [of "a\<lparr>signal_handlers := List.insert sig (signal_handlers a)\<rparr>"] None by auto
    then show ?thesis by blast
  next
    case (Some e)
    let ?caught = "catches [NotImplementedError, AttributeError] e"
    have "\<exists>x. add_signals env (sig # sigs) a = (if ?caught then r else Raise e, a\<lparr>signal_handlers := x\<rparr>)" for a
    proof (cases ?caught)
      case False
      then have "add_signals env (sig # sigs) a = (Raise e, a\<lparr>signal_handlers := signal_handlers a\<rparr>)" using Some by simp
      then show ?thesis using False by (simp only: if_False) blast
    qed (use r [of a] Some in simp)
    then show ?thesis by blast
  qed
qed

lemma stop_fields [simp]:
  "app_listener (stop a) = app_listener a" "app_server (stop a) = app_server a" "listening (stop a) = listening a"
  "shutdown_event (stop a) = shutdown_event a"
  by (simp_all add: stop_def split: option.split)

text \<open>Stopping twice is stopping once; before there is an event it does nothing.\<close>

lemma stop_stop: "stop (stop a) = stop a" "shutdown_event a = None \<Longrightarrow> stop a = a"
  by (cases "shutdown_event a"; cases "the (shutdown_event a) < length (events a)";
      simp add: stop_def)+

lemma no_signals: "signal_handlers (remove_signals a) = []"
proof -
  have "x \<notin> set (removeAll SIGTERM (removeAll SIGINT xs))" for x xs by (cases x) simp_all
  then have "set (signal_handlers (remove_signals a)) = {}" by (auto simp: remove_signals_def)
  then show ?thesis by (simp only: set_empty)
qed

text \<open>A call that fails to open its socket, and one that opens it.\<close>

lemma serve_begin_cases:
  assumes "app_handler a \<noteq> None" "core_protocol udp a"
  shows "bind_fails env = Some e \<Longrightarrow> \<exists>h. serve_begin core_registry env a =
      (Raise e, a\<lparr>app_listener := Some (if udp then UDPListener None h else TCPListener None)\<rparr>)"
    "bind_fails env = None \<Longrightarrow> \<exists>x. serve_begin core_registry env a =
      (case fst (add_signals env [SIGINT, SIGTERM] a) of Done _ \<Rightarrow> Done (length (events a)) | Raise e \<Rightarrow> Raise e | Waiting \<Rightarrow> Waiting,
       serving udp x a)"
proof -
  note defs = serve_begin_def core_listener [OF assms(2)] new_listener_def listener_start_def tcp_listener_start_def
    udp_listener_start_def open_listening_def coro_bind_def Let_def coro_return_def assms(1)
  show "\<exists>h. serve_begin core_registry env a =
      (Raise e, a\<lparr>app_listener := Some (if udp then UDPListener None h else TCPListener None)\<rparr>)" if "bind_fails env = Some e"
    using that by (cases udp) (auto simp: defs)
  assume b: "bind_fails env = None"
  define sigs where "sigs = [SIGINT, SIGTERM]"
  obtain r where r: "\<And>a. \<exists>x. add_signals env sigs a = (r, a\<lparr>signal_handlers := x\<rparr>)"
    using add_signals_frame by blast
  then have fst: "fst (add_signals env sigs a) = r" by (metis fst_conv)
  let ?b = "a\<lparr>listening := listening a @ [next_socket a], next_socket := Suc (next_socket a),
         app_listener := Some (started udp (next_socket a)), shutdown_event := Some (length (events a)), events := events a @ [False]\<rparr>"
  obtain x where x: "add_signals env sigs ?b = (r, ?b\<lparr>signal_handlers := x\<rparr>)" using r by blast
  have "serve_begin core_registry env a =
      (case r of Done _ \<Rightarrow> Done (length (events a)) | Raise e \<Rightarrow> Raise e | Waiting \<Rightarrow> Waiting, ?b\<lparr>signal_handlers := x\<rparr>)"
    using x b unfolding started_def by (cases udp; cases r) (simp_all add: defs sigs_def [symmetric])
  then show "\<exists>x. serve_begin core_registry env a =
      (case fst (add_signals env [SIGINT, SIGTERM] a) of Done _ \<Rightarrow> Done (length (events a)) | Raise e \<Rightarrow> Raise e | Waiting \<Rightarrow> Waiting,
       serving udp x a)"
    unfolding sigs_def [symmetric] fst serving_def by blast
qed

lemma serve_begin_needs_handler: "serve_begin reg env a = (Done ev, a1) \<Longrightarrow> app_handler a \<noteq> None"
  by (rule notI) (simp add: serve_begin_def)

lemma serve_begin_Done:
  assumes "serve_begin core_registry env a = (Done ev, a1)" "core_protocol udp a"
  shows "ev = length (events a) \<and> (\<exists>x. a1 = serving udp x a)"
proof (cases "bind_fails env")
  case None
  then show ?thesis
    using serve_begin_cases(2) [OF serve_begin_needs_handler [OF assms(1)] assms(2), of env] assms(1)
    by (auto split: io.splits)
next
  case (Some e)
  then show ?thesis
    using serve_begin_cases(1) [OF serve_begin_needs_handler [OF assms(1)] assms(2), of env e] assms(1) by auto
qed

text \<open>The clean-up, as it meets the tables.\<close>

lemma serve_finally_started:
  assumes "app_listener a = Some (started udp k)"
  shows "listening (serve_finally env dec a) = removeAll k (listening a)"
    "signal_handlers (serve_finally env dec a) = []"
    "app_server (serve_finally env dec a) =
       cancel_conn_tasks dec (if udp then udp_listener_stop_all dec (app_server a) else cancel_conn_tasks dec (app_server a))"
  using assms no_signals [of a]
  by (auto simp: serve_finally_def Let_def started_def listener_stop_def tcp_listener_stop_def remove_signals_def)

lemma cancel_none: "conn_tasks s = [] \<Longrightarrow> cancel_conn_tasks dec s = s"
  by (simp add: cancel_conn_tasks_def)

subsection \<open>Properties\<close>



text \<open>
  C27. A call of \<open>serve\<close> that fails can leave a socket listening that nothing closes any more.
  When a second call finds the address in use, it has already replaced the reference to the
  first call's listener by one that was never started: after \<open>stop\<close> the first call returns
  normally, with its socket still open. And when the loop refuses signal handlers with an
  exception other than the two that are caught (outside the main thread it is
  \<open>RuntimeError\<close>), the call raises it with its socket open, and \<open>stop\<close> does not close it.
\<close>

theorem failed_serve_leaves_socket_open:
  assumes "core_protocol udp a" "app_handler a \<noteq> None" "bind_fails env = None"
  shows "(serve_begin core_registry env a = (Done ev, a1) \<longrightarrow> bind_fails env' = Some e \<longrightarrow>
      (\<exists>a2 a3. serve_begin core_registry env' (a1\<lparr>app_server := s\<rparr>) = (Raise e, a2) \<and>
        serve_end env dec ev EventSet (stop a2) = (Done (), a3) \<and> next_socket a \<in> set (listening a3))) \<and>
    (signal_fails env SIGINT = Some x \<longrightarrow> \<not> catches [NotImplementedError, AttributeError] x \<longrightarrow>
      (\<exists>a1. serve_begin core_registry env a = (Raise x, a1) \<and> next_socket a \<in> set (listening (stop a1))))"
proof (intro conjI impI)
  assume first: "serve_begin core_registry env a = (Done ev, a1)" and second: "bind_fails env' = Some e"
  let ?b = "a1\<lparr>app_server := s\<rparr>"
  obtain xs where a1: "ev = length (events a)" "a1 = serving udp xs a"
    using serve_begin_Done [OF first assms(1)] by blast
  have c: "core_protocol udp ?b" "app_handler ?b \<noteq> None" using assms(1,2) by (simp_all add: core_protocol_def a1 serving_def)
  obtain h where h: "serve_begin core_registry env' ?b =
      (Raise e, ?b\<lparr>app_listener := Some (if udp then UDPListener None h else TCPListener None)\<rparr>)" (is "_ = (_, ?c)")
    using serve_begin_cases(1) [OF c(2,1) second] by blast
  have "serve_end env dec ev EventSet (stop ?c) = (Done (), serve_finally env dec (stop ?c))"
    by (simp add: serve_end_def stop_def a1 serving_def)
  moreover have "listening (serve_finally env dec (stop ?c)) = listening a1"
    by (simp add: serve_finally_def Let_def remove_signals_def listener_stop_def)
  moreover have "next_socket a \<in> set (listening a1)" by (simp add: a1 serving_def)
  ultimately show "\<exists>a2 a3. serve_begin core_registry env' ?b = (Raise e, a2) \<and>
      serve_end env dec ev EventSet (stop a2) = (Done (), a3) \<and> next_socket a \<in> set (listening a3)"
    using h by auto
next
  assume x: "signal_fails env SIGINT = Some x" "\<not> catches [NotImplementedError, AttributeError] x"
  then have "fst (add_signals env [SIGINT, SIGTERM] a) = Raise x" by simp
  then obtain xs where "serve_begin core_registry env a = (Raise x, serving udp xs a)"
    using serve_begin_cases(2) [OF assms(2,1,3)] by auto
  moreover have "next_socket a \<in> set (listening (stop (serving udp xs a)))" by (simp add: stop_def serving_def)
  ultimately show "\<exists>a1. serve_begin core_registry env a = (Raise x, a1) \<and> next_socket a \<in> set (listening (stop a1))"
    by blast
qed

theorem failed_serve_leaves_socket_open_witness:
  "\<exists>a1 a2. serve_begin core_registry \<lparr>bind_fails = None, signal_fails = \<lambda>_. None, foreign_start = \<lambda>n a. (Done (), a), foreign_stop = \<lambda>n a. a\<rparr>
       ((new_app ''tcp'' toy_listener)\<lparr>app_handler := Some (\<lambda>se. (Done (), se))\<rparr>) = (Done 0, a1) \<and>
     serve_begin core_registry \<lparr>bind_fails = Some OSError, signal_fails = \<lambda>_. None, foreign_start = \<lambda>n a. (Done (), a), foreign_stop = \<lambda>n a. a\<rparr>
       (a1\<lparr>app_server := toy_listener\<rparr>) = (Raise OSError, a2)"
proof -
  let ?env = "\<lambda>b. \<lparr>bind_fails = b, signal_fails = \<lambda>_. None, foreign_start = \<lambda>n a. (Done (), a), foreign_stop = \<lambda>n a. a\<rparr> :: app surroundings"
  let ?a = "(new_app ''tcp'' toy_listener)\<lparr>app_handler := Some (\<lambda>se. (Done (), se))\<rparr>"
  have "lower ''tcp'' = ''tcp''" by code_simp
  then have c: "core_protocol False ?a" by (simp add: core_protocol_def new_app_def)
  have h: "app_handler ?a \<noteq> None" by simp
  obtain x where b: "serve_begin core_registry (?env None) ?a = (Done 0, serving False x ?a)"
    using serve_begin_cases(2) [OF h c, of "?env None"] by (auto simp: new_app_def)
  have "bind_fails (?env None) = None" "bind_fails (?env (Some OSError)) = Some OSError" by simp_all
  from failed_serve_leaves_socket_open [OF c h this(1), THEN conjunct1, rule_format, OF b this(2), of toy_listener] b
  show ?thesis by blast
qed

end
