(* ===== verification/Legacy.thy ===== *)
theory Legacy
  imports Server
begin

text \<open>
  The two call forms of the session and of the handshakes: with a transport, or with the
  \<open>asyncio\<close> stream pair of the older interface, which \<open>coerce_transport\<close> of
  \<open>src/src/usmp/transport/base.py\<close> wraps. Which form is meant is told by the Python types of
  the arguments, so arguments are a datatype here. \<open>None\<close> as a result stands for calls that
  neither overload admits.
\<close>

record stream_reader =
  sr_buffer :: bytes
  sr_eof :: bool

record stream_writer =
  sw_written :: bytes
  sw_lost :: bool
  sw_closed :: bool
  sw_peer :: peername

definition TCPTransport :: "stream_reader \<Rightarrow> stream_writer \<Rightarrow> tcp_transport" where
  "TCPTransport reader writer =
     \<lparr>rbuf = sr_buffer reader, at_eof = sr_eof reader, wbuf = sw_written writer, conn_lost = sw_lost writer,
      w_closed = sw_closed writer, tcp_peer = sw_peer writer\<rparr>"

text \<open>\<open>DuckArg\<close> has \<open>set_session_keys\<close> without being an instance of \<open>USMPTransport\<close>.\<close>

datatype arg =
    TransportArg endpoint | DuckArg endpoint | ReaderArg stream_reader | WriterArg stream_writer
  | InfoArg session_info | PskArg psk_source | BytesArg bytes | NoneArg

fun as_transport :: "arg \<Rightarrow> endpoint option" where
  "as_transport (TransportArg e) = Some e"
| "as_transport (DuckArg e) = Some e"
| "as_transport _ = None"

definition coerce_transport :: "arg \<Rightarrow> arg \<Rightarrow> endpoint option" where
  "coerce_transport reader writer =
     (case reader of
        TransportArg e \<Rightarrow> Some e
      | DuckArg e \<Rightarrow> Some e
      | ReaderArg r \<Rightarrow> (case writer of WriterArg w \<Rightarrow> Some (TcpEnd (TCPTransport r w)) | _ \<Rightarrow> None)
      | _ \<Rightarrow> None)"

definition session_call ::
  "arg \<Rightarrow> arg \<Rightarrow> arg \<Rightarrow> seconds option \<Rightarrow> (nat \<Rightarrow> seconds) \<Rightarrow> endpoint session option"
where
  "session_call reader writer i timeout clk =
     (case i of
        NoneArg \<Rightarrow>
          (case (as_transport reader, writer) of
             (Some e, InfoArg actual) \<Rightarrow> Some (USMPSession e actual None clk)
           | _ \<Rightarrow> None)
      | InfoArg actual \<Rightarrow> map_option (\<lambda>e. USMPSession e actual timeout clk) (coerce_transport reader writer)
      | _ \<Rightarrow> None)"

text \<open>What the two handshakes run on: transport and key, and the client's device id.\<close>

definition server_handshake_call :: "arg \<Rightarrow> arg \<Rightarrow> arg \<Rightarrow> (endpoint \<times> psk_source) option" where
  "server_handshake_call reader writer psk =
     (case psk of
        NoneArg \<Rightarrow>
          (case (as_transport reader, writer) of (Some e, PskArg k) \<Rightarrow> Some (e, k) | _ \<Rightarrow> None)
      | PskArg k \<Rightarrow> map_option (\<lambda>e. (e, k)) (coerce_transport reader writer)
      | _ \<Rightarrow> None)"

definition client_handshake_call :: "arg \<Rightarrow> arg \<Rightarrow> arg \<Rightarrow> arg \<Rightarrow> (endpoint \<times> bytes \<times> bytes) option" where
  "client_handshake_call reader writer psk dev =
     (case dev of
        NoneArg \<Rightarrow>
          (case (as_transport reader, writer, psk) of
             (Some e, BytesArg k, BytesArg d) \<Rightarrow> Some (e, k, d)
           | _ \<Rightarrow> None)
      | BytesArg d \<Rightarrow>
          (case (coerce_transport reader writer, psk) of (Some e, BytesArg k) \<Rightarrow> Some (e, k, d) | _ \<Rightarrow> None)
      | _ \<Rightarrow> None)"

subsection \<open>The forms agree\<close>

text \<open>A transport is its own coercion, whatever is passed as the writer.\<close>

lemma coerce_transport_idem: "coerce_transport r w = Some e \<Longrightarrow> coerce_transport (TransportArg e) w' = Some e"
  by (simp add: coerce_transport_def)

text \<open>
  The stream form on a pair is the transport form on the wrapped pair: for the handshakes
  always, for a session when no timeout is given.
\<close>

lemma forms_agree:
  assumes "coerce_transport r w = Some e"
  shows "server_handshake_call r w (PskArg k) = server_handshake_call (TransportArg e) (PskArg k) NoneArg"
    "client_handshake_call r w (BytesArg p) (BytesArg d) = client_handshake_call (TransportArg e) (BytesArg p) (BytesArg d) NoneArg"
    "session_call r w (InfoArg i) None clk = session_call (TransportArg e) (InfoArg i) NoneArg timeout clk"
  using assms by (simp_all add: server_handshake_call_def client_handshake_call_def session_call_def)

text \<open>A timeout is kept in the stream form and dropped, without a word, in the transport form.\<close>

lemma transport_form_drops_timeout:
  "session_call (TransportArg e) (InfoArg i) NoneArg (Some t) clk = Some se \<Longrightarrow> recv_timeout se = None"
  "coerce_transport r w = Some e \<Longrightarrow> session_call r w (InfoArg i) (Some t) clk = Some se \<Longrightarrow> recv_timeout se = Some t"
  by (auto simp: session_call_def USMPSession_def)

end
