(* ===== verification/Client.thy ===== *)
theory Client
  imports Reassembly Registry Printing
begin

text \<open>
  \<open>USMPClient\<close> of \<open>src/src/usmp/_client.py\<close> over any transport. When the client holds a
  transport outside \<open>connect\<close>, it is that of its session; \<open>cl_attached\<close> says whether
  \<open>_transport\<close> is set. \<open>cl_gone\<close> records the transports the client has let go of, in their
  final state. What opening a connection gives is an argument.
\<close>

record 't client =
  cl_psk :: bytes
  cl_device_id :: bytes
  cl_protocol :: string
  cl_session :: "'t session option"
  cl_attached :: bool
  cl_gone :: "'t list"

text \<open>\<open>USMPClient(...)\<close>; \<open>rand\<close> is what \<open>os.urandom(6)\<close> returned.\<close>

definition USMPClient :: "bytes \<Rightarrow> bytes option \<Rightarrow> bytes \<Rightarrow> string \<Rightarrow> 't client" where
  "USMPClient psk dev_opt rand protocol =
     \<lparr>cl_psk = psk,
      cl_device_id = (case dev_opt of Some dev \<Rightarrow> if dev = [] then rand else dev | None \<Rightarrow> rand),
      cl_protocol = lower protocol, cl_session = None, cl_attached = False, cl_gone = []\<rparr>"

text \<open>
  \<open>connect\<close>. \<open>dial\<close> is the class method \<open>connect\<close> of the transport class; a handshake left
  waiting is cancelled by \<open>wait_for\<close>, which raises \<open>TimeoutError\<close>.
\<close>

definition client_connect ::
  "crypto \<Rightarrow> registry \<Rightarrow> (transport_class \<Rightarrow> 't result) \<Rightarrow> (nat \<Rightarrow> seconds) \<Rightarrow> bytes
     \<Rightarrow> 't transport_ops \<Rightarrow> ('t client, unit) coro"
where
  "client_connect c reg dial clk priv T cl =
     (case bind_result (get_transport_class (cl_protocol cl) reg) dial of
        Inl e \<Rightarrow> (Raise e, cl)
      | Inr t \<Rightarrow>
          (case client_handshake c T (Some (cl_psk cl)) (Some (cl_device_id cl)) priv t of
             (Done i, t') \<Rightarrow>
               (Done (), cl\<lparr>cl_session := Some (USMPSession t' i None clk), cl_attached := True,
                            cl_gone := cl_gone cl @ (case cl_session cl of None \<Rightarrow> [] | Some s \<Rightarrow> [transport s])\<rparr>)
           | (Raise e, t') \<Rightarrow>
               (Raise (if catches [TimeoutError] e then USMPTimeoutError else e),
                cl\<lparr>cl_attached := False, cl_gone := cl_gone cl @ [t_close T t']\<rparr>)
           | (Waiting, t') \<Rightarrow>
               (Raise USMPTimeoutError, cl\<lparr>cl_attached := False, cl_gone := cl_gone cl @ [t_close T t']\<rparr>)))"

definition ensure_connected :: "'t client \<Rightarrow> 't session result" where
  "ensure_connected cl = (case cl_session cl of None \<Rightarrow> Inl NotConnectedError | Some s \<Rightarrow> Inr s)"

definition on_session :: "('t session, 'a) coro \<Rightarrow> ('t client, 'a) coro" where
  "on_session m cl =
     (case ensure_connected cl of
        Inl e \<Rightarrow> (Raise e, cl)
      | Inr s \<Rightarrow> (case m s of (r, s') \<Rightarrow> (r, cl\<lparr>cl_session := Some s'\<rparr>)))"

definition client_send :: "crypto \<Rightarrow> 't transport_ops \<Rightarrow> bytes \<Rightarrow> ('t client, unit) coro" where
  "client_send c T data = on_session (send c T data)"

definition client_ping :: "crypto \<Rightarrow> 't transport_ops \<Rightarrow> ('t client, unit) coro" where
  "client_ping c T = on_session (ping c T)"

text \<open>\<open>recv\<close>; \<open>None\<close>: more turns of the receive loop than \<open>fuel\<close>.\<close>

definition client_recv ::
  "nat \<Rightarrow> crypto \<Rightarrow> 't transport_ops \<Rightarrow> (nat \<Rightarrow> seconds) \<Rightarrow> 't client \<Rightarrow> (bytes io \<times> 't client) option"
where
  "client_recv fuel c T clk cl =
     (case ensure_connected cl of
        Inl e \<Rightarrow> Some (Raise e, cl)
      | Inr s \<Rightarrow> map_option (\<lambda>(r, s'). (r, cl\<lparr>cl_session := Some s'\<rparr>)) (recv fuel c T clk None s))"

definition client_disconnect :: "crypto \<Rightarrow> 't transport_ops \<Rightarrow> ('t client, unit) coro" where
  "client_disconnect c T cl =
     (case cl_session cl of
        None \<Rightarrow> (Done (), cl\<lparr>cl_attached := False\<rparr>)
      | Some s \<Rightarrow>
          (case bye c T s of
             (Waiting, s') \<Rightarrow> (Waiting, cl\<lparr>cl_session := Some s'\<rparr>)
           | (r, s') \<Rightarrow>
               (let t = (if cl_attached cl then t_close T (transport s') else transport s')
                in (r, cl\<lparr>cl_session := None, cl_attached := False, cl_gone := cl_gone cl @ [t]\<rparr>))))"

text \<open>The properties \<open>device_id\<close> and \<open>session_id\<close> of a session.\<close>

definition session_device_id :: "'t session \<Rightarrow> string" where
  "session_device_id s = device_id_str (info s)"

definition session_session_id :: "'t session \<Rightarrow> string" where
  "session_session_id s = session_id_str (info s)"

definition client_session_id :: "'t client \<Rightarrow> string option" where
  "client_session_id cl = map_option session_session_id (cl_session cl)"

subsection \<open>The client's datagram endpoint\<close>

text \<open>
  \<open>ClientUDPProtocol\<close> of \<open>src/src/usmp/transport/udp.py\<close>: the callbacks asyncio makes for
  the client's socket. \<open>datagram\<close> says whether the transport can send datagrams.
\<close>

type_synonym client_protocol = "udp_stream option"

definition client_connection_made :: "bool \<Rightarrow> addr \<Rightarrow> client_protocol \<Rightarrow> udp_stream result \<times> client_protocol" where
  "client_connection_made datagram peer p =
     (if \<not> datagram then (Inl TypeError, p)
      else let stream = UDPStream peer False in (Inr stream, Some stream))"

definition client_datagram_received :: "bytes \<Rightarrow> (client_protocol, unit) coro" where
  "client_datagram_received data p =
     (case p of None \<Rightarrow> (Done (), p) | Some st \<Rightarrow> (case feed_packet data st of (r, st') \<Rightarrow> (r, Some st')))"

text \<open>\<open>error_received\<close> and \<open>connection_lost\<close>.\<close>

definition client_endpoint_lost :: "client_protocol \<Rightarrow> client_protocol" where
  "client_endpoint_lost p = map_option udp_close p"

text \<open>
  The class methods \<open>connect\<close>: what \<open>open_connection\<close> and \<open>create_datagram_endpoint\<close> give is
  an argument. Were \<open>connection_made\<close> to raise, the loop would report it and \<open>connect\<close> wait
  for ever.
\<close>

definition tcp_connect :: "peername result \<Rightarrow> tcp_transport result" where
  "tcp_connect opened = bind_result opened (\<lambda>peer. Inr (tcp_open peer))"

definition udp_connect :: "(bool \<times> addr) result \<Rightarrow> udp_stream io" where
  "udp_connect endpoint =
     (case endpoint of
        Inl e \<Rightarrow> Raise e
      | Inr (datagram, peer) \<Rightarrow>
          (case client_connection_made datagram peer None of
             (Inr stream, p) \<Rightarrow> Done stream
           | (Inl e, p) \<Rightarrow> Waiting))"

text \<open>\<open>UDPStream.get_extra_info\<close>; \<open>below\<close> answers for the datagram transport.\<close>

definition udp_get_extra_info :: "(string \<Rightarrow> peername) \<Rightarrow> string \<Rightarrow> udp_stream \<Rightarrow> peername" where
  "udp_get_extra_info below name st =
     (if name = ''peername'' then PeerTuple (remote_addr st) else below name)"

lemma udp_peername: "udp_get_extra_info below ''peername'' st = t_peername udp_ops st"
  by (simp add: udp_get_extra_info_def udp_ops_def)

lemma udp_connect_Done: "udp_connect (Inr (True, peer)) = Done (UDPStream peer False)"
  by (simp add: udp_connect_def client_connection_made_def Let_def)

lemma client_endpoint_lost_closes:
  "client_endpoint_lost (Some st) = Some st' \<Longrightarrow> \<not> is_server st \<Longrightarrow> u_closed st' \<and> endpoint_closed st'"
  by (auto simp: client_endpoint_lost_def udp_close_def)

subsection \<open>Properties\<close>



end
