(* ===== verification/Logging.thy ===== *)
theory Logging
  imports Registry
begin

text \<open>
  \<open>src/src/usmp/_logging.py\<close>: how a record is formatted, and \<open>setup_logging\<close> as a change
  of the \<open>usmp\<close> logger's level and handlers. What \<open>formatTime\<close>, \<open>getMessage\<close> and
  \<open>formatException\<close> of the logging package return is part of the record.
\<close>

subsection \<open>Formatting\<close>

record log_record =
  r_time :: string
  r_name :: string
  r_levelno :: int
  r_levelname :: string
  r_message :: string
  r_exc :: "string option"

record formatter =
  f_fmt :: "string option"
  use_color :: bool

definition esc :: "string \<Rightarrow> string" where
  "esc code = CHR 0x1B # ''['' @ code @ ''m''"

definition RESET :: string where "RESET = esc ''0''"
definition GRAY :: string where "GRAY = esc ''90''"
definition WHITE_BOLD :: string where "WHITE_BOLD = esc ''97;1''"

definition DEBUG :: int where "DEBUG = 10"
definition INFO :: int where "INFO = 20"
definition WARNING :: int where "WARNING = 30"
definition ERROR :: int where "ERROR = 40"
definition CRITICAL :: int where "CRITICAL = 50"

definition level_badges :: "(int, string) dict" where
  "level_badges =
     [(DEBUG, esc ''46;30'' @ '' DEBUG '' @ RESET), (INFO, esc ''42;30'' @ '' INFO  '' @ RESET),
      (WARNING, esc ''43;30'' @ '' WARN  '' @ RESET), (ERROR, esc ''41;97;1'' @ '' ERROR '' @ RESET),
      (CRITICAL, esc ''45;97;1'' @ '' CRIT  '' @ RESET)]"

text \<open>The format specification \<open>:<5\<close>.\<close>

definition pad5 :: "string \<Rightarrow> string" where
  "pad5 s = s @ replicate (5 - length s) (CHR '' '')"

definition short_name :: "string \<Rightarrow> string" where
  "short_name name =
     (if take 5 name = ''usmp.'' then drop 5 name else if name = ''usmp'' then ''core'' else name)"

definition format_record :: "formatter \<Rightarrow> log_record \<Rightarrow> string" where
  "format_record f r =
     (let name = short_name (r_name r);
          formatted =
            (if \<not> use_color f then r_time r @ '' ['' @ pad5 (r_levelname r) @ ''] ['' @ name @ ''] '' @ r_message r
             else
               let badge = (case dict_get level_badges (r_levelno r) of
                              Some b \<Rightarrow> b
                            | None \<Rightarrow> GRAY @ ''['' @ pad5 (r_levelname r) @ '']'' @ RESET)
               in GRAY @ r_time r @ RESET @ '' '' @ badge @ '' '' @ GRAY @ ''['' @ WHITE_BOLD @ name @ GRAY @ '']'' @ RESET @
                  '' '' @ r_message r)
      in case r_exc r of None \<Rightarrow> formatted | Some x \<Rightarrow> formatted @ CHR 0x0A # x)"

subsection \<open>Configuration\<close>

text \<open>What \<open>stream.reconfigure\<close> does, if the stream has it; \<open>isatty\<close> likewise.\<close>

datatype reconfigure = NoReconfigure | Reconfigures | ReconfigureRaises exn | ReconfigureAttributeError

record log_stream =
  stream_id :: nat
  reconfigures :: reconfigure
  isatty :: "bool option"

datatype log_handler = NullHandler nat | StreamHandler log_stream int formatter | OtherHandler nat

record logger =
  lg_level :: int
  lg_handlers :: "log_handler list"

text \<open>
  \<open>getattr(logging, level.upper(), logging.INFO)\<close>; the upper-case attributes of the
  logging package are its level names and \<open>BASIC_FORMAT\<close>, a string \<open>setLevel\<close> refuses.
\<close>

datatype level_arg = LevelInt int | LevelName string

definition same_name :: "string \<Rightarrow> string \<Rightarrow> bool" where
  "same_name a b \<longleftrightarrow> lower a = lower b"

definition level_of_arg :: "level_arg \<Rightarrow> int result" where
  "level_of_arg a =
     (case a of
        LevelInt n \<Rightarrow> Inr n
      | LevelName s \<Rightarrow>
          if same_name s ''BASIC_FORMAT'' then Inl ValueError
          else Inr (if same_name s ''DEBUG'' then DEBUG else if same_name s ''INFO'' then INFO
                    else if same_name s ''WARNING'' \<or> same_name s ''WARN'' then WARNING
                    else if same_name s ''ERROR'' then ERROR
                    else if same_name s ''CRITICAL'' \<or> same_name s ''FATAL'' then CRITICAL
                    else if same_name s ''NOTSET'' then 0 else INFO))"

fun is_null_handler :: "log_handler \<Rightarrow> bool" where
  "is_null_handler (NullHandler n) = True"
| "is_null_handler (StreamHandler st lv f) = False"
| "is_null_handler (OtherHandler n) = False"

definition setup_logging ::
  "level_arg \<Rightarrow> log_stream \<Rightarrow> string option \<Rightarrow> bool option \<Rightarrow> logger \<Rightarrow> log_handler result \<times> logger"
where
  "setup_logging level stream fmt color lg =
     (case level_of_arg level of
        Inl e \<Rightarrow> (Inl e, lg)
      | Inr level \<Rightarrow>
          (let lg1 = lg\<lparr>lg_level := level, lg_handlers := filter is_null_handler (lg_handlers lg)\<rparr>;
               failure = (case reconfigures stream of
                            ReconfigureRaises e \<Rightarrow> if catches [ValueError, OSError] e then None else Some e
                          | _ \<Rightarrow> None) in
           case failure of
             Some e \<Rightarrow> (Inl e, lg1)
           | None \<Rightarrow>
               (let color = (case color of Some b \<Rightarrow> b | None \<Rightarrow> isatty stream = Some True);
                    handler = StreamHandler stream level \<lparr>f_fmt = fmt, use_color = color\<rparr>
                in (Inr handler, lg1\<lparr>lg_handlers := lg_handlers lg1 @ [handler]\<rparr>))))"

text \<open>The logger as importing the package leaves it: its no-op handler is added.\<close>

definition package_logger :: "nat \<Rightarrow> logger \<Rightarrow> logger" where
  "package_logger n lg = lg\<lparr>lg_handlers := lg_handlers lg @ [NullHandler n]\<rparr>"

subsection \<open>Properties\<close>

lemma format_record_plain:
  assumes "\<not> use_color f" "r_exc r = None" "take 5 (r_name r) = ''usmp.''"
  shows "format_record f r =
    r_time r @ '' ['' @ pad5 (r_levelname r) @ ''] ['' @ drop 5 (r_name r) @ ''] '' @ r_message r"
  using assms by (simp add: format_record_def short_name_def)

text \<open>\<open>fmt\<close> is accepted and stored, and has no effect.\<close>

lemma fmt_ignored: "format_record (f\<lparr>f_fmt := fmt\<rparr>) r = format_record f r"
  by (simp add: format_record_def)

text \<open>
  However often logging is set up, and with whatever arguments, no record is written
  twice: afterwards the logger has exactly one handler besides the no-op ones, the new one,
  with the requested level; the no-op handlers of the package and the application stay; and
  setting up again replaces the handler rather than adding to it.
\<close>

lemma setup_logging_one_handler:
  assumes "setup_logging level stream fmt color lg = (Inr h, lg')"
  shows "filter (\<lambda>x. \<not> is_null_handler x) (lg_handlers lg') = [h] \<and>
    filter is_null_handler (lg_handlers lg') = filter is_null_handler (lg_handlers lg) \<and>
    level_of_arg level = Inr (lg_level lg') \<and>
    (level_of_arg level2 = Inr n \<longrightarrow>
      setup_logging level2 stream2 fmt2 color2 lg' = setup_logging level2 stream2 fmt2 color2 lg)"
proof -
  have h: "\<not> is_null_handler h" "lg_handlers lg' = filter is_null_handler (lg_handlers lg) @ [h]"
    "level_of_arg level = Inr (lg_level lg')"
    using assms by (auto simp: setup_logging_def Let_def split: sum.splits option.splits reconfigure.splits)
  then have "lg'\<lparr>lg_level := n, lg_handlers := filter is_null_handler (lg_handlers lg')\<rparr> =
      lg\<lparr>lg_level := n, lg_handlers := filter is_null_handler (lg_handlers lg)\<rparr>" by simp
  then have "setup_logging level2 stream2 fmt2 color2 lg' = setup_logging level2 stream2 fmt2 color2 lg"
    if "level_of_arg level2 = Inr n" using that by (simp add: setup_logging_def Let_def)
  then show ?thesis using h by simp
qed

definition toy_stream :: log_stream where
  "toy_stream = \<lparr>stream_id = 0, reconfigures = Reconfigures, isatty = Some True\<rparr>"

end
