(* ===== verification/Spec2Isabelle.thy ===== *)
theory Spec2Isabelle
  imports Udp_Handshake Rekey_Races Send_Lock Handshake_Gate Serve Legacy Client Logging
begin

text \<open>
  USMP, the protocol of \<open>src/src/usmp/\<close>: authenticated, encrypted sessions between devices
  and a server, over TCP or over UDP with its own acknowledgements.

  \<^bold>\<open>The parts and how they interact.\<close> A client (\<open>_client.py\<close>) opens a transport and runs
  \<open>client_handshake\<close>; the server (\<open>_server.py\<close>) gets transports from a listener and runs
  \<open>server_handshake\<close> (\<open>_handshake.py\<close>), which consults the table of failed handshakes.
  Both sides then hold a \<open>SessionInfo\<close> (\<open>types.py\<close>) and wrap it in a \<open>USMPSession\<close>
  (\<open>_session.py\<close>), which seals messages with the functions of \<open>_crypto.py\<close> into frames
  (\<open>_frame.py\<close>) and gives them to its transport (\<open>transport/base.py\<close>, \<open>tcp.py\<close>,
  \<open>udp.py\<close>). The UDP listener shares the server's tables and admits a peer only after it
  has returned a stateless cookie.

  \<^bold>\<open>The theories.\<close>
  \<^item> \<open>Usmp_Prelude\<close>: bytes, slices, the theorem collections. \<open>Errors\<close>: the exception classes
    (\<open>errors.py\<close>), \<open>'a result\<close> for code that returns or raises and coroutines
    \<open>('s, 'a) coro\<close>, which return, raise or are left waiting for input, with the state
    they leave. \<open>Struct_Pack\<close>: \<open>struct\<close>'s little-endian fields, as the locale
    \<open>le_codec\<close>. \<open>Pydict\<close>: insertion-ordered dictionaries, contract \<open>py_mapping\<close>.
    \<open>Types\<close> and \<open>Printing\<close>: \<open>types.py\<close>, its data and what it prints.
  \<^item> \<open>Crc\<close> and \<open>Frame\<close>: \<open>_frame.py\<close>. Encoding and decoding are inverse, decoding is
    canonical, the CRC rejects every single changed byte and every burst of 16 bits. The
    locale \<open>byte_reader\<close> is what \<open>read_frame\<close> needs of a stream; TCP and UDP provide it.
  \<^item> \<open>Sha256\<close> and \<open>Crypto\<close>: \<open>_crypto.py\<close>. SHA-256 and HMAC are computed. AES-GCM, X25519
    and HKDF belong to a third-party package: they are the record \<open>crypto\<close>, an argument, and
    what is relied on are the hypotheses \<open>aead_sized\<close>, \<open>aead_correct\<close>,
    \<open>aead_plain_sized\<close>, \<open>x25519_sized\<close>, \<open>dh_commutes\<close> and \<open>hkdf_sized\<close>, all of which
    \<open>toy_crypto\<close> satisfies. No unforgeability is assumed: the safety theorems say which MAC
    or tag was verified, not that it cannot be guessed.
  \<^item> \<open>Transport\<close>: the operations of \<open>USMPTransport\<close> as a record, and the locale
    \<open>usmp_transport\<close> with the laws the session relies on. \<open>Tcp\<close>: \<open>TCPTransport\<close> over
    the bytes received so far. \<open>Udp\<close>: \<open>UDPStream\<close> (intake, UTACKs, duplicates, bounded
    buffer, retransmission), with an invariant of all reachable streams.
  \<^item> \<open>Rate_Limiter\<close> and \<open>Handshake\<close>: \<open>_handshake.py\<close>, both sides over any transport:
    what is verified before a session is accepted, that honest sides agree, which failures
    are counted and when a peer is locked out.
  \<^item> \<open>Session\<close>: \<open>_session.py\<close>. \<open>Session_Steps\<close>: everything an application can do with a
    session, as a step relation, and the locale \<open>session_sections\<close>: a relation that holds
    across the atomic sections holds across every operation. It is interpreted twice, in
    \<open>Nonces\<close> (no nonce is used twice in a key epoch) and in \<open>Session_Types\<close> (sizes and
    ranges of all fields). \<open>Replay\<close>: the sliding window implements a set (locale
    \<open>anti_replay\<close>). \<open>Reassembly\<close>: sending and receiving over TCP end to end, fragments,
    rekeying, closing, termination and bounds of \<open>recv\<close>.
  \<^item> \<open>Udp_Session\<close>: two sessions over UDP with the network between them. Each copy of a
    datagram and each acknowledgement meets a \<open>fate\<close>; as long as not all five copies of a frame
    and their acknowledgements are lost, a message arrives whole and once. \<open>Rekey_Races\<close>: what
    rekeying does to frames in flight. \<open>Permits\<close>: \<open>asyncio\<close>'s lock and semaphore, with the
    contract \<open>fair_gate\<close> that both keep. \<open>Send_Lock\<close>: all tasks that send on one session.
  \<^item> \<open>Counting\<close>: the counter dictionaries of the server (locale \<open>live_counter\<close>).
    \<open>Cookie_Limiter\<close>: \<open>_allow_udp_cookie\<close>. \<open>Cookies\<close>: what a cookie binds.
    \<open>Server\<close>: \<open>USMPServer\<close>, the life of a connection cut into the parts between two
    \<open>await\<close>s and composed, and the watchdog. \<open>Udp_Listener\<close>: \<open>_handle_udp_datagram\<close>.
    \<open>Server_Runs\<close>: every interleaving of the parts of all connections as a step relation,
    the abstract machine on the tables that it refines, and the invariants of the reachable
    states. \<open>Handshake_Gate\<close>: those runs together with the handshake semaphore.
    \<open>Udp_Handshake\<close>: client, listener and server over UDP up to paired sessions.
    \<open>Shutdown\<close>: what stopping does to the connections. \<open>Serve\<close>: \<open>on_session\<close>, \<open>serve\<close>,
    \<open>stop\<close> and the listeners they start and stop.
  \<^item> \<open>Registry\<close>: \<open>transport/__init__.py\<close>. \<open>Client\<close>: \<open>_client.py\<close> and the client's
    datagram callbacks. \<open>Legacy\<close>: the call forms with a stream pair (\<open>coerce_transport\<close>).
    \<open>Logging\<close>: \<open>_logging.py\<close>.
  \<^item> This theory: client and server together.

  \<^bold>\<open>Conventions.\<close> An operation takes and returns its state. Random bytes, private keys and
  clock readings are arguments, in the order the code draws them. A coroutine left
  \<open>Waiting\<close> has consumed what it consumed: this is how a later cancellation sees it.
  \<open>recv\<close> takes the number of turns its loop may make; one more than there are bytes to read
  is enough (\<open>recv_terminates\<close>), and more change nothing. The five attempts of the
  retransmission loop are the code's own bound. Times are rationals; rounding of sums of
  floating-point numbers is not modelled, except that \<open>2.0 ** n\<close> overflows. Host names and
  protocol names are strings of characters below 256.

  \<^bold>\<open>Not modelled.\<close> The event loop and the sockets themselves (asyncio): what they answer is
  an argument (\<open>surroundings\<close>, the fates of datagrams, the observations of the watchdog).
  Transports and listeners an application registers itself are known by what they answer.
  Log messages of the protocol code and message texts of exceptions. The dataclasses'
  generated \<open>__repr__\<close> and \<open>__eq__\<close>. Names re-exported by \<open>__init__.py\<close>. The single
  \<open>send\<close> and \<open>recv\<close> of \<open>Session\<close> run without interruption; what several tasks do to
  one session is in \<open>Session_Steps\<close> and \<open>Send_Lock\<close>.

  \<^bold>\<open>Still open.\<close> The deadline of a handshake as a clock that runs with the server's steps; a
  session over UDP whose datagrams arrive out of order across \<open>recv\<close> calls of both sides at
  once; runs of \<open>serve\<close> called again after a stop.
\<close>

section \<open>The system end to end\<close>

text \<open>
  C2. Client and server together, over TCP. A client with the pre-shared key of its device
  connects, sends a message of up to four frames and disconnects. Its \<open>connect\<close> succeeds on
  the messages the server's handshake writes, and the server's handshake succeeds on the
  messages the client writes; every step of the client succeeds and leaves it without a
  session and its connection closed; and on the bytes the client wrote the server's session
  receives exactly the message and then \<open>ConnectionClosedError\<close>.
\<close>

theorem client_server_end_to_end:
  assumes crypto: "x25519_sized c" "dh_commutes c" "hkdf_sized c" "aead_sized c" "aead_correct c" "aead_plain_sized c"
    and l: "length dev = 6" "length nonce = 32" "length sid = 16" and psk: "resolve_psk src dev = Inr psk"
    and keys: "derive_session_keys c a (x25519_public c b) nonce (x25519_public c a) (x25519_public c b) = Inr (kc, ks)"
    and free: "dict_get tbl host = None"
    and data: "length data \<le> USMP_MAX_DATA_LEN * USMP_MAX_FRAMES" and fuel: "USMP_MAX_FRAMES \<le> fuel"
  shows "\<exists>to_server to_client w cl1 cl2 cl3 t si st s1 s2.
    client_connect c core_registry (\<lambda>_. Inr ((tcp_open peer)\<lparr>rbuf := to_client\<rparr>)) clk a tcp_ops
      (USMPClient psk (Some dev) rand ''TCP'') = (Done (), cl1) \<and>
    server_handshake c tcp_ops src conn b nonce sid now nf ((tcp_open (PeerTuple (host, port)))\<lparr>rbuf := to_server\<rparr>, tbl) =
      (Done si, st, dict_pop tbl host) \<and> wbuf st = to_client \<and>
    client_session_id cl1 = Some (bytes_hex sid) \<and> session_id si = sid \<and> device_id si = dev \<and>
    client_send c tcp_ops data cl1 = (Done (), cl2) \<and> client_disconnect c tcp_ops cl2 = (Done (), cl3) \<and>
    cl_session cl3 = None \<and> cl_gone cl3 = [t] \<and> w_closed t \<and> wbuf t = to_server @ w \<and>
    recv fuel c tcp_ops clk' timeout (with_input w (USMPSession st si None clk')) = Some (Done data, s1) \<and>
    recv fuel c tcp_ops clk' timeout s1 = Some (Raise ConnectionClosedError, s2)"
proof -
  let ?pc = "x25519_public c a" and ?ps = "x25519_public c b" and ?ct = "tcp_open peer"
  let ?up = "hello_msg dev ?pc @ hello_ack_msg psk nonce dev ?pc ?ps"
  let ?down = "challenge_msg nonce ?ps @ session_ok_msg psk nonce sid ?pc ?ps"
  let ?ci = "fresh_info dev sid kc ks" and ?si = "fresh_info dev sid ks kc"
  let ?st = "(tcp_open (PeerTuple (host, port)))\<lparr>wbuf := ?down\<rparr>"
  let ?a = "USMPSession (?ct\<lparr>wbuf := ?up\<rparr>) ?ci None clk" and ?b = "USMPSession ?st ?si None clk'"
  let ?cl = "USMPClient psk (Some dev) rand ''TCP'' :: tcp_transport client"
  note runs = tcp_honest_runs [OF crypto(1-3) l psk keys free]
  have kl: "length kc = 32" "length ks = 32" using derive_session_keys_length [OF crypto(3) keys] by simp_all
  have tcp: "get_transport_class (lower ''TCP'') core_registry = Inr TCPTransportClass" by code_simp
  have ok: "sender_ok c (info ?a)" "tcp_live (transport ?a)" "paired (info ?a) (info ?b)" "\<not> s_closed ?a"
    and seq: "tx_seq (info ?a) + int USMP_MAX_FRAMES < 0xFFFFFFFF" and wb: "wbuf (transport ?a) = ?up"
    using crypto kl l
    by (simp_all add: sender_ok_def paired_def USMPSession_def fresh_info_def tcp_live_def tcp_open_def usmp_consts)
  obtain w a2 a3 s1 s2 where run: "send c tcp_ops data ?a = (Done (), a2)" "bye c tcp_ops a2 = (Done (), a3)"
      "transport a3 = (transport ?a)\<lparr>wbuf := wbuf (transport ?a) @ w, w_closed := True\<rparr>"
      "recv fuel c tcp_ops clk' timeout (with_input w ?b) = Some (Done data, s1)"
      "recv fuel c tcp_ops clk' timeout s1 = Some (Raise ConnectionClosedError, s2)"
    using tcp_send_bye_run [OF ok data seq fuel, of clk' timeout] by blast
  have connect: "client_connect c core_registry (\<lambda>_. Inr (?ct\<lparr>rbuf := ?down\<rparr>)) clk a tcp_ops ?cl =
      (Done (), ?cl\<lparr>cl_session := Some ?a, cl_attached := True\<rparr>)" (is "_ = (_, ?cl1)")
    using tcp runs(5) l(1) by (auto simp: client_connect_def USMPClient_def)
  have send: "client_send c tcp_ops data ?cl1 = (Done (), ?cl1\<lparr>cl_session := Some a2\<rparr>)" (is "_ = (_, ?cl2)")
    using run(1) by (simp add: client_send_def on_session_def ensure_connected_def)
  have disconnect: "client_disconnect c tcp_ops ?cl2 =
      (Done (), ?cl2\<lparr>cl_session := None, cl_attached := False, cl_gone := [t_close tcp_ops (transport a3)]\<rparr>)" (is "_ = (_, ?cl3)")
    using run(2) by (simp add: client_disconnect_def USMPClient_def)
  show ?thesis
    by (rule exI [of _ ?up], rule exI [of _ ?down], rule exI [of _ w], rule exI [of _ ?cl1], rule exI [of _ ?cl2],
        rule exI [of _ ?cl3], rule exI [of _ "t_close tcp_ops (transport a3)"], rule exI [of _ ?si], rule exI [of _ ?st],
        rule exI [of _ s1], rule exI [of _ s2], simp only: connect runs(4) send disconnect run(4,5))
      (use run(3) wb in \<open>simp add: client_session_id_def session_session_id_def session_id_str_def USMPSession_def fresh_info_def tcp_close_def\<close>)
qed

theorem client_server_end_to_end_witness:
  "\<exists>cl1 cl2 cl3 dn. client_connect toy_crypto core_registry (\<lambda>_. Inr ((tcp_open PeerNone)\<lparr>rbuf := dn\<rparr>)) (\<lambda>n. 0) [1] tcp_ops
      (USMPClient (replicate 16 7) (Some (replicate 6 5)) [] ''TCP'') = (Done (), cl1) \<and>
    client_send toy_crypto tcp_ops (replicate 500 3) cl1 = (Done (), cl2) \<and>
    client_disconnect toy_crypto tcp_ops cl2 = (Done (), cl3) \<and> cl_session cl3 = None"
proof -
  obtain kc ks where "derive_session_keys toy_crypto [1] (x25519_public toy_crypto [2]) (replicate 32 9)
      (x25519_public toy_crypto [1]) (x25519_public toy_crypto [2]) = Inr (kc, ks)"
    using toy_session_keys by blast
  from client_server_end_to_end [OF toy_crypto_laws(1-6) _ _ _ toy_psk this, where sid = "replicate 16 8" and tbl = "[]"
      and host = "''h''" and data = "replicate 500 3" and fuel = 4 and peer = PeerNone and clk = "\<lambda>n. 0" and rand = "[]"
      and conn = "''c''" and now = 0 and nf = 0 and port = 1 and clk' = "\<lambda>n. 0" and timeout = None]
  show ?thesis by (simp add: usmp_consts dict_get_def) blast
qed

end
